(* ===== verification/Wlan_Prelude.thy ===== *)
theory Wlan_Prelude
  imports Main "HOL-Library.Word"
begin

text \<open>
  Prelude of the verification library for the MT76x2U / RT28xx wireless driver.
  It holds what every component theory shares:
  \<^item> the machine integer types of \<^verbatim>\<open>include/rtmp_type.h\<close> as words of their width,
    and byte buffers as lists of bytes;
  \<^item> the memory primitives the driver uses on buffers (\<^verbatim>\<open>NdisMoveMemory\<close> at an
    offset, reading a slice, the byte-wise XOR loops) with their algebra;
  \<^item> big and little endian encodings of words with their round trips;
  \<^item> the collections \<open>buf_simps\<close> and \<open>bytes_simps\<close> the component proofs use.
\<close>

unbundle bit_operations_syntax

named_theorems buf_simps "algebra of buffer reads and writes"
named_theorems bytes_simps "algebra of byte-wise XOR and encodings"

type_synonym u8 = "8 word"
type_synonym u16 = "16 word"
type_synonym u32 = "32 word"
type_synonym u64 = "64 word"
type_synonym bytes = "u8 list"

section \<open>Reading and writing buffers\<close>

text \<open>
  \<open>read_at off n xs\<close> reads \<open>n\<close> bytes at offset \<open>off\<close>; \<open>write_at xs off ys\<close> is
  \<^verbatim>\<open>NdisMoveMemory(xs + off, ys, length ys)\<close> (\<^verbatim>\<open>include/os/rt_linux.h:416\<close>) for a
  source that does not overlap the destination.
\<close>

definition read_at :: "nat \<Rightarrow> nat \<Rightarrow> 'a list \<Rightarrow> 'a list" where
  "read_at off n xs = take n (drop off xs)"

definition write_at :: "'a list \<Rightarrow> nat \<Rightarrow> 'a list \<Rightarrow> 'a list" where
  "write_at xs off ys = take off xs @ ys @ drop (off + length ys) xs"

lemma length_read_at [simp, buf_simps]: "length (read_at off n xs) = min n (length xs - off)"
  by (simp add: read_at_def)

lemma length_write_at [simp, buf_simps]:
  "off + length ys \<le> length xs \<Longrightarrow> length (write_at xs off ys) = length xs"
  by (simp add: write_at_def)

lemma nth_read_at [buf_simps]: "off + n \<le> length xs \<Longrightarrow> i < n \<Longrightarrow> read_at off n xs ! i = xs ! (off + i)"
  by (simp add: read_at_def)

lemma nth_write_at [buf_simps]:
  assumes "off + length ys \<le> length xs" and "i < length xs"
  shows "write_at xs off ys ! i =
    (if off \<le> i \<and> i < off + length ys then ys ! (i - off) else xs ! i)"
  using assms by (auto simp: write_at_def nth_append)

lemma read_write_same [simp, buf_simps]:
  "off \<le> length xs \<Longrightarrow> n = length ys \<Longrightarrow> read_at off n (write_at xs off ys) = ys"
  by (simp add: read_at_def write_at_def)

lemma read_write_before [buf_simps]:
  "off' + n \<le> off \<Longrightarrow> off \<le> length xs \<Longrightarrow> read_at off' n (write_at xs off ys) = read_at off' n xs"
  by (simp add: read_at_def write_at_def take_drop add.commute)

lemma read_at_0 [simp, buf_simps]: "read_at 0 n xs = take n xs"
  by (simp add: read_at_def)

lemma read_at_all [simp, buf_simps]: "read_at 0 (length xs) xs = xs"
  by simp

lemma read_at_append_left [simp, buf_simps]: "off + n \<le> length xs \<Longrightarrow> read_at off n (xs @ ys) = read_at off n xs"
  by (simp add: read_at_def)

lemma read_at_append_right [simp, buf_simps]:
  "length xs \<le> off \<Longrightarrow> read_at off n (xs @ ys) = read_at (off - length xs) n ys"
  by (simp add: read_at_def)

lemma write_at_nil [simp, buf_simps]: "write_at xs off [] = xs"
  by (simp add: write_at_def)

lemma write_at_0_append [buf_simps]: "length ys = length zs \<Longrightarrow> write_at (ys @ xs) 0 zs = zs @ xs"
  by (simp add: write_at_def)

lemma write_at_read_at [simp, buf_simps]:
  assumes "off + n \<le> length xs"
  shows "write_at xs off (read_at off n xs) = xs"
proof -
  have "xs = take off xs @ take n (drop off xs) @ drop n (drop off xs)"
    by (simp only: append_take_drop_id)
  then show ?thesis using assms by (simp add: write_at_def read_at_def add.commute)
qed

lemma write_at_same [simp, buf_simps]:
  "length ys = length zs \<Longrightarrow> off + length ys \<le> length xs \<Longrightarrow> write_at (write_at xs off ys) off zs = write_at xs off zs"
  by (simp add: write_at_def)

lemma list_update_write_at:
  "off < length xs \<Longrightarrow> xs[off := y] = write_at xs off [y]"
  by (simp add: write_at_def upd_conv_take_nth_drop)

lemma write_at_write_at_adjacent:
  "off + length ys + length zs \<le> length xs \<Longrightarrow>
   write_at (write_at xs off ys) (off + length ys) zs = write_at xs off (ys @ zs)"
  by (simp add: write_at_def ac_simps)

lemma take_write_at [buf_simps]:
  "n = off + length ys \<Longrightarrow> off \<le> length xs \<Longrightarrow> take n (write_at xs off ys) = take off xs @ ys"
  by (simp add: write_at_def)

section \<open>Byte-wise XOR\<close>

definition xor_bytes :: "bytes \<Rightarrow> bytes \<Rightarrow> bytes" where
  "xor_bytes xs ys = map2 (XOR) xs ys"

lemma length_xor_bytes [simp, bytes_simps]: "length (xor_bytes xs ys) = min (length xs) (length ys)"
  by (simp add: xor_bytes_def)

lemma nth_xor_bytes [bytes_simps]:
  "i < length xs \<Longrightarrow> i < length ys \<Longrightarrow> xor_bytes xs ys ! i = xs ! i XOR ys ! i"
  by (simp add: xor_bytes_def)

lemma xor_bytes_Nil [simp, bytes_simps]: "xor_bytes [] ys = []" "xor_bytes xs [] = []"
  by (simp_all add: xor_bytes_def)

lemma xor_bytes_Cons [simp, bytes_simps]: "xor_bytes (x # xs) (y # ys) = (x XOR y) # xor_bytes xs ys"
  by (simp add: xor_bytes_def)

lemma word_xor_cancel_right [simp, bytes_simps]: "(x XOR y) XOR (y :: 'a::len word) = x"
  by (simp add: xor.assoc)

lemma word_xor_cancel_left [simp, bytes_simps]: "x XOR (x XOR y) = (y :: 'a::len word)"
  by (simp flip: xor.assoc)

lemma xor_bytes_cancel [simp, bytes_simps]:
  "length xs \<le> length ys \<Longrightarrow> xor_bytes (xor_bytes xs ys) ys = xs"
  by (induction xs ys rule: list_induct2') simp_all

lemma xor_bytes_append [bytes_simps]:
  "length xs = length ks \<Longrightarrow> xor_bytes (xs @ ys) (ks @ ls) = xor_bytes xs ks @ xor_bytes ys ls"
  by (simp add: xor_bytes_def)

lemma xor_bytes_take [bytes_simps]: "xor_bytes (take n xs) ys = take n (xor_bytes xs ys)"
  by (rule nth_equalityI) (auto simp: xor_bytes_def)

lemma xor_bytes_zero [simp, bytes_simps]: "length xs \<le> n \<Longrightarrow> xor_bytes xs (replicate n 0) = xs"
proof (induction xs arbitrary: n)
  case (Cons x xs)
  then show ?case by (cases n) simp_all
qed simp

lemma xor_bytes_right_commute: "xor_bytes (xor_bytes xs ys) zs = xor_bytes (xor_bytes xs zs) ys"
proof (induction xs arbitrary: ys zs)
  case (Cons x xs)
  then show ?case by (cases ys; cases zs) (simp_all add: xor.assoc xor.commute xor.left_commute)
qed simp

lemma xor_bytes_commute: "xor_bytes xs ys = xor_bytes ys xs"
  by (induction xs ys rule: list_induct2') (simp_all add: xor.commute)

text \<open>
  The driver's XOR loops read \<^verbatim>\<open>src[i]\<close> and write \<^verbatim>\<open>dst[i]\<close> byte by byte, and
  source and destination may be the same buffer at different offsets
  (\<^verbatim>\<open>RTMPSoftDecryptWEP\<close>, \<^verbatim>\<open>RTMPSoftDecryptCCMP\<close>). \<open>xor_copy mem src dst ks\<close> is such
  a loop over one memory, reading each source byte at the moment the loop does.
\<close>

fun xor_copy :: "bytes \<Rightarrow> nat \<Rightarrow> nat \<Rightarrow> bytes \<Rightarrow> bytes" where
  "xor_copy mem src dst [] = mem"
| "xor_copy mem src dst (k # ks) =
     xor_copy (mem[dst := (mem ! src) XOR k]) (Suc src) (Suc dst) ks"

lemma length_xor_copy [simp, buf_simps]: "length (xor_copy mem src dst ks) = length mem"
  by (induction mem src dst ks rule: xor_copy.induct) simp_all

lemma xor_copy_append:
  "xor_copy mem src dst (ks @ ks') = xor_copy (xor_copy mem src dst ks) (src + length ks) (dst + length ks) ks'"
  by (induction mem src dst ks rule: xor_copy.induct) simp_all

text \<open>
  Overlap is harmless as long as the destination does not lie ahead of the source:
  every byte is read before the loop can have overwritten it.
\<close>

lemma xor_copy_write_at:
  assumes "dst \<le> src \<or> src + length ks \<le> dst"
    and "src + length ks \<le> length mem" and "dst + length ks \<le> length mem"
  shows "xor_copy mem src dst ks = write_at mem dst (xor_bytes (read_at src (length ks) mem) ks)"
  using assms
proof (induction mem src dst ks rule: xor_copy.induct)
  case (1 mem src dst)
  then show ?case by simp
next
  case (2 mem src dst k ks)
  let ?v = "(mem ! src) XOR k"
  let ?m = "mem[dst := ?v]"
  have IH: "xor_copy ?m (Suc src) (Suc dst) ks =
      write_at ?m (Suc dst) (xor_bytes (read_at (Suc src) (length ks) ?m) ks)"
    using "2.prems" by (intro "2.IH") auto
  have sl: "read_at (Suc src) (length ks) ?m = read_at (Suc src) (length ks) mem"
    using "2.prems" by (intro nth_equalityI) (auto simp: nth_read_at nth_list_update)
  have hd: "read_at src (length (k # ks)) mem = mem ! src # read_at (Suc src) (length ks) mem"
    using "2.prems" by (simp add: read_at_def Cons_nth_drop_Suc [symmetric])
  have "write_at ?m (Suc dst) ys = write_at mem dst (?v # ys)" for ys
    using "2.prems" by (simp add: write_at_def upd_conv_take_nth_drop ac_simps)
  then show ?case using IH sl hd by simp
qed

section \<open>Endianness\<close>

text \<open>
  A 32-bit load from a byte array followed by \<^verbatim>\<open>cpu2be32\<close> (\<^verbatim>\<open>include/rtmp_comm.h\<close>)
  reads the four bytes most significant first on either host endianness, and
  \<^verbatim>\<open>cpu2le32\<close> least significant first; the stores are the inverses.
\<close>

definition load_be32 :: "bytes \<Rightarrow> u32" where
  "load_be32 b = push_bit 24 (ucast (b ! 0)) OR push_bit 16 (ucast (b ! 1))
     OR push_bit 8 (ucast (b ! 2)) OR ucast (b ! 3)"

definition store_be32 :: "u32 \<Rightarrow> bytes" where
  "store_be32 w = [ucast (drop_bit 24 w), ucast (drop_bit 16 w), ucast (drop_bit 8 w), ucast w]"

definition load_le32 :: "bytes \<Rightarrow> u32" where
  "load_le32 b = push_bit 24 (ucast (b ! 3)) OR push_bit 16 (ucast (b ! 2))
     OR push_bit 8 (ucast (b ! 1)) OR ucast (b ! 0)"

definition store_le32 :: "u32 \<Rightarrow> bytes" where
  "store_le32 w = [ucast w, ucast (drop_bit 8 w), ucast (drop_bit 16 w), ucast (drop_bit 24 w)]"

definition store_be64 :: "u64 \<Rightarrow> bytes" where
  "store_be64 w = map (\<lambda>i. ucast (drop_bit (8 * i) w)) [7, 6, 5, 4, 3, 2, 1, 0]"

definition store_le64 :: "u64 \<Rightarrow> bytes" where
  "store_le64 w = map (\<lambda>i. ucast (drop_bit (8 * i) w)) [0, 1, 2, 3, 4, 5, 6, 7]"

lemma length_stores [simp, bytes_simps]:
  "length (store_be32 w) = 4" "length (store_le32 w) = 4"
  "length (store_be64 v) = 8" "length (store_le64 v) = 8"
  by (simp_all add: store_be32_def store_le32_def store_be64_def store_le64_def)

lemma bit_u8_ge: "8 \<le> n \<Longrightarrow> \<not> bit (b :: u8) n"
  by (auto dest: bit_imp_le_length)

lemma bit_u32_ge: "32 \<le> n \<Longrightarrow> \<not> bit (x :: u32) n"
  using bit_imp_le_length [of x n] by auto

lemma byte_of_bit_cases:
  fixes n :: nat
  assumes "n < 32"
  obtains "n < 8" | k where "n = 8 + k" "k < 8" | k where "n = 16 + k" "k < 8" | k where "n = 24 + k" "k < 8"
proof -
  consider "n < 8" | "8 \<le> n \<and> n < 16" | "16 \<le> n \<and> n < 24" | "24 \<le> n"
    by linarith
  then show thesis
  proof cases
    case 1 then show thesis by (rule that(1))
  next
    case 2 then show thesis using that(2) [of "n - 8"] by auto
  next
    case 3 then show thesis using that(3) [of "n - 16"] by auto
  next
    case 4 then show thesis using that(4) [of "n - 24"] assms by auto
  qed
qed

lemma load_store_be32 [simp, bytes_simps]: "load_be32 (store_be32 w) = w"
proof (rule bit_word_eqI)
  fix n assume "n < LENGTH(32)"
  then have "n < 32" by simp
  then show "bit (load_be32 (store_be32 w)) n = bit w n"
    by (cases rule: byte_of_bit_cases)
       (auto simp: load_be32_def store_be32_def bit_simps dest: bit_imp_le_length)
qed

lemma load_store_le32 [simp, bytes_simps]: "load_le32 (store_le32 w) = w"
proof (rule bit_word_eqI)
  fix n assume "n < LENGTH(32)"
  then have "n < 32" by simp
  then show "bit (load_le32 (store_le32 w)) n = bit w n"
    by (cases rule: byte_of_bit_cases)
       (auto simp: load_le32_def store_le32_def bit_simps dest: bit_imp_le_length)
qed

lemma length_4_cases:
  assumes "length b = 4"
  obtains b0 b1 b2 b3 where "b = [b0, b1, b2, b3]"
  using assms by (auto simp: numeral_eq_Suc length_Suc_conv)

lemma store_load_le32 [simp, bytes_simps]:
  assumes "length b = 4"
  shows "store_le32 (load_le32 b) = b"
proof -
  obtain b0 b1 b2 b3 where b: "b = [b0, b1, b2, b3]" using assms by (rule length_4_cases)
  show ?thesis unfolding b load_le32_def store_le32_def
    by (auto intro!: bit_word_eqI simp: bit_simps bit_u8_ge)
qed

text \<open>\<open>chunks n xs\<close> splits a buffer into consecutive pieces of \<open>n\<close> bytes (the last may be shorter).\<close>

function chunks :: "nat \<Rightarrow> 'a list \<Rightarrow> 'a list list" where
  "chunks n xs = (if n = 0 \<or> xs = [] then [] else take n xs # chunks n (drop n xs))"
  by pat_completeness auto
termination
  by (relation "measure (\<lambda>(n, xs). length xs)") auto

declare chunks.simps [simp del]

lemma chunks_Nil [simp]: "chunks n [] = []"
  by (simp add: chunks.simps)

lemma chunks_step: "0 < n \<Longrightarrow> length xs = n \<Longrightarrow> chunks n (xs @ ys) = xs # chunks n ys"
  by (subst chunks.simps) auto

lemma concat_chunks: "0 < n \<Longrightarrow> concat (chunks n xs) = xs"
proof (induction n xs rule: chunks.induct)
  case (1 n xs)
  then show ?case by (subst chunks.simps) (auto simp: append_take_drop_id)
qed

lemma length_in_chunks: "n dvd length xs \<Longrightarrow> b \<in> set (chunks n xs) \<Longrightarrow> length b = n"
proof (induction n xs rule: chunks.induct)
  case (1 n xs)
  show ?case
  proof (cases "n = 0 \<or> xs = []")
    case True
    with 1 show ?thesis by (subst (asm) (2) chunks.simps) simp
  next
    case False
    with "1.prems"(1) have le: "n \<le> length xs" by (simp add: dvd_imp_le)
    with "1.prems"(1) have "n dvd length (drop n xs)" by simp
    with False 1 le show ?thesis by (subst (asm) (2) chunks.simps) auto
  qed
qed

section \<open>Byte order conversions and rotations\<close>

text \<open>
  The host is little endian: a \<^verbatim>\<open>UINT32\<close> in memory is \<^const>\<open>store_le32\<close>, \<^verbatim>\<open>cpu2be32\<close> and
  \<^verbatim>\<open>cpu2be64\<close> swap the bytes, \<^verbatim>\<open>cpu2le32\<close> and \<^verbatim>\<open>cpu2le64\<close> do nothing.
\<close>

definition SWAP32 :: "u32 \<Rightarrow> u32" where
  "SWAP32 x = push_bit 24 (x AND 0x000000ff) OR push_bit 8 (x AND 0x0000ff00)
     OR drop_bit 8 (x AND 0x00ff0000) OR drop_bit 24 (x AND 0xff000000)"

definition cpu2be32 :: "u32 \<Rightarrow> u32" where
  "cpu2be32 x = SWAP32 x"

lemma byte_masks:
  "(0x000000ff :: u32) = mask 8" "(0x0000ff00 :: u32) = push_bit 8 (mask 8)"
  "(0x00ff0000 :: u32) = push_bit 16 (mask 8)" "(0xff000000 :: u32) = push_bit 24 (mask 8)"
  by (simp_all add: mask_eq_exp_minus_1 push_bit_eq_mult)

lemma bit_SWAP32:
  "bit (SWAP32 x) n \<longleftrightarrow> n < 32 \<and> bit x (if n < 8 then 24 + n else if n < 16 then 8 + n else if n < 24 then n - 8 else n - 24)"
  using bit_u32_ge [of _ x]
  unfolding SWAP32_def byte_masks by (auto simp: bit_simps)

lemma cpu2be32_load_store: "cpu2be32 x = load_be32 (store_le32 x)"
proof (rule bit_word_eqI)
  fix n assume "n < LENGTH(32)"
  then have "n < 32" by simp
  then show "bit (cpu2be32 x) n = bit (load_be32 (store_le32 x)) n"
    unfolding cpu2be32_def bit_SWAP32
    by (cases rule: byte_of_bit_cases)
       (auto simp: load_be32_def store_le32_def bit_simps bit_u8_ge)
qed

lemma store_load_be32 [simp, bytes_simps]:
  assumes "length b = 4"
  shows "store_be32 (load_be32 b) = b"
proof -
  obtain a0 a1 a2 a3 where b: "b = [a0, a1, a2, a3]" using assms by (rule length_4_cases)
  have "load_be32 b = load_le32 [a3, a2, a1, a0]" "store_be32 w = rev (store_le32 w)" for w
    by (simp_all add: b load_be32_def load_le32_def store_be32_def store_le32_def)
  then show ?thesis by (simp add: b)
qed

lemma store_le32_cpu2be32 [simp]: "store_le32 (cpu2be32 x) = store_be32 x"
proof -
  have "cpu2be32 x = load_le32 (store_be32 x)"
    by (simp add: cpu2be32_load_store load_be32_def load_le32_def store_be32_def store_le32_def)
  then show ?thesis by simp
qed

lemma cpu2be32_load_le32: "length b = 4 \<Longrightarrow> cpu2be32 (load_le32 b) = load_be32 b"
  by (simp add: cpu2be32_load_store)

definition ROTL32 :: "u32 \<Rightarrow> nat \<Rightarrow> u32" where
  "ROTL32 x n = push_bit n x OR drop_bit (32 - n) x"

definition ROTR32 :: "u32 \<Rightarrow> nat \<Rightarrow> u32" where
  "ROTR32 x n = drop_bit n x OR push_bit (32 - n) x"

text \<open>The shift expressions of the sources are rotations for every count they use.\<close>

lemma ROTL32_rotl: "n < 32 \<Longrightarrow> ROTL32 x n = word_rotl n x"
proof (rule bit_word_eqI)
  fix k assume n: "n < 32" and "k < LENGTH(32)"
  then have k: "k < 32" by simp
  obtain m where m: "32 = n + m" using n less_imp_add_positive by metis
  then have [simp]: "32 - n = m" by simp
  have "(n \<le> k \<and> bit x (k - n) \<or> bit x (m + k)) = bit x ((k + m) mod 32)"
  proof (cases "k < n")
    case True
    then show ?thesis using k m by (simp add: add.commute)
  next
    case False
    then have "(k + m) mod 32 = k - n" using k m by (simp add: mod_if) arith
    then show ?thesis using False k m by (simp add: bit_u32_ge)
  qed
  then show "bit (ROTL32 x n) k = bit (word_rotl n x) k"
    using n k by (simp add: ROTL32_def bit_push_bit_iff bit_or_iff bit_drop_bit_eq bit_word_rotl_iff)
qed

lemma ROTR32_rotr: "n < 32 \<Longrightarrow> ROTR32 x n = word_rotr n x"
proof (rule bit_word_eqI)
  fix k assume n: "n < 32" and "k < LENGTH(32)"
  then have k: "k < 32" by simp
  obtain m where m: "32 = n + m" using n less_imp_add_positive by metis
  then have [simp]: "32 - n = m" by simp
  have "(bit x (n + k) \<or> m \<le> k \<and> bit x (k - m)) = bit x ((k + n) mod 32)"
  proof (cases "k < m")
    case True
    then show ?thesis using k m by (simp add: add.commute)
  next
    case False
    then have "(k + n) mod 32 = k - m" using k m by (simp add: mod_if) arith
    then show ?thesis using False k m by (simp add: bit_u32_ge)
  qed
  then show "bit (ROTR32 x n) k = bit (word_rotr n x) k"
    using n k by (simp add: ROTR32_def bit_push_bit_iff bit_or_iff bit_drop_bit_eq bit_word_rotr_iff)
qed

section \<open>Memory allocation\<close>

text \<open>
  \<^verbatim>\<open>os_alloc_mem\<close> is the kernel's: whether the \<open>n\<close>-th allocation of a call succeeds is a
  parameter \<open>al\<close> of the operations that allocate. \<open>alloc_ok\<close> is the hypothesis that memory
  is available.
\<close>

definition alloc_ok :: "(nat \<Rightarrow> bool) \<Rightarrow> bool" where
  "alloc_ok al \<longleftrightarrow> (\<forall>n. al n)"

lemma alloc_okD [simp]: "alloc_ok al \<Longrightarrow> al n"
  by (simp add: alloc_ok_def)

lemma alloc_ok_True [simp]: "alloc_ok (\<lambda>n. True)"
  by (simp add: alloc_ok_def)

section \<open>Loops\<close>

text \<open>A loop on a detailed state follows a loop on its abstraction as long as an invariant holds.\<close>

lemma fold_simulation:
  assumes "\<And>x s. x \<in> set xs \<Longrightarrow> Q s \<Longrightarrow> Q (f x s) \<and> proj (f x s) = g x (proj s)" and "Q s"
  shows "Q (fold f xs s) \<and> proj (fold f xs s) = fold g xs (proj s)"
  using assms by (induction xs arbitrary: s) simp_all

lemma fold_concat_map: "fold f (concat (map h xs)) s = fold (\<lambda>x. fold f (h x)) xs s"
  by (induction xs arbitrary: s) simp_all

lemma fold_invariant_list:
  assumes "\<And>x s. x \<in> set xs \<Longrightarrow> Q s \<Longrightarrow> Q (f x s)" and "Q s"
  shows "Q (fold f xs s)"
  using assms by (induction xs arbitrary: s) simp_all

lemma list_all_concat_blocks:
  assumes "\<forall>b \<in> set R. length b = n" and "i < length R"
  shows "read_at (i * n) n (concat R) = R ! i"
    and "length x = n \<Longrightarrow> write_at (concat R) (i * n) x = concat (R[i := x])"
proof -
  have len: "length (concat R') = length R' * n" if "\<forall>b \<in> set R'. length b = n" for R' :: "'a list list"
    using that by (induction R') simp_all
  have R: "R = take i R @ R ! i # drop (Suc i) R" using assms(2) by (rule id_take_nth_drop)
  then have c: "concat R = concat (take i R) @ R ! i @ concat (drop (Suc i) R)"
    by (metis concat.simps(2) concat_append)
  have l: "length (concat (take i R)) = i * n"
    using assms len [of "take i R"] by (auto dest: in_set_takeD)
  have m: "length (R ! i) = n" using assms by simp
  show "read_at (i * n) n (concat R) = R ! i"
    unfolding c using l m by (simp add: read_at_def)
  assume "length x = n"
  then show "write_at (concat R) (i * n) x = concat (R[i := x])"
    unfolding c upd_conv_take_nth_drop [OF assms(2)] using l m by (simp add: write_at_def)
qed

end
