(* ===== verification/Hash_Core.thy ===== *)
theory Hash_Core
  imports Wlan_Prelude
begin

text \<open>
  What the hash modules \<^verbatim>\<open>common/crypt_sha2.c\<close> and \<^verbatim>\<open>common/crypt_md5.c\<close> share. Their
  context structures have the same fields (\<open>hash_ctx\<close>), and their \<^verbatim>\<open>_Append\<close> and
  \<^verbatim>\<open>_End\<close> functions are the same text up to the block function, the byte order and the
  digest size; \<open>hash_append\<close> and \<open>hash_end\<close> are that text.

  The interface locale \<open>block_hash\<close> assumes only how a \<^verbatim>\<open>_Hash\<close> function updates the
  context. Inside it the incremental computation is proved equal to the padded
  Merkle-Damgard iteration \<open>md_digest\<close>. It is interpreted by SHA1, SHA256 and MD5.
\<close>

section \<open>Data\<close>

record hash_ctx =
  HashValue :: "u32 list"
  MessageLen :: u64
  Block :: bytes
  BlockLen :: u32

abbreviation HASH_BLOCK_SIZE :: nat where
  "HASH_BLOCK_SIZE \<equiv> 64"

section \<open>Operations\<close>

text \<open>
  The words of a block as the \<^verbatim>\<open>_Hash\<close> functions load them: a copy of the memory into
  an array of \<^verbatim>\<open>UINT32\<close>, then the byte order conversion of each word.
\<close>

definition block_words :: "(u32 \<Rightarrow> u32) \<Rightarrow> bytes \<Rightarrow> u32 list" where
  "block_words cpu2 b = map (\<lambda>i. cpu2 (load_le32 (read_at (4 * i) 4 b))) [0..<16]"

text \<open>
  The loop of the \<^verbatim>\<open>_Append\<close> functions. The comparison is on \<^verbatim>\<open>UINT\<close> and wraps; \<open>None\<close> is a
  copy that leaves the block buffer. The loop variable never passes \<open>MsgLen\<close>.
\<close>

partial_function (option) append_loop ::
    "(hash_ctx \<Rightarrow> hash_ctx) \<Rightarrow> bytes \<Rightarrow> u32 \<Rightarrow> u32 \<Rightarrow> hash_ctx \<Rightarrow> hash_ctx option" where
  "append_loop Hash Message MsgLen appendLen ctx =
     (if appendLen = MsgLen then Some ctx
      else let diffLen = MsgLen - appendLen in
        if BlockLen ctx + diffLen < 64 then
          (if unat (BlockLen ctx) + unat diffLen > HASH_BLOCK_SIZE then None
           else append_loop Hash Message MsgLen (appendLen + diffLen)
             (ctx\<lparr>Block := write_at (Block ctx) (unat (BlockLen ctx)) (read_at (unat appendLen) (unat diffLen) Message),
                  BlockLen := BlockLen ctx + diffLen\<rparr>))
        else if BlockLen ctx > 64 then None
        else append_loop Hash Message MsgLen (appendLen + (64 - BlockLen ctx))
          (Hash (ctx\<lparr>Block := write_at (Block ctx) (unat (BlockLen ctx))
                       (read_at (unat appendLen) (HASH_BLOCK_SIZE - unat (BlockLen ctx)) Message),
                     BlockLen := 64\<rparr>)))"

declare append_loop.simps [code]

definition hash_append :: "(hash_ctx \<Rightarrow> hash_ctx) \<Rightarrow> hash_ctx \<Rightarrow> bytes \<Rightarrow> u32 \<Rightarrow> hash_ctx option" where
  "hash_append Hash ctx Message MsgLen =
     map_option (\<lambda>ctx'. ctx'\<lparr>MessageLen := MessageLen ctx' + ucast MsgLen\<rparr>)
       (append_loop Hash Message MsgLen 0 ctx)"

text \<open>
  The \<^verbatim>\<open>_End\<close> functions: \<open>lenc\<close> is the memory image of the bit length and \<open>cpu2\<close> the
  conversion of the hash words. \<open>None\<close> is the store of the padding byte behind the block.
\<close>

definition hash_end :: "(hash_ctx \<Rightarrow> hash_ctx) \<Rightarrow> (u64 \<Rightarrow> bytes) \<Rightarrow> (u32 \<Rightarrow> u32) \<Rightarrow> hash_ctx \<Rightarrow> (hash_ctx \<times> bytes) option" where
  "hash_end Hash lenc cpu2 ctx =
     (if BlockLen ctx \<ge> 64 then None
      else let ctx1 = ctx\<lparr>Block := (Block ctx)[unat (BlockLen ctx) := 0x80]\<rparr>;
               ctx2 = (if BlockLen ctx1 > 55 then Hash ctx1 else ctx1);
               message_length_bits = MessageLen ctx2 * 8;
               ctx3 = Hash (ctx2\<lparr>Block := write_at (Block ctx2) 56 (lenc message_length_bits)\<rparr>);
               ctx4 = ctx3\<lparr>HashValue := map cpu2 (HashValue ctx3)\<rparr>
           in Some (ctx4, concat (map store_le32 (HashValue ctx4))))"

text \<open>A sequence of \<^verbatim>\<open>_Append\<close> calls, each with a whole buffer.\<close>

fun hash_appends :: "(hash_ctx \<Rightarrow> hash_ctx) \<Rightarrow> hash_ctx \<Rightarrow> bytes list \<Rightarrow> hash_ctx option" where
  "hash_appends Hash ctx [] = Some ctx"
| "hash_appends Hash ctx (m # ms) =
     (case hash_append Hash ctx m (of_nat (length m)) of None \<Rightarrow> None
      | Some ctx' \<Rightarrow> hash_appends Hash ctx' ms)"

text \<open>The loaded words are the words of the block in the byte order of the conversion.\<close>

lemma nth_chunks:
  "0 < n \<Longrightarrow> n * k = length xs \<Longrightarrow> i < k \<Longrightarrow> chunks n xs ! i = read_at (n * i) n xs"
proof (induction i arbitrary: xs k)
  case 0
  then have "xs \<noteq> []" by auto
  then show ?case using 0 by (subst chunks.simps) (simp add: read_at_def)
next
  case (Suc i)
  then have "xs \<noteq> []" by auto
  then show ?case
    using Suc.IH [of "k - 1" "drop n xs"] Suc.prems
    by (subst chunks.simps) (simp add: read_at_def diff_mult_distrib2 add.commute)
qed

lemma length_chunks: "0 < n \<Longrightarrow> length xs = n * k \<Longrightarrow> length (chunks n xs) = k"
proof (induction k arbitrary: xs)
  case (Suc k)
  then have "xs \<noteq> []" by auto
  then show ?case using Suc by (subst chunks.simps) simp
qed simp

lemma fold_upt_Suc: "m \<le> n \<Longrightarrow> fold f [m..<Suc n] s = f n (fold f [m..<n] s)"
  by simp

lemma fold_upt_split: "i \<le> j \<Longrightarrow> j \<le> k \<Longrightarrow> fold f [i..<k] s = fold f [j..<k] (fold f [i..<j] s)"
  using upt_add_eq_append [of i j "k - j"] by simp

lemma block_words_chunks:
  assumes "length b = 64" and "\<And>w. length w = 4 \<Longrightarrow> cpu2 (load_le32 w) = load w"
  shows "block_words cpu2 b = map load (chunks 4 b)"
  using assms
  by (auto simp: block_words_def list_eq_iff_nth_eq length_chunks [of 4 b 16] nth_chunks [of 4 16 b] read_at_def)

section \<open>Reference: padded Merkle-Damgard iteration\<close>

definition md_pad :: "(u64 \<Rightarrow> bytes) \<Rightarrow> bytes \<Rightarrow> bytes" where
  "md_pad lenc m = m @ [0x80] @ replicate ((119 - length m mod 64) mod 64) 0 @ lenc (of_nat (8 * length m))"

definition md_digest ::
    "(u32 list \<Rightarrow> bytes \<Rightarrow> u32 list) \<Rightarrow> (u64 \<Rightarrow> bytes) \<Rightarrow> (u32 \<Rightarrow> bytes) \<Rightarrow> u32 list \<Rightarrow> bytes \<Rightarrow> bytes" where
  "md_digest compress lenc outw H0 m =
     concat (map outw (foldl compress H0 (chunks 64 (md_pad lenc m))))"

text \<open>The iteration on the full blocks of a message, with the bytes left over.\<close>

function md_fold :: "('h \<Rightarrow> bytes \<Rightarrow> 'h) \<Rightarrow> 'h \<Rightarrow> bytes \<Rightarrow> 'h \<times> bytes" where
  "md_fold f h m = (if length m < 64 then (h, m) else md_fold f (f h (take 64 m)) (drop 64 m))"
  by pat_completeness auto
termination
  by (relation "measure (\<lambda>(f, h, m). length m)") auto

declare md_fold.simps [simp del]

lemma md_fold_short: "length m < 64 \<Longrightarrow> md_fold f h m = (h, m)"
  by (simp add: md_fold.simps)

lemma md_fold_long: "64 \<le> length m \<Longrightarrow> md_fold f h m = md_fold f (f h (take 64 m)) (drop 64 m)"
  by (subst md_fold.simps) simp

lemma md_fold_block: "length b = 64 \<Longrightarrow> md_fold f h (b @ m) = md_fold f (f h b) m"
  by (subst md_fold.simps) simp

lemma md_fold_append:
  "md_fold f h (a @ b) = md_fold f (fst (md_fold f h a)) (snd (md_fold f h a) @ b)"
proof (induction f h a rule: md_fold.induct)
  case (1 f h m)
  show ?case
  proof (cases "length m < 64")
    case True
    then show ?thesis by (simp add: md_fold_short)
  next
    case False
    then show ?thesis
      using 1 by (simp add: md_fold_long [of "m @ b"] md_fold_long [of m])
  qed
qed

lemma length_snd_md_fold: "length (snd (md_fold f h m)) = length m mod 64"
proof (induction f h m rule: md_fold.induct)
  case (1 f h m)
  then show ?case
    by (cases "length m < 64") (simp_all add: md_fold.simps [of f h m] le_mod_geq)
qed

lemma md_fold_chunks:
  "length m mod 64 = 0 \<Longrightarrow> md_fold f h m = (foldl f h (chunks 64 m), [])"
proof (induction f h m rule: md_fold.induct)
  case (1 f h m)
  show ?case
  proof (cases "length m < 64")
    case True
    then show ?thesis using "1.prems" by (simp add: md_fold_short)
  next
    case False
    then have "chunks 64 m = take 64 m # chunks 64 (drop 64 m)"
      by (subst chunks.simps) auto
    then show ?thesis
      using False 1 by (subst md_fold.simps) (simp add: le_mod_geq)
  qed
qed

section \<open>The hash interface\<close>

definition buffered :: "u32 list \<Rightarrow> bytes \<Rightarrow> hash_ctx \<Rightarrow> bool" where
  "buffered h r ctx \<longleftrightarrow> length r < 64 \<and> HashValue ctx = h \<and> BlockLen ctx = of_nat (length r) \<and>
     Block ctx = r @ replicate (64 - length r) 0"

text \<open>The context after \<open>Init\<close> and any sequence of \<open>Append\<close> calls with the bytes \<open>m\<close>.\<close>

definition hashed :: "(u32 list \<Rightarrow> bytes \<Rightarrow> u32 list) \<Rightarrow> u32 list \<Rightarrow> bytes \<Rightarrow> hash_ctx \<Rightarrow> bool" where
  "hashed compress H0 m ctx \<longleftrightarrow>
     buffered (fst (md_fold compress H0 m)) (snd (md_fold compress H0 m)) ctx \<and>
     MessageLen ctx = of_nat (length m)"

lemma md_pad_fold:
  assumes "md_fold f h m = (h', r)" and "\<And>x. length (lenc x) = 8"
  shows "foldl f h (chunks 64 (md_pad lenc m)) =
    (if length r \<le> 55 then f h' (r @ [0x80] @ replicate (55 - length r) 0 @ lenc (of_nat (8 * length m)))
     else f (f h' (r @ [0x80] @ replicate (63 - length r) 0)) (replicate 56 0 @ lenc (of_nat (8 * length m))))"
    (is "_ = ?H")
proof -
  let ?L = "lenc (of_nat (8 * length m))"
  have r: "length m mod 64 = length r" using length_snd_md_fold [of f h m] assms(1) by simp
  then have r64: "length r < 64" by presburger
  have fold: "md_fold f h (md_pad lenc m) = md_fold f h' (r @ [0x80] @ replicate ((119 - length r) mod 64) 0 @ ?L)"
    using assms(1) by (simp add: md_pad_def md_fold_append [of f h m] r)
  have "md_fold f h (md_pad lenc m) = (?H, [])"
  proof (cases "length r \<le> 55")
    case True
    then have "(119 - length r) mod 64 = 55 - length r" by (simp add: le_mod_geq)
    then show ?thesis
      using True assms(2) md_fold_block [of "r @ [0x80] @ replicate (55 - length r) 0 @ ?L" f h' "[]"]
      by (simp add: fold md_fold_short)
  next
    case False
    have z: "(119 - length r) mod 64 = (63 - length r) + 56" using False r64 by simp
    show ?thesis
      unfolding fold z replicate_add
      using False r64 assms(2) md_fold_block [of "r @ [0x80] @ replicate (63 - length r) 0" f h' "replicate 56 0 @ ?L"]
        md_fold_block [of "replicate 56 0 @ ?L" f "f h' (r @ [0x80] @ replicate (63 - length r) 0)" "[]"]
      by (simp add: md_fold_short)
  qed
  then show ?thesis
    using length_snd_md_fold [of f h "md_pad lenc m"] md_fold_chunks [of "md_pad lenc m" f h] by simp
qed

lemma write_at_buffer:
  "write_at (r @ replicate n 0) (length r) xs = r @ xs @ replicate (n - length xs) 0"
  by (simp add: write_at_def)

locale block_hash =
  fixes Hash :: "hash_ctx \<Rightarrow> hash_ctx"
    and compress :: "u32 list \<Rightarrow> bytes \<Rightarrow> u32 list"
  assumes Hash_compress: "length (Block c) = 64 \<Longrightarrow>
    Hash c = c\<lparr>HashValue := compress (HashValue c) (Block c), Block := replicate 64 0, BlockLen := 0\<rparr>"
begin

text \<open>One pass of the loop that fills and hashes a block.\<close>

lemma Hash_full:
  assumes "buffered h r ctx" and "length r + length xs = 64"
  shows "buffered (compress h (r @ xs)) [] (Hash (ctx\<lparr>Block := write_at (Block ctx) (length r) xs, BlockLen := 64\<rparr>))"
  using assms by (simp add: buffered_def Hash_compress write_at_buffer)

lemma append_loop_buffered:
  assumes "buffered h r ctx" and "length Message = unat MsgLen" and "unat MsgLen + 64 \<le> 2 ^ 32"
    and "unat a \<le> unat MsgLen"
  shows "\<exists>ctx'. append_loop Hash Message MsgLen a ctx = Some ctx' \<and> MessageLen ctx' = MessageLen ctx \<and>
    buffered (fst (md_fold compress h (r @ drop (unat a) Message)))
             (snd (md_fold compress h (r @ drop (unat a) Message))) ctx'"
  using assms
proof (induction "unat MsgLen - unat a" arbitrary: h r ctx a rule: less_induct)
  case less
  let ?rest = "drop (unat a) Message"
  have B: "length r < 64" "unat (BlockLen ctx) = length r" "Block ctx = r @ replicate (64 - length r) 0"
    using less.prems(1) by (simp_all add: buffered_def unat_of_nat)
  have d: "unat (MsgLen - a) = length ?rest"
    using less.prems by (simp add: unat_sub word_le_nat_alt)
  have s: "unat (BlockLen ctx + (MsgLen - a)) = length r + length ?rest"
    using less.prems B d by (subst unat_add_lem [THEN iffD1]) simp_all
  show ?case
  proof (cases "a = MsgLen")
    case True
    then show ?thesis using less.prems B by (simp add: append_loop.simps md_fold_short)
  next
    case ne: False
    show ?thesis
    proof (cases "length r + length ?rest < 64")
      case True
      let ?c = "ctx\<lparr>Block := write_at (Block ctx) (length r) (read_at (unat a) (length ?rest) Message),
                    BlockLen := BlockLen ctx + (MsgLen - a)\<rparr>"
      have "append_loop Hash Message MsgLen a ctx = Some ?c"
        using ne True s d B
        by (subst append_loop.simps) (simp add: Let_def word_less_nat_alt append_loop.simps [of _ _ _ MsgLen])
      moreover have "buffered h (r @ ?rest) ?c"
        using True less.prems(1) arg_cong [OF s, of "of_nat :: nat \<Rightarrow> u32"]
        by (simp add: buffered_def B write_at_buffer read_at_def)
      ultimately show ?thesis using True by (simp add: md_fold_short)
    next
      case False
      let ?k = "64 - length r" and ?a = "a + (64 - BlockLen ctx)"
      let ?c = "Hash (ctx\<lparr>Block := write_at (Block ctx) (length r) (read_at (unat a) ?k Message), BlockLen := 64\<rparr>)"
      have k: "unat (64 - BlockLen ctx) = ?k"
        using B by (simp add: unat_sub word_le_nat_alt)
      have a: "unat ?a = unat a + ?k"
        using less.prems False B k by (subst unat_add_lem [THEN iffD1]) simp_all
      have step: "append_loop Hash Message MsgLen a ctx = append_loop Hash Message MsgLen ?a ?c"
      proof -
        have "\<not> BlockLen ctx + (MsgLen - a) < 64"
          unfolding word_less_nat_alt s using False by simp
        moreover have "\<not> BlockLen ctx > 64" using B by (simp add: word_less_nat_alt)
        ultimately show ?thesis using ne by (subst append_loop.simps) (simp add: Let_def B(2))
      qed
      have buf: "buffered (compress h (r @ take ?k ?rest)) [] ?c"
        using Hash_full [OF less.prems(1), of "take ?k ?rest"] False B(1) by (simp add: read_at_def)
      have fold: "md_fold compress h (r @ ?rest) = md_fold compress (compress h (r @ take ?k ?rest)) (drop (unat ?a) Message)"
      proof -
        have "md_fold compress h (r @ ?rest) = md_fold compress h ((r @ take ?k ?rest) @ drop ?k ?rest)"
          by (simp only: append_assoc append_take_drop_id)
        also have "\<dots> = md_fold compress (compress h (r @ take ?k ?rest)) (drop ?k ?rest)"
          by (rule md_fold_block) (use False B(1) in simp)
        finally show ?thesis by (simp add: a add.commute)
      qed
      have "MessageLen ?c = MessageLen ctx"
        using False B by (simp add: Hash_compress write_at_buffer read_at_def)
      then show ?thesis
        unfolding step fold
        using less.hyps [OF _ buf less.prems(2,3), of ?a] a False B(1) less.prems by simp
    qed
  qed
qed

lemma append_hashed:
  assumes "hashed compress H0 m ctx" and "length Message = unat MsgLen" and "unat MsgLen + 64 \<le> 2 ^ 32"
  shows "\<exists>ctx'. hash_append Hash ctx Message MsgLen = Some ctx' \<and> hashed compress H0 (m @ Message) ctx'"
proof -
  obtain h r where f: "md_fold compress H0 m = (h, r)" by fastforce
  then have b: "buffered h r ctx" and l: "MessageLen ctx = of_nat (length m)"
    using assms(1) by (simp_all add: hashed_def)
  have "(ucast MsgLen :: u64) = of_nat (length Message)"
    using assms(2) by simp
  then show ?thesis
    using append_loop_buffered [OF b assms(2,3), of 0] l
    by (auto simp: hash_append_def hashed_def md_fold_append [of _ _ m] f buffered_def)
qed

lemma appends_hashed:
  assumes "hashed compress H0 m ctx" and "\<forall>x \<in> set ms. length x + 64 \<le> 2 ^ 32"
  shows "\<exists>ctx'. hash_appends Hash ctx ms = Some ctx' \<and> hashed compress H0 (m @ concat ms) ctx'"
  using assms
proof (induction ms arbitrary: m ctx)
  case Nil
  then show ?case by simp
next
  case (Cons x ms)
  have "unat (of_nat (length x) :: u32) = length x"
    using Cons.prems(2) by (simp add: unat_of_nat)
  then obtain ctx' where "hash_append Hash ctx x (of_nat (length x)) = Some ctx'" "hashed compress H0 (m @ x) ctx'"
    using append_hashed [OF Cons.prems(1), of x "of_nat (length x)"] Cons.prems(2) by auto
  then show ?case using Cons.IH [of "m @ x" ctx'] Cons.prems(2) by simp
qed

lemma end_digest:
  assumes "hashed compress H0 m ctx" and "\<And>x. length (lenc x) = 8"
  shows "map_option snd (hash_end Hash lenc cpu2 ctx) =
    Some (md_digest compress lenc (\<lambda>w. store_le32 (cpu2 w)) H0 m)"
proof -
  obtain h r where f: "md_fold compress H0 m = (h, r)" by fastforce
  have b: "length r < 64" "HashValue ctx = h" "unat (BlockLen ctx) = length r"
      "Block ctx = r @ replicate (64 - length r) 0" "MessageLen ctx * 8 = of_nat (8 * length m)"
    using assms(1) by (simp_all add: hashed_def f buffered_def unat_of_nat mult.commute)
  have B1: "(Block ctx)[length r := 0x80] = r @ [0x80] @ replicate (63 - length r) 0"
  proof -
    have "64 - length r = Suc (63 - length r)" using b(1) by simp
    then show ?thesis by (simp add: b(4) list_update_append)
  qed
  have le: "BlockLen ctx \<ge> 64 \<longleftrightarrow> False" "BlockLen ctx > 55 \<longleftrightarrow> \<not> length r \<le> 55"
    using b(1) by (auto simp: word_le_nat_alt word_less_nat_alt b(3))
  show ?thesis
  proof (cases "length r \<le> 55")
    case True
    then have "take (56 - length r) (0x80 # replicate (63 - length r) 0) = (0x80 :: u8) # replicate (55 - length r) 0"
      by (simp add: take_Cons')
    with True show ?thesis
      by (simp add: hash_end_def Let_def md_digest_def md_pad_fold [OF f assms(2)] assms(2) le
        b(2,3,5) B1 Hash_compress write_at_def comp_def del: of_nat_mult)
  next
    case False
    then show ?thesis
      using b(1)
      by (simp add: hash_end_def Let_def md_digest_def md_pad_fold [OF f assms(2)] assms(2) le
        b(2,3,5) B1 Hash_compress write_at_def comp_def del: of_nat_mult)
  qed
qed

lemma incremental:
  assumes "hashed compress H0 [] ctx" and "\<And>x. length (lenc x) = 8"
    and "\<forall>x \<in> set ms. length x + 64 \<le> 2 ^ 32"
  shows "(case hash_appends Hash ctx ms of None \<Rightarrow> None | Some c \<Rightarrow> map_option snd (hash_end Hash lenc cpu2 c)) =
    Some (md_digest compress lenc (\<lambda>w. store_le32 (cpu2 w)) H0 (concat ms))"
  using appends_hashed [OF assms(1,3)] end_digest [OF _ assms(2)] by auto

lemma oneshot:
  assumes "hashed compress H0 [] ctx" and "\<And>x. length (lenc x) = 8" and "length m + 64 \<le> 2 ^ 32"
  shows "(case hash_append Hash ctx m (of_nat (length m)) of None \<Rightarrow> None
      | Some c \<Rightarrow> map_option snd (hash_end Hash lenc cpu2 c)) =
    Some (md_digest compress lenc (\<lambda>w. store_le32 (cpu2 w)) H0 m)"
  using incremental [of H0 ctx lenc "[m]" cpu2] assms by (simp split: option.splits)

end

lemma length_md_digest:
  assumes "length H0 = n" and "\<And>h b. length (compress h b) = n" and "\<And>w. length (outw w) = 4"
  shows "length (md_digest compress lenc outw H0 m) = 4 * n"
proof -
  have "length (foldl compress h bs) = n" if "length h = n" for h bs
    using that assms(2) by (induction bs arbitrary: h) auto
  then show ?thesis using assms(1,3) by (simp add: md_digest_def length_concat comp_def sum_list_triv)
qed

text \<open>
  What HMAC relies on in a hash module: the one-call function and the sequence
  \<open>Init\<close>, \<open>Append\<close>, \<open>Append\<close>, \<open>End\<close> both compute the hash \<open>H\<close>, whose size is fixed.
\<close>

locale hash_module =
  fixes Init :: 'c and Append :: "'c \<Rightarrow> bytes \<Rightarrow> u32 \<Rightarrow> 'c option" and End :: "'c \<Rightarrow> ('c \<times> bytes) option"
    and Oneshot :: "bytes \<Rightarrow> u32 \<Rightarrow> bytes option" and H :: "bytes \<Rightarrow> bytes" and digest_size :: nat
  assumes Oneshot_H: "length m + 64 \<le> 2 ^ 32 \<Longrightarrow> Oneshot m (of_nat (length m)) = Some (H m)"
    and Appends_H: "length a + 64 \<le> 2 ^ 32 \<Longrightarrow> length b + 64 \<le> 2 ^ 32 \<Longrightarrow>
      \<exists>c1 c2 c3. Append Init a (of_nat (length a)) = Some c1 \<and> Append c1 b (of_nat (length b)) = Some c2 \<and>
        End c2 = Some (c3, H (a @ b))"
    and length_H: "length (H m) = digest_size"
    and digest_size_le: "digest_size \<le> 64"

context block_hash
begin

lemma hash_module_ops:
  assumes "hashed compress H0 [] ctx" and "\<And>x. length (lenc x) = 8"
    and "length H0 = n" and "\<And>h b. length (compress h b) = n" and "n \<le> 16"
  shows "hash_module ctx (hash_append Hash) (hash_end Hash lenc cpu2)
    (\<lambda>m l. case hash_append Hash ctx m l of None \<Rightarrow> None | Some c \<Rightarrow> map_option snd (hash_end Hash lenc cpu2 c))
    (md_digest compress lenc (\<lambda>w. store_le32 (cpu2 w)) H0) (4 * n)"
proof (unfold_locales, goal_cases)
  case (1 m)
  then show ?case using oneshot [OF assms(1,2)] by simp
next
  case (2 a b)
  then show ?case
    using incremental [of H0 ctx lenc "[a, b]" cpu2] assms(1,2) by (auto split: option.splits)
next
  case (3 m)
  then show ?case using length_md_digest [OF assms(3,4)] by simp
next
  case 4
  then show ?case using assms(5) by simp
qed

end

end
