(* ===== verification/Sha1.thy ===== *)
theory Sha1
  imports Hash_Core
begin

text \<open>
  SHA1, \<^verbatim>\<open>common/crypt_sha2.c\<close>: \<^verbatim>\<open>RT_SHA1_Init\<close>, \<^verbatim>\<open>RT_SHA1_Hash\<close>, \<^verbatim>\<open>RT_SHA1_Append\<close>,
  \<^verbatim>\<open>RT_SHA1_End\<close> and \<^verbatim>\<open>RT_SHA1\<close>. The block function, with its word array filled in place
  and its four loops, is proved equal to the compression function of FIPS 180 written as
  recurrences, which makes it an instance of \<open>block_hash\<close>.
\<close>

section \<open>Operations\<close>

definition Ch :: "u32 \<Rightarrow> u32 \<Rightarrow> u32 \<Rightarrow> u32" where
  "Ch x y z = (x AND y) XOR (NOT x AND z)"

definition Maj :: "u32 \<Rightarrow> u32 \<Rightarrow> u32 \<Rightarrow> u32" where
  "Maj x y z = (x AND y) XOR (x AND z) XOR (y AND z)"

definition Parity :: "u32 \<Rightarrow> u32 \<Rightarrow> u32 \<Rightarrow> u32" where
  "Parity x y z = x XOR y XOR z"

definition SHA1_K :: "u32 list" where
  "SHA1_K = [0x5a827999, 0x6ed9eba1, 0x8f1bbcdc, 0xca62c1d6]"

definition SHA1_DefaultHashValue :: "u32 list" where
  "SHA1_DefaultHashValue = [0x67452301, 0xefcdab89, 0x98badcfe, 0x10325476, 0xc3d2e1f0]"

definition RT_SHA1_Init :: hash_ctx where
  "RT_SHA1_Init = \<lparr>HashValue = SHA1_DefaultHashValue, MessageLen = 0, Block = replicate 64 0, BlockLen = 0\<rparr>"

text \<open>The array \<^verbatim>\<open>W[80]\<close>: 16 loaded words, the others computed in place, each from entries
  filled before it.\<close>

definition sha1_W_step :: "nat \<Rightarrow> u32 list \<Rightarrow> u32 list" where
  "sha1_W_step i W = W[i := ROTL32 (W ! (i - 3) XOR W ! (i - 8) XOR W ! (i - 14) XOR W ! (i - 16)) 1]"

definition sha1_W :: "bytes \<Rightarrow> u32 list" where
  "sha1_W b = fold sha1_W_step [16..<80] (block_words cpu2be32 b @ replicate 64 0)"

text \<open>The body of the four loops; \<open>f\<close> is \<^verbatim>\<open>f_t\<close> and \<open>k\<close> the constant of the loop.\<close>

definition sha1_round ::
    "(u32 \<Rightarrow> u32 \<Rightarrow> u32 \<Rightarrow> u32) \<Rightarrow> u32 \<Rightarrow> u32 list \<Rightarrow> nat \<Rightarrow> u32 \<times> u32 \<times> u32 \<times> u32 \<times> u32 \<Rightarrow> u32 \<times> u32 \<times> u32 \<times> u32 \<times> u32" where
  "sha1_round f k W t s = (case s of (a, b, c, d, e) \<Rightarrow>
     (ROTL32 a 5 + f b c d + e + k + W ! t, a, ROTL32 b 30, c, d))"

definition RT_SHA1_Hash :: "hash_ctx \<Rightarrow> hash_ctx" where
  "RT_SHA1_Hash ctx =
     (let W = sha1_W (Block ctx); H = HashValue ctx;
          s0 = (H ! 0, H ! 1, H ! 2, H ! 3, H ! 4);
          s1 = fold (sha1_round Ch (SHA1_K ! 0) W) [0..<20] s0;
          s2 = fold (sha1_round Parity (SHA1_K ! 1) W) [20..<40] s1;
          s3 = fold (sha1_round Maj (SHA1_K ! 2) W) [40..<60] s2;
          s4 = fold (sha1_round Parity (SHA1_K ! 3) W) [60..<80] s3
      in case s4 of (a, b, c, d, e) \<Rightarrow>
        ctx\<lparr>HashValue := [H ! 0 + a, H ! 1 + b, H ! 2 + c, H ! 3 + d, H ! 4 + e],
            Block := replicate 64 0, BlockLen := 0\<rparr>)"

definition RT_SHA1_Append :: "hash_ctx \<Rightarrow> bytes \<Rightarrow> u32 \<Rightarrow> hash_ctx option" where
  "RT_SHA1_Append = hash_append RT_SHA1_Hash"

definition RT_SHA1_End :: "hash_ctx \<Rightarrow> (hash_ctx \<times> bytes) option" where
  "RT_SHA1_End = hash_end RT_SHA1_Hash store_be64 cpu2be32"

definition RT_SHA1 :: "bytes \<Rightarrow> u32 \<Rightarrow> bytes option" where
  "RT_SHA1 Message MsgLen =
     (case RT_SHA1_Append RT_SHA1_Init Message MsgLen of
        None \<Rightarrow> None
      | Some sha_ctx \<Rightarrow> map_option snd (RT_SHA1_End sha_ctx))"

section \<open>Reference: the compression function of FIPS 180\<close>

fun fips_sha1_W :: "u32 list \<Rightarrow> nat \<Rightarrow> u32" where
  "fips_sha1_W M t =
     (if t < 16 then M ! t
      else word_rotl 1 (fips_sha1_W M (t - 3) XOR fips_sha1_W M (t - 8) XOR
             fips_sha1_W M (t - 14) XOR fips_sha1_W M (t - 16)))"

declare fips_sha1_W.simps [simp del]

definition fips_sha1_f :: "nat \<Rightarrow> u32 \<Rightarrow> u32 \<Rightarrow> u32 \<Rightarrow> u32" where
  "fips_sha1_f t = (if t < 20 then Ch else if t < 40 then Parity else if t < 60 then Maj else Parity)"

definition fips_sha1_K :: "nat \<Rightarrow> u32" where
  "fips_sha1_K t = (if t < 20 then 0x5a827999 else if t < 40 then 0x6ed9eba1
     else if t < 60 then 0x8f1bbcdc else 0xca62c1d6)"

definition fips_sha1_step :: "u32 list \<Rightarrow> nat \<Rightarrow> u32 \<times> u32 \<times> u32 \<times> u32 \<times> u32 \<Rightarrow> u32 \<times> u32 \<times> u32 \<times> u32 \<times> u32" where
  "fips_sha1_step M t = (\<lambda>(a, b, c, d, e).
     (word_rotl 5 a + fips_sha1_f t b c d + e + fips_sha1_K t + fips_sha1_W M t, a, word_rotl 30 b, c, d))"

definition fips_sha1_compress :: "u32 list \<Rightarrow> bytes \<Rightarrow> u32 list" where
  "fips_sha1_compress H b =
     (let M = map load_be32 (chunks 4 b)
      in case fold (fips_sha1_step M) [0..<80] (H ! 0, H ! 1, H ! 2, H ! 3, H ! 4) of
        (a, b, c, d, e) \<Rightarrow> [H ! 0 + a, H ! 1 + b, H ! 2 + c, H ! 3 + d, H ! 4 + e])"

definition sha1_spec :: "bytes \<Rightarrow> bytes" where
  "sha1_spec = md_digest fips_sha1_compress store_be64 store_be32 SHA1_DefaultHashValue"

section \<open>The block function is the compression function\<close>

lemma length_sha1_W_prefix: "length (fold sha1_W_step is W) = length W"
  by (induction "is" arbitrary: W) (simp_all add: sha1_W_step_def)

lemma sha1_W_prefix:
  assumes "length M = 16" and "n \<le> 64" and "t < 16 + n"
  shows "fold sha1_W_step [16..<16 + n] (M @ replicate 64 0) ! t = fips_sha1_W M t"
  using assms(2,3)
proof (induction n arbitrary: t)
  case 0
  then show ?case using assms(1) by (simp add: fips_sha1_W.simps [of M t] nth_append)
next
  case (Suc n)
  let ?W = "fold sha1_W_step [16..<16 + n] (M @ replicate 64 0)"
  have len: "length ?W = 80" using assms(1) by (simp add: length_sha1_W_prefix)
  have W: "fold sha1_W_step [16..<16 + Suc n] (M @ replicate 64 0) = sha1_W_step (16 + n) ?W"
    using fold_upt_Suc [of 16 "16 + n" sha1_W_step] by simp
  show ?case
  proof (cases "t = 16 + n")
    case True
    have "sha1_W_step (16 + n) ?W ! (16 + n) =
        word_rotl 1 (?W ! (13 + n) XOR ?W ! (8 + n) XOR ?W ! (2 + n) XOR ?W ! n)"
      using Suc.prems len by (simp add: sha1_W_step_def ROTL32_rotl)
    then show ?thesis
      using Suc True unfolding W by (simp add: fips_sha1_W.simps [of M "16 + n"])
  next
    case False
    have "sha1_W_step (16 + n) ?W ! t = ?W ! t" using False by (simp add: sha1_W_step_def)
    then show ?thesis
      using Suc False unfolding W by simp
  qed
qed

lemma sha1_W_nth:
  "length b = 64 \<Longrightarrow> t < 80 \<Longrightarrow> sha1_W b ! t = fips_sha1_W (map load_be32 (chunks 4 b)) t"
  using sha1_W_prefix [of "map load_be32 (chunks 4 b)" 64 t]
  by (simp add: sha1_W_def block_words_chunks [where load = load_be32] cpu2be32_load_le32 length_chunks [of 4 b 16])

lemma sha1_round_step:
  assumes "length b = 64" and "t < 80" and "f = fips_sha1_f t" and "k = fips_sha1_K t"
  shows "sha1_round f k (sha1_W b) t s = fips_sha1_step (map load_be32 (chunks 4 b)) t s"
  using assms by (simp add: sha1_round_def fips_sha1_step_def sha1_W_nth ROTL32_rotl split: prod.split)

lemma RT_SHA1_Hash_compress:
  assumes "length (Block ctx) = 64"
  shows "RT_SHA1_Hash ctx = ctx\<lparr>HashValue := fips_sha1_compress (HashValue ctx) (Block ctx),
           Block := replicate 64 0, BlockLen := 0\<rparr>"
proof -
  let ?M = "map load_be32 (chunks 4 (Block ctx))" and ?W = "sha1_W (Block ctx)"
  have loop: "fold (sha1_round f k ?W) [i..<j] s = fold (fips_sha1_step ?M) [i..<j] s"
    if "j \<le> 80" "\<And>t. i \<le> t \<Longrightarrow> t < j \<Longrightarrow> f = fips_sha1_f t \<and> k = fips_sha1_K t" for f k i j s
    using that assms by (intro fold_cong) (auto intro!: sha1_round_step ext)
  have loops:
    "fold (sha1_round Ch (SHA1_K ! 0) ?W) [0..<20] s = fold (fips_sha1_step ?M) [0..<20] s"
    "fold (sha1_round Parity (SHA1_K ! 1) ?W) [20..<40] s = fold (fips_sha1_step ?M) [20..<40] s"
    "fold (sha1_round Maj (SHA1_K ! 2) ?W) [40..<60] s = fold (fips_sha1_step ?M) [40..<60] s"
    "fold (sha1_round Parity (SHA1_K ! 3) ?W) [60..<80] s = fold (fips_sha1_step ?M) [60..<80] s" for s
    by (rule loop; simp add: fips_sha1_f_def fips_sha1_K_def SHA1_K_def)+
  have joined: "fold f [60..<80] (fold f [40..<60] (fold f [20..<40] (fold f [0..<20] s))) = fold f [0..<80] s"
    for f :: "nat \<Rightarrow> _ \<Rightarrow> u32 \<times> u32 \<times> u32 \<times> u32 \<times> u32" and s
    using fold_upt_split [of 0 20 80 f s] fold_upt_split [of 20 40 80 f] fold_upt_split [of 40 60 80 f]
    by (simp only: zero_le numeral_le_iff semiring_norm)
  show ?thesis
    unfolding RT_SHA1_Hash_def fips_sha1_compress_def Let_def loops joined
    by (simp only: split_beta)
qed

interpretation sha1: block_hash RT_SHA1_Hash fips_sha1_compress
  by unfold_locales (rule RT_SHA1_Hash_compress)

lemma hashed_RT_SHA1_Init: "hashed compress SHA1_DefaultHashValue [] RT_SHA1_Init"
  by (simp add: hashed_def buffered_def RT_SHA1_Init_def md_fold_short)

lemma length_fips_sha1_compress: "length (fips_sha1_compress h b) = 5"
  by (simp add: fips_sha1_compress_def Let_def split: prod.split del: upt_rec_numeral)

interpretation sha1_module: hash_module RT_SHA1_Init RT_SHA1_Append RT_SHA1_End RT_SHA1 sha1_spec 20
proof -
  have oneshot: "RT_SHA1 = (\<lambda>m l. case hash_append RT_SHA1_Hash RT_SHA1_Init m l of None \<Rightarrow> None
      | Some c \<Rightarrow> map_option snd (hash_end RT_SHA1_Hash store_be64 cpu2be32 c))"
    unfolding RT_SHA1_def RT_SHA1_Append_def RT_SHA1_End_def by (rule ext)+ (rule refl)
  show "hash_module RT_SHA1_Init RT_SHA1_Append RT_SHA1_End RT_SHA1 sha1_spec 20"
    using sha1.hash_module_ops [OF hashed_RT_SHA1_Init, of store_be64 5 cpu2be32] length_fips_sha1_compress
    by (simp add: oneshot RT_SHA1_Append_def RT_SHA1_End_def sha1_spec_def SHA1_DefaultHashValue_def)
qed

section \<open>Properties\<close>



end
