(* ===== verification/Sha256.thy ===== *)
theory Sha256
  imports Sha1
begin

text \<open>
  SHA256, \<^verbatim>\<open>common/crypt_sha2.c\<close>: \<^verbatim>\<open>RT_SHA256_Init\<close>, \<^verbatim>\<open>RT_SHA256_Hash\<close>, \<^verbatim>\<open>RT_SHA256_Append\<close>,
  \<^verbatim>\<open>RT_SHA256_End\<close> and \<^verbatim>\<open>RT_SHA256\<close>. The source extends the word array inside the round
  loop; the block function is proved equal to the compression function of FIPS 180, whose
  message schedule is a recurrence of its own.
\<close>

section \<open>Operations\<close>

definition Zsigma_256_0 :: "u32 \<Rightarrow> u32" where
  "Zsigma_256_0 x = ROTR32 x 2 XOR ROTR32 x 13 XOR ROTR32 x 22"

definition Zsigma_256_1 :: "u32 \<Rightarrow> u32" where
  "Zsigma_256_1 x = ROTR32 x 6 XOR ROTR32 x 11 XOR ROTR32 x 25"

definition Sigma_256_0 :: "u32 \<Rightarrow> u32" where
  "Sigma_256_0 x = ROTR32 x 7 XOR ROTR32 x 18 XOR drop_bit 3 x"

definition Sigma_256_1 :: "u32 \<Rightarrow> u32" where
  "Sigma_256_1 x = ROTR32 x 17 XOR ROTR32 x 19 XOR drop_bit 10 x"

text \<open>The round constants, row by row as the source writes them.\<close>

definition SHA256_K :: "u32 list" where
  "SHA256_K = concat
    [[0x428a2f98, 0x71374491, 0xb5c0fbcf, 0xe9b5dba5],
     [0x3956c25b, 0x59f111f1, 0x923f82a4, 0xab1c5ed5],
     [0xd807aa98, 0x12835b01, 0x243185be, 0x550c7dc3],
     [0x72be5d74, 0x80deb1fe, 0x9bdc06a7, 0xc19bf174],
     [0xe49b69c1, 0xefbe4786, 0x0fc19dc6, 0x240ca1cc],
     [0x2de92c6f, 0x4a7484aa, 0x5cb0a9dc, 0x76f988da],
     [0x983e5152, 0xa831c66d, 0xb00327c8, 0xbf597fc7],
     [0xc6e00bf3, 0xd5a79147, 0x06ca6351, 0x14292967],
     [0x27b70a85, 0x2e1b2138, 0x4d2c6dfc, 0x53380d13],
     [0x650a7354, 0x766a0abb, 0x81c2c92e, 0x92722c85],
     [0xa2bfe8a1, 0xa81a664b, 0xc24b8b70, 0xc76c51a3],
     [0xd192e819, 0xd6990624, 0xf40e3585, 0x106aa070],
     [0x19a4c116, 0x1e376c08, 0x2748774c, 0x34b0bcb5],
     [0x391c0cb3, 0x4ed8aa4a, 0x5b9cca4f, 0x682e6ff3],
     [0x748f82ee, 0x78a5636f, 0x84c87814, 0x8cc70208],
     [0x90befffa, 0xa4506ceb, 0xbef9a3f7, 0xc67178f2]]"

definition SHA256_DefaultHashValue :: "u32 list" where
  "SHA256_DefaultHashValue =
    [0x6a09e667, 0xbb67ae85, 0x3c6ef372, 0xa54ff53a, 0x510e527f, 0x9b05688c, 0x1f83d9ab, 0x5be0cd19]"

definition RT_SHA256_Init :: hash_ctx where
  "RT_SHA256_Init = \<lparr>HashValue = SHA256_DefaultHashValue, MessageLen = 0, Block = replicate 64 0, BlockLen = 0\<rparr>"

type_synonym sha256_vars = "u32 \<times> u32 \<times> u32 \<times> u32 \<times> u32 \<times> u32 \<times> u32 \<times> u32"

text \<open>The body of the loop of 64 rounds, on the array \<^verbatim>\<open>W[64]\<close> and the working variables.\<close>

definition sha256_W_step :: "nat \<Rightarrow> u32 list \<Rightarrow> u32 list" where
  "sha256_W_step t W =
     (if t > 15
      then W[t := Sigma_256_1 (W ! (t - 2)) + W ! (t - 7) + Sigma_256_0 (W ! (t - 15)) + W ! (t - 16)]
      else W)"

definition sha256_round :: "nat \<Rightarrow> u32 list \<times> sha256_vars \<Rightarrow> u32 list \<times> sha256_vars" where
  "sha256_round t s = (case s of (W0, a, b, c, d, e, f, g, h) \<Rightarrow>
     let W = sha256_W_step t W0;
         T1 = h + Zsigma_256_1 e + Ch e f g + SHA256_K ! t + W ! t;
         T2 = Zsigma_256_0 a + Maj a b c
     in (W, T1 + T2, a, b, c, d + T1, e, f, g))"

definition RT_SHA256_Hash :: "hash_ctx \<Rightarrow> hash_ctx" where
  "RT_SHA256_Hash ctx =
     (let W = block_words cpu2be32 (Block ctx) @ replicate 48 0; H = HashValue ctx
      in case fold sha256_round [0..<64] (W, H ! 0, H ! 1, H ! 2, H ! 3, H ! 4, H ! 5, H ! 6, H ! 7) of
        (_, a, b, c, d, e, f, g, h) \<Rightarrow>
          ctx\<lparr>HashValue := [H ! 0 + a, H ! 1 + b, H ! 2 + c, H ! 3 + d, H ! 4 + e, H ! 5 + f, H ! 6 + g, H ! 7 + h],
              Block := replicate 64 0, BlockLen := 0\<rparr>)"

definition RT_SHA256_Append :: "hash_ctx \<Rightarrow> bytes \<Rightarrow> u32 \<Rightarrow> hash_ctx option" where
  "RT_SHA256_Append = hash_append RT_SHA256_Hash"

definition RT_SHA256_End :: "hash_ctx \<Rightarrow> (hash_ctx \<times> bytes) option" where
  "RT_SHA256_End = hash_end RT_SHA256_Hash store_be64 cpu2be32"

definition RT_SHA256 :: "bytes \<Rightarrow> u32 \<Rightarrow> bytes option" where
  "RT_SHA256 Message MsgLen =
     (case RT_SHA256_Append RT_SHA256_Init Message MsgLen of
        None \<Rightarrow> None
      | Some sha_ctx \<Rightarrow> map_option snd (RT_SHA256_End sha_ctx))"

section \<open>Reference: the compression function of FIPS 180\<close>

fun fips_sha256_W :: "u32 list \<Rightarrow> nat \<Rightarrow> u32" where
  "fips_sha256_W M t =
     (if t < 16 then M ! t
      else let w2 = fips_sha256_W M (t - 2); w15 = fips_sha256_W M (t - 15)
           in (word_rotr 17 w2 XOR word_rotr 19 w2 XOR drop_bit 10 w2) + fips_sha256_W M (t - 7)
              + (word_rotr 7 w15 XOR word_rotr 18 w15 XOR drop_bit 3 w15) + fips_sha256_W M (t - 16))"

declare fips_sha256_W.simps [simp del]

definition fips_sha256_step :: "u32 list \<Rightarrow> nat \<Rightarrow> sha256_vars \<Rightarrow> sha256_vars" where
  "fips_sha256_step M t = (\<lambda>(a, b, c, d, e, f, g, h).
     let T1 = h + (word_rotr 6 e XOR word_rotr 11 e XOR word_rotr 25 e) + Ch e f g + SHA256_K ! t + fips_sha256_W M t;
         T2 = (word_rotr 2 a XOR word_rotr 13 a XOR word_rotr 22 a) + Maj a b c
     in (T1 + T2, a, b, c, d + T1, e, f, g))"

definition fips_sha256_compress :: "u32 list \<Rightarrow> bytes \<Rightarrow> u32 list" where
  "fips_sha256_compress H b =
     (case fold (fips_sha256_step (map load_be32 (chunks 4 b))) [0..<64]
             (H ! 0, H ! 1, H ! 2, H ! 3, H ! 4, H ! 5, H ! 6, H ! 7) of
        (a, b, c, d, e, f, g, h) \<Rightarrow>
          [H ! 0 + a, H ! 1 + b, H ! 2 + c, H ! 3 + d, H ! 4 + e, H ! 5 + f, H ! 6 + g, H ! 7 + h])"

definition sha256_spec :: "bytes \<Rightarrow> bytes" where
  "sha256_spec = md_digest fips_sha256_compress store_be64 store_be32 SHA256_DefaultHashValue"

section \<open>The block function is the compression function\<close>

lemmas sha256_sigmas = Zsigma_256_0_def Zsigma_256_1_def Sigma_256_0_def Sigma_256_1_def ROTR32_rotr

text \<open>The array before round \<open>t\<close> holds the message schedule up to that round.\<close>

definition sha256_W_ok :: "u32 list \<Rightarrow> nat \<Rightarrow> u32 list \<Rightarrow> bool" where
  "sha256_W_ok M t W \<longleftrightarrow> length W = 64 \<and> (\<forall>j < max 16 t. W ! j = fips_sha256_W M j)"

lemma sha256_W_step_ok:
  assumes "sha256_W_ok M t W" and "t < 64"
  shows "sha256_W_ok M (Suc t) (sha256_W_step t W)"
proof (cases "t > 15")
  case True
  have W: "W ! (t - 2) = fips_sha256_W M (t - 2)" "W ! (t - 7) = fips_sha256_W M (t - 7)"
      "W ! (t - 15) = fips_sha256_W M (t - 15)" "W ! (t - 16) = fips_sha256_W M (t - 16)"
    using assms True by (simp_all add: sha256_W_ok_def)
  have "sha256_W_step t W ! t = fips_sha256_W M t"
    using True assms by (simp add: sha256_W_step_def fips_sha256_W.simps [of M t] W sha256_sigmas Let_def sha256_W_ok_def)
  moreover have "sha256_W_step t W ! j = W ! j" if "j \<noteq> t" for j
    using that by (simp add: sha256_W_step_def)
  ultimately show ?thesis
    using assms True by (auto simp: sha256_W_ok_def sha256_W_step_def less_Suc_eq)
next
  case False
  then show ?thesis using assms by (auto simp: sha256_W_ok_def sha256_W_step_def)
qed

lemma sha256_round_step:
  assumes "sha256_W_ok M t W" and "t < 64"
  shows "sha256_round t (W, v) = (sha256_W_step t W, fips_sha256_step M t v)"
proof -
  have "sha256_W_step t W ! t = fips_sha256_W M t"
    using sha256_W_step_ok [OF assms] by (simp add: sha256_W_ok_def)
  then show ?thesis
    by (simp add: sha256_round_def fips_sha256_step_def sha256_sigmas Let_def split: prod.split)
qed

lemma sha256_rounds:
  assumes "sha256_W_ok M 0 W" and "n \<le> 64"
  shows "\<exists>W'. sha256_W_ok M n W' \<and>
    fold sha256_round [0..<n] (W, v) = (W', fold (fips_sha256_step M) [0..<n] v)"
  using assms(2)
proof (induction n)
  case 0
  then show ?case using assms(1) by simp
next
  case (Suc n)
  then obtain W' where "sha256_W_ok M n W'"
      "fold sha256_round [0..<n] (W, v) = (W', fold (fips_sha256_step M) [0..<n] v)"
    by auto
  then show ?case
    using Suc.prems sha256_W_step_ok [of M n W'] by (auto simp: sha256_round_step)
qed

lemma RT_SHA256_Hash_compress:
  assumes "length (Block ctx) = 64"
  shows "RT_SHA256_Hash ctx = ctx\<lparr>HashValue := fips_sha256_compress (HashValue ctx) (Block ctx),
           Block := replicate 64 0, BlockLen := 0\<rparr>"
proof -
  let ?M = "map load_be32 (chunks 4 (Block ctx))"
  have "sha256_W_ok ?M 0 (block_words cpu2be32 (Block ctx) @ replicate 48 0)"
    using assms length_chunks [of 4 "Block ctx" 16]
    by (simp add: sha256_W_ok_def block_words_chunks [where load = load_be32] cpu2be32_load_le32
      fips_sha256_W.simps [of _ "_ :: nat"] nth_append)
  from sha256_rounds [OF this order_refl] obtain W' where
    "fold sha256_round [0..<64] (block_words cpu2be32 (Block ctx) @ replicate 48 0, v) =
       (W' v, fold (fips_sha256_step ?M) [0..<64] v)" for v
    by metis
  then show ?thesis
    unfolding RT_SHA256_Hash_def fips_sha256_compress_def Let_def
    by (simp only: split_beta fst_conv snd_conv)
qed

interpretation sha256: block_hash RT_SHA256_Hash fips_sha256_compress
  by unfold_locales (rule RT_SHA256_Hash_compress)

lemma hashed_RT_SHA256_Init: "hashed compress SHA256_DefaultHashValue [] RT_SHA256_Init"
  by (simp add: hashed_def buffered_def RT_SHA256_Init_def md_fold_short)

lemma length_fips_sha256_compress: "length (fips_sha256_compress h b) = 8"
  by (simp add: fips_sha256_compress_def Let_def split: prod.split del: upt_rec_numeral)

interpretation sha256_module: hash_module RT_SHA256_Init RT_SHA256_Append RT_SHA256_End RT_SHA256 sha256_spec 32
proof -
  have oneshot: "RT_SHA256 = (\<lambda>m l. case hash_append RT_SHA256_Hash RT_SHA256_Init m l of None \<Rightarrow> None
      | Some c \<Rightarrow> map_option snd (hash_end RT_SHA256_Hash store_be64 cpu2be32 c))"
    unfolding RT_SHA256_def RT_SHA256_Append_def RT_SHA256_End_def by (rule ext)+ (rule refl)
  show "hash_module RT_SHA256_Init RT_SHA256_Append RT_SHA256_End RT_SHA256 sha256_spec 32"
    using sha256.hash_module_ops [OF hashed_RT_SHA256_Init, of store_be64 8 cpu2be32] length_fips_sha256_compress
    by (simp add: oneshot RT_SHA256_Append_def RT_SHA256_End_def sha256_spec_def SHA256_DefaultHashValue_def)
qed

section \<open>Properties\<close>



end
