(* ===== verification/Md5.thy ===== *)
theory Md5
  imports Hash_Core
begin

text \<open>
  MD5, \<^verbatim>\<open>common/crypt_md5.c\<close>: \<^verbatim>\<open>RT_MD5_Init\<close>, \<^verbatim>\<open>RT_MD5_Hash\<close>, \<^verbatim>\<open>RT_MD5_Append\<close>,
  \<^verbatim>\<open>RT_MD5_End\<close> and \<^verbatim>\<open>RT_MD5\<close>. The 64 unrolled statements of the block function, with
  their word indices, shift counts and constants, are proved to be the 64 steps of RFC 1321
  given by its index formulas.
\<close>

section \<open>Operations\<close>

definition md5_F :: "u32 \<Rightarrow> u32 \<Rightarrow> u32 \<Rightarrow> u32" where
  "md5_F x y z = (x AND y) OR (NOT x AND z)"

definition md5_G :: "u32 \<Rightarrow> u32 \<Rightarrow> u32 \<Rightarrow> u32" where
  "md5_G x y z = (x AND z) OR (y AND NOT z)"

definition md5_H :: "u32 \<Rightarrow> u32 \<Rightarrow> u32 \<Rightarrow> u32" where
  "md5_H x y z = x XOR y XOR z"

definition md5_I :: "u32 \<Rightarrow> u32 \<Rightarrow> u32 \<Rightarrow> u32" where
  "md5_I x y z = y XOR (x OR NOT z)"

text \<open>\<^verbatim>\<open>ROUND1\<close> to \<^verbatim>\<open>ROUND4\<close>, which differ in the function: the new value of \<open>a\<close>.\<close>

definition md5_ROUND ::
    "(u32 \<Rightarrow> u32 \<Rightarrow> u32 \<Rightarrow> u32) \<Rightarrow> u32 \<Rightarrow> u32 \<Rightarrow> u32 \<Rightarrow> u32 \<Rightarrow> u32 \<Rightarrow> nat \<Rightarrow> u32 \<Rightarrow> u32" where
  "md5_ROUND f a b c d x s ac = ROTL32 (a + (f b c d + x + ac)) s + b"

text \<open>The arguments (word index, shift, constant) of the 16 statements of each round.\<close>

definition md5_args1 :: "(nat \<times> nat \<times> u32) list" where
  "md5_args1 =
    [(0, 7, 0xd76aa478), (1, 12, 0xe8c7b756), (2, 17, 0x242070db), (3, 22, 0xc1bdceee),
     (4, 7, 0xf57c0faf), (5, 12, 0x4787c62a), (6, 17, 0xa8304613), (7, 22, 0xfd469501),
     (8, 7, 0x698098d8), (9, 12, 0x8b44f7af), (10, 17, 0xffff5bb1), (11, 22, 0x895cd7be),
     (12, 7, 0x6b901122), (13, 12, 0xfd987193), (14, 17, 0xa679438e), (15, 22, 0x49b40821)]"

definition md5_args2 :: "(nat \<times> nat \<times> u32) list" where
  "md5_args2 =
    [(1, 5, 0xf61e2562), (6, 9, 0xc040b340), (11, 14, 0x265e5a51), (0, 20, 0xe9b6c7aa),
     (5, 5, 0xd62f105d), (10, 9, 0x2441453), (15, 14, 0xd8a1e681), (4, 20, 0xe7d3fbc8),
     (9, 5, 0x21e1cde6), (14, 9, 0xc33707d6), (3, 14, 0xf4d50d87), (8, 20, 0x455a14ed),
     (13, 5, 0xa9e3e905), (2, 9, 0xfcefa3f8), (7, 14, 0x676f02d9), (12, 20, 0x8d2a4c8a)]"

definition md5_args3 :: "(nat \<times> nat \<times> u32) list" where
  "md5_args3 =
    [(5, 4, 0xfffa3942), (8, 11, 0x8771f681), (11, 16, 0x6d9d6122), (14, 23, 0xfde5380c),
     (1, 4, 0xa4beea44), (4, 11, 0x4bdecfa9), (7, 16, 0xf6bb4b60), (10, 23, 0xbebfbc70),
     (13, 4, 0x289b7ec6), (0, 11, 0xeaa127fa), (3, 16, 0xd4ef3085), (6, 23, 0x4881d05),
     (9, 4, 0xd9d4d039), (12, 11, 0xe6db99e5), (15, 16, 0x1fa27cf8), (2, 23, 0xc4ac5665)]"

definition md5_args4 :: "(nat \<times> nat \<times> u32) list" where
  "md5_args4 =
    [(0, 6, 0xf4292244), (7, 10, 0x432aff97), (14, 15, 0xab9423a7), (5, 21, 0xfc93a039),
     (12, 6, 0x655b59c3), (3, 10, 0x8f0ccc92), (10, 15, 0xffeff47d), (1, 21, 0x85845dd1),
     (8, 6, 0x6fa87e4f), (15, 10, 0xfe2ce6e0), (6, 15, 0xa3014314), (13, 21, 0x4e0811a1),
     (4, 6, 0xf7537e82), (11, 10, 0xbd3af235), (2, 15, 0x2ad7d2bb), (9, 21, 0xeb86d391)]"

definition MD5_DefaultHashValue :: "u32 list" where
  "MD5_DefaultHashValue = [0x67452301, 0xefcdab89, 0x98badcfe, 0x10325476]"

definition RT_MD5_Init :: hash_ctx where
  "RT_MD5_Init = \<lparr>HashValue = MD5_DefaultHashValue, MessageLen = 0, Block = replicate 64 0, BlockLen = 0\<rparr>"

type_synonym md5_vars = "u32 \<times> u32 \<times> u32 \<times> u32"

text \<open>The statements of one round come in groups of four, assigning \<open>a\<close>, \<open>d\<close>, \<open>c\<close> and \<open>b\<close>.\<close>

fun md5_statements ::
    "(u32 \<Rightarrow> u32 \<Rightarrow> u32 \<Rightarrow> u32) \<Rightarrow> u32 list \<Rightarrow> (nat \<times> nat \<times> u32) list \<Rightarrow> md5_vars \<Rightarrow> md5_vars" where
  "md5_statements f X ((k1, s1, t1) # (k2, s2, t2) # (k3, s3, t3) # (k4, s4, t4) # rest) (a, b, c, d) =
     (let a = md5_ROUND f a b c d (X ! k1) s1 t1;
          d = md5_ROUND f d a b c (X ! k2) s2 t2;
          c = md5_ROUND f c d a b (X ! k3) s3 t3;
          b = md5_ROUND f b c d a (X ! k4) s4 t4
      in md5_statements f X rest (a, b, c, d))"
| "md5_statements f X _ v = v"

definition RT_MD5_Hash :: "hash_ctx \<Rightarrow> hash_ctx" where
  "RT_MD5_Hash ctx =
     (let X = block_words id (Block ctx); H = HashValue ctx;
          v1 = md5_statements md5_F X md5_args1 (H ! 0, H ! 1, H ! 2, H ! 3);
          v2 = md5_statements md5_G X md5_args2 v1;
          v3 = md5_statements md5_H X md5_args3 v2;
          v4 = md5_statements md5_I X md5_args4 v3
      in case v4 of (a, b, c, d) \<Rightarrow>
        ctx\<lparr>HashValue := [H ! 0 + a, H ! 1 + b, H ! 2 + c, H ! 3 + d],
            Block := replicate 64 0, BlockLen := 0\<rparr>)"

definition RT_MD5_Append :: "hash_ctx \<Rightarrow> bytes \<Rightarrow> u32 \<Rightarrow> hash_ctx option" where
  "RT_MD5_Append = hash_append RT_MD5_Hash"

definition RT_MD5_End :: "hash_ctx \<Rightarrow> (hash_ctx \<times> bytes) option" where
  "RT_MD5_End = hash_end RT_MD5_Hash store_le64 id"

definition RT_MD5 :: "bytes \<Rightarrow> u32 \<Rightarrow> bytes option" where
  "RT_MD5 Message MsgLen =
     (case RT_MD5_Append RT_MD5_Init Message MsgLen of
        None \<Rightarrow> None
      | Some md5_ctx \<Rightarrow> map_option snd (RT_MD5_End md5_ctx))"

section \<open>Reference: RFC 1321\<close>

text \<open>\<open>rfc_md5_T\<close> is the integer part of 4294967296 times the absolute value of the sine of
  1, 2, \dots, 64.\<close>

definition rfc_md5_T :: "u32 list" where
  "rfc_md5_T =
    [0xd76aa478, 0xe8c7b756, 0x242070db, 0xc1bdceee,
     0xf57c0faf, 0x4787c62a, 0xa8304613, 0xfd469501,
     0x698098d8, 0x8b44f7af, 0xffff5bb1, 0x895cd7be,
     0x6b901122, 0xfd987193, 0xa679438e, 0x49b40821,
     0xf61e2562, 0xc040b340, 0x265e5a51, 0xe9b6c7aa,
     0xd62f105d, 0x2441453, 0xd8a1e681, 0xe7d3fbc8,
     0x21e1cde6, 0xc33707d6, 0xf4d50d87, 0x455a14ed,
     0xa9e3e905, 0xfcefa3f8, 0x676f02d9, 0x8d2a4c8a,
     0xfffa3942, 0x8771f681, 0x6d9d6122, 0xfde5380c,
     0xa4beea44, 0x4bdecfa9, 0xf6bb4b60, 0xbebfbc70,
     0x289b7ec6, 0xeaa127fa, 0xd4ef3085, 0x4881d05,
     0xd9d4d039, 0xe6db99e5, 0x1fa27cf8, 0xc4ac5665,
     0xf4292244, 0x432aff97, 0xab9423a7, 0xfc93a039,
     0x655b59c3, 0x8f0ccc92, 0xffeff47d, 0x85845dd1,
     0x6fa87e4f, 0xfe2ce6e0, 0xa3014314, 0x4e0811a1,
     0xf7537e82, 0xbd3af235, 0x2ad7d2bb, 0xeb86d391]"

definition rfc_md5_f :: "nat \<Rightarrow> u32 \<Rightarrow> u32 \<Rightarrow> u32 \<Rightarrow> u32" where
  "rfc_md5_f i = (if i < 16 then md5_F else if i < 32 then md5_G else if i < 48 then md5_H else md5_I)"

definition rfc_md5_k :: "nat \<Rightarrow> nat" where
  "rfc_md5_k i = (if i < 16 then i else if i < 32 then (5 * i + 1) mod 16
     else if i < 48 then (3 * i + 5) mod 16 else 7 * i mod 16)"

definition rfc_md5_s :: "nat \<Rightarrow> nat" where
  "rfc_md5_s i = (if i < 16 then [7, 12, 17, 22] else if i < 32 then [5, 9, 14, 20]
     else if i < 48 then [4, 11, 16, 23] else [6, 10, 15, 21]) ! (i mod 4)"

definition rfc_md5_op :: "(u32 \<Rightarrow> u32 \<Rightarrow> u32 \<Rightarrow> u32) \<Rightarrow> u32 list \<Rightarrow> nat \<times> nat \<times> u32 \<Rightarrow> md5_vars \<Rightarrow> md5_vars" where
  "rfc_md5_op f X = (\<lambda>(k, s, t) (a, b, c, d). (d, b + word_rotl s (a + f b c d + X ! k + t), b, c))"

definition rfc_md5_step :: "u32 list \<Rightarrow> nat \<Rightarrow> md5_vars \<Rightarrow> md5_vars" where
  "rfc_md5_step X i = rfc_md5_op (rfc_md5_f i) X (rfc_md5_k i, rfc_md5_s i, rfc_md5_T ! i)"

definition rfc_md5_compress :: "u32 list \<Rightarrow> bytes \<Rightarrow> u32 list" where
  "rfc_md5_compress H b =
     (case fold (rfc_md5_step (map load_le32 (chunks 4 b))) [0..<64] (H ! 0, H ! 1, H ! 2, H ! 3) of
        (a, b, c, d) \<Rightarrow> [H ! 0 + a, H ! 1 + b, H ! 2 + c, H ! 3 + d])"

definition md5_spec :: "bytes \<Rightarrow> bytes" where
  "md5_spec = md_digest rfc_md5_compress store_le64 store_le32 MD5_DefaultHashValue"

section \<open>The block function is the compression function\<close>

lemma md5_ROUND_rotl:
  "s < 32 \<Longrightarrow> md5_ROUND f a b c d x s ac = b + word_rotl s (a + f b c d + x + ac)"
  by (simp add: md5_ROUND_def ROTL32_rotl ac_simps)

lemma md5_statements_fold:
  "4 dvd length args \<Longrightarrow> (\<forall>(k, s, t) \<in> set args. s < 32) \<Longrightarrow>
    md5_statements f X args v = fold (rfc_md5_op f X) args v"
proof (induction f X args v rule: md5_statements.induct)
  case (1 f X k1 s1 t1 k2 s2 t2 k3 s3 t3 k4 s4 t4 rest a b c d)
  have "4 dvd length rest" using "1.prems"(1) by (simp add: dvd_def) presburger
  then show ?case using 1 by (simp add: Let_def rfc_md5_op_def md5_ROUND_rotl)
qed (auto dest: dvd_imp_le)

lemma md5_args_rfc:
  "map (\<lambda>i. (rfc_md5_k i, rfc_md5_s i, rfc_md5_T ! i)) [0..<16] = md5_args1"
  "map (\<lambda>i. (rfc_md5_k i, rfc_md5_s i, rfc_md5_T ! i)) [16..<32] = md5_args2"
  "map (\<lambda>i. (rfc_md5_k i, rfc_md5_s i, rfc_md5_T ! i)) [32..<48] = md5_args3"
  "map (\<lambda>i. (rfc_md5_k i, rfc_md5_s i, rfc_md5_T ! i)) [48..<64] = md5_args4"
  by code_simp+

lemma md5_round_rfc:
  assumes "map (\<lambda>i. (rfc_md5_k i, rfc_md5_s i, rfc_md5_T ! i)) [m..<n] = args"
    and "4 dvd n - m" and "\<forall>(k, s, t) \<in> set args. s < 32"
    and "\<And>i. m \<le> i \<Longrightarrow> i < n \<Longrightarrow> rfc_md5_f i = f"
  shows "md5_statements f X args v = fold (rfc_md5_step X) [m..<n] v"
proof -
  have "fold (rfc_md5_step X) [m..<n] v =
      fold (\<lambda>i. rfc_md5_op f X (rfc_md5_k i, rfc_md5_s i, rfc_md5_T ! i)) [m..<n] v"
    using assms(4) by (intro fold_cong) (auto simp: rfc_md5_step_def)
  also have "\<dots> = fold (rfc_md5_op f X) args v"
    by (simp add: assms(1) [symmetric] fold_map comp_def)
  finally show ?thesis using assms(2,3) arg_cong [OF assms(1), of length] by (simp add: md5_statements_fold)
qed

lemma md5_rounds_rfc:
  "md5_statements md5_F X md5_args1 v = fold (rfc_md5_step X) [0..<16] v"
  "md5_statements md5_G X md5_args2 v = fold (rfc_md5_step X) [16..<32] v"
  "md5_statements md5_H X md5_args3 v = fold (rfc_md5_step X) [32..<48] v"
  "md5_statements md5_I X md5_args4 v = fold (rfc_md5_step X) [48..<64] v"
     apply (rule md5_round_rfc [OF md5_args_rfc(1)]; simp add: md5_args1_def rfc_md5_f_def)
    apply (rule md5_round_rfc [OF md5_args_rfc(2)]; simp add: md5_args2_def rfc_md5_f_def)
   apply (rule md5_round_rfc [OF md5_args_rfc(3)]; simp add: md5_args3_def rfc_md5_f_def)
  apply (rule md5_round_rfc [OF md5_args_rfc(4)]; simp add: md5_args4_def rfc_md5_f_def)
  done

lemma RT_MD5_Hash_compress:
  assumes "length (Block ctx) = 64"
  shows "RT_MD5_Hash ctx = ctx\<lparr>HashValue := rfc_md5_compress (HashValue ctx) (Block ctx),
           Block := replicate 64 0, BlockLen := 0\<rparr>"
proof -
  have joined: "fold f [48..<64] (fold f [32..<48] (fold f [16..<32] (fold f [0..<16] s))) = fold f [0..<64] s"
    for f :: "nat \<Rightarrow> _ \<Rightarrow> md5_vars" and s
    using fold_upt_split [of 0 16 64 f s] fold_upt_split [of 16 32 64 f] fold_upt_split [of 32 48 64 f]
    by (simp only: zero_le numeral_le_iff semiring_norm)
  have words: "block_words id (Block ctx) = map load_le32 (chunks 4 (Block ctx))"
    using assms by (simp add: block_words_chunks)
  show ?thesis
    unfolding RT_MD5_Hash_def rfc_md5_compress_def Let_def md5_rounds_rfc joined words
    by (simp only: split_beta)
qed

interpretation md5: block_hash RT_MD5_Hash rfc_md5_compress
  by unfold_locales (rule RT_MD5_Hash_compress)

lemma hashed_RT_MD5_Init: "hashed compress MD5_DefaultHashValue [] RT_MD5_Init"
  by (simp add: hashed_def buffered_def RT_MD5_Init_def md_fold_short)

lemma length_rfc_md5_compress: "length (rfc_md5_compress h b) = 4"
  by (simp add: rfc_md5_compress_def Let_def split: prod.split del: upt_rec_numeral)

interpretation md5_module: hash_module RT_MD5_Init RT_MD5_Append RT_MD5_End RT_MD5 md5_spec 16
proof -
  have oneshot: "RT_MD5 = (\<lambda>m l. case hash_append RT_MD5_Hash RT_MD5_Init m l of None \<Rightarrow> None
      | Some c \<Rightarrow> map_option snd (hash_end RT_MD5_Hash store_le64 id c))"
    unfolding RT_MD5_def RT_MD5_Append_def RT_MD5_End_def by (rule ext)+ (rule refl)
  show "hash_module RT_MD5_Init RT_MD5_Append RT_MD5_End RT_MD5 md5_spec 16"
    using md5.hash_module_ops [OF hashed_RT_MD5_Init, of store_le64 4 id] length_rfc_md5_compress
    by (simp add: oneshot RT_MD5_Append_def RT_MD5_End_def md5_spec_def MD5_DefaultHashValue_def)
qed

section \<open>Properties\<close>



end
