(* ===== verification/Hmac.thy ===== *)
theory Hmac
  imports Sha256 Md5
begin

text \<open>
  The keyed hashes of \<^verbatim>\<open>common/crypt_hmac.c\<close>. The three functions are the same text over
  the operations of a hash module; \<open>rt_hmac\<close> is that text, \<open>RT_HMAC_SHA1\<close>,
  \<open>RT_HMAC_SHA256\<close> and \<open>RT_HMAC_MD5\<close> its instances. Inside the interface \<open>hash_module\<close> it
  is proved to be the construction of RFC 2104.
\<close>

section \<open>Operations\<close>

text \<open>The result is the bytes copied to \<^verbatim>\<open>MAC\<close>; \<open>Dlen\<close> is the digest size.\<close>

definition rt_hmac ::
    "'c \<Rightarrow> ('c \<Rightarrow> bytes \<Rightarrow> u32 \<Rightarrow> 'c option) \<Rightarrow> ('c \<Rightarrow> ('c \<times> bytes) option) \<Rightarrow> (bytes \<Rightarrow> u32 \<Rightarrow> bytes option) \<Rightarrow> u32 \<Rightarrow>
     bytes \<Rightarrow> u32 \<Rightarrow> bytes \<Rightarrow> u32 \<Rightarrow> u32 \<Rightarrow> bytes option" where
  "rt_hmac Init Append End Oneshot Dlen Key KeyLen Message MsgLen MACLen =
     (case (if KeyLen \<le> 64 then Some (take (unat KeyLen) Key) else Oneshot Key KeyLen) of
        None \<Rightarrow> None
      | Some k \<Rightarrow>
     (let K0 = write_at (replicate 64 0) 0 k;
          K1 = map (\<lambda>x. x XOR 0x36) K0
      in case Append Init K1 64 of None \<Rightarrow> None | Some c1 \<Rightarrow>
         (case Append c1 Message MsgLen of None \<Rightarrow> None | Some c2 \<Rightarrow>
         (case End c2 of None \<Rightarrow> None | Some (c3, Digest) \<Rightarrow>
         (let K2 = map (\<lambda>x. x XOR (0x36 XOR 0x5c)) K1
          in case Append Init K2 64 of None \<Rightarrow> None | Some d1 \<Rightarrow>
             (case Append d1 Digest Dlen of None \<Rightarrow> None | Some d2 \<Rightarrow>
             (case End d2 of None \<Rightarrow> None | Some (d3, Digest') \<Rightarrow>
                Some (if MACLen > Dlen then take (unat Dlen) Digest' else take (unat MACLen) Digest'))))))))"

definition RT_HMAC_SHA1 :: "bytes \<Rightarrow> u32 \<Rightarrow> bytes \<Rightarrow> u32 \<Rightarrow> u32 \<Rightarrow> bytes option" where
  "RT_HMAC_SHA1 = rt_hmac RT_SHA1_Init RT_SHA1_Append RT_SHA1_End RT_SHA1 20"

definition RT_HMAC_SHA256 :: "bytes \<Rightarrow> u32 \<Rightarrow> bytes \<Rightarrow> u32 \<Rightarrow> u32 \<Rightarrow> bytes option" where
  "RT_HMAC_SHA256 = rt_hmac RT_SHA256_Init RT_SHA256_Append RT_SHA256_End RT_SHA256 32"

definition RT_HMAC_MD5 :: "bytes \<Rightarrow> u32 \<Rightarrow> bytes \<Rightarrow> u32 \<Rightarrow> u32 \<Rightarrow> bytes option" where
  "RT_HMAC_MD5 = rt_hmac RT_MD5_Init RT_MD5_Append RT_MD5_End RT_MD5 16"

section \<open>Reference: RFC 2104\<close>

definition hmac_spec :: "(bytes \<Rightarrow> bytes) \<Rightarrow> bytes \<Rightarrow> bytes \<Rightarrow> bytes" where
  "hmac_spec H K m =
     (let k = (if length K > 64 then H K else K);
          B = k @ replicate (64 - length k) 0
      in H (xor_bytes B (replicate 64 0x5c) @ H (xor_bytes B (replicate 64 0x36) @ m)))"

section \<open>Correctness\<close>

lemma map_xor_replicate: "length xs = n \<Longrightarrow> xor_bytes xs (replicate n v) = map (\<lambda>x. x XOR v) xs"
  by (rule nth_equalityI) (simp_all add: xor_bytes_def)

context hash_module
begin

lemma rt_hmac_spec:
  assumes "length Key + 64 \<le> 2 ^ 32" and "length Message + 64 \<le> 2 ^ 32"
  shows "rt_hmac Init Append End Oneshot (of_nat digest_size) Key (of_nat (length Key)) Message (of_nat (length Message)) n =
    Some (take (min (unat n) digest_size) (hmac_spec H Key Message))"
proof -
  define k where "k = (if length Key > 64 then H Key else Key)"
  define B where "B = k @ replicate (64 - length k) 0"
  have lk: "length k \<le> 64" using digest_size_le by (simp add: k_def length_H)
  then have lB: "length B = 64" by (simp add: B_def)
  have ul: "unat (of_nat (length Key) :: u32) = length Key" using assms(1) by (simp add: unat_of_nat)
  have ud: "unat (of_nat digest_size :: u32) = digest_size" using digest_size_le by (simp add: unat_of_nat)
  have key: "(if (of_nat (length Key) :: u32) \<le> 64 then Some (take (unat (of_nat (length Key) :: u32)) Key)
      else Oneshot Key (of_nat (length Key))) = Some k"
    using assms(1) by (simp add: word_le_nat_alt ul k_def Oneshot_H)
  have K0: "write_at (replicate 64 0) 0 k = B" using lk by (simp add: write_at_def B_def)
  let ?K1 = "map (\<lambda>x. x XOR 0x36) B" and ?K2 = "map (\<lambda>x. x XOR 0x5c) B"
  let ?D = "H (?K1 @ Message)"
  obtain c1 c2 c3 where inner: "Append Init ?K1 64 = Some c1" "Append c1 Message (of_nat (length Message)) = Some c2"
      "End c2 = Some (c3, ?D)"
    using Appends_H [of ?K1 Message] assms(2) lB by auto
  obtain d1 d2 d3 where outer: "Append Init ?K2 64 = Some d1" "Append d1 ?D (of_nat digest_size) = Some d2"
      "End d2 = Some (d3, H (?K2 @ ?D))"
    using Appends_H [of ?K2 ?D] lB digest_size_le by (auto simp: length_H)
  have K2: "map (\<lambda>x. x XOR (0x36 XOR 0x5c)) ?K1 = ?K2"
    by (simp add: xor.assoc)
  have spec: "hmac_spec H Key Message = H (?K2 @ ?D)"
    using lB by (simp add: hmac_spec_def Let_def k_def [symmetric] B_def [symmetric] map_xor_replicate)
  show ?thesis
    unfolding rt_hmac_def key Let_def option.case K0 K2 inner outer prod.case spec
    by (simp add: word_less_nat_alt ud min_def)
qed

end

section \<open>Properties\<close>

text \<open>
  (C28) The three keyed hashes are the HMAC of RFC 2104 over the three hash functions, for keys
  shorter and longer than a block, cut to the requested length (at most the digest size).
\<close>

theorem RT_HMAC_rfc2104:
  assumes "length Key + 64 \<le> 2 ^ 32" and "length m + 64 \<le> 2 ^ 32"
  shows "RT_HMAC_SHA1 Key (of_nat (length Key)) m (of_nat (length m)) n =
      Some (take (min (unat n) 20) (hmac_spec sha1_spec Key m)) \<and>
    RT_HMAC_SHA256 Key (of_nat (length Key)) m (of_nat (length m)) n =
      Some (take (min (unat n) 32) (hmac_spec sha256_spec Key m)) \<and>
    RT_HMAC_MD5 Key (of_nat (length Key)) m (of_nat (length m)) n =
      Some (take (min (unat n) 16) (hmac_spec md5_spec Key m))"
  using sha1_module.rt_hmac_spec [OF assms] sha256_module.rt_hmac_spec [OF assms] md5_module.rt_hmac_spec [OF assms]
  by (simp add: RT_HMAC_SHA1_def RT_HMAC_SHA256_def RT_HMAC_MD5_def)

theorem RT_HMAC_rfc2104_witness:
  "RT_HMAC_SHA1 [1, 2] 2 [3] 1 8 = Some (take 8 (hmac_spec sha1_spec [1, 2] [3])) \<and>
   RT_HMAC_SHA256 [1, 2] 2 [3] 1 8 = Some (take 8 (hmac_spec sha256_spec [1, 2] [3])) \<and>
   RT_HMAC_MD5 [1, 2] 2 [3] 1 8 = Some (take 8 (hmac_spec md5_spec [1, 2] [3]))"
  using RT_HMAC_rfc2104 [of "[1, 2]" "[3]" 8] by simp

end
