(* ===== verification/Wpa_Keys.thy ===== *)
theory Wpa_Keys
  imports Hmac
begin

text \<open>
  The keys of WPA, \<^verbatim>\<open>common/cmm_wpa.c\<close>: the pseudo random functions \<^verbatim>\<open>PRF\<close> and \<^verbatim>\<open>KDF\<close>, the pre-shared key from a passphrase
  (\<^verbatim>\<open>F\<close>, \<^verbatim>\<open>RtmpPasswordHash\<close>), the pairwise and group transient keys, the nonces of \<^verbatim>\<open>GenRandom\<close>, and the counters in byte arrays
  (\<^verbatim>\<open>inc_iv_byte\<close>, \<^verbatim>\<open>inc_byte_array\<close>, the macro \<^verbatim>\<open>ADD_ONE_To_64BIT_VAR\<close>) with the comparison \<^verbatim>\<open>RTMPCompareMemory\<close>. They are
  proved to be the functions of IEEE 802.11i, IEEE 802.11r and PKCS 5, and increments and order of the numbers the arrays hold.
\<close>

section \<open>Counters in byte arrays\<close>

text \<open>The value of a byte array, most and least significant byte first.\<close>

fun be_val :: "bytes \<Rightarrow> nat" where
  "be_val [] = 0"
| "be_val (b # bs) = unat b * 256 ^ length bs + be_val bs"

fun le_val :: "bytes \<Rightarrow> nat" where
  "le_val [] = 0"
| "le_val (b # bs) = unat b + 256 * le_val bs"

text \<open>\<^verbatim>\<open>inc_iv_byte\<close>: the argument of the loop is the part of the array from \<^verbatim>\<open>pos\<close> on.\<close>

fun inc_iv_loop :: "bool \<Rightarrow> u32 \<Rightarrow> bytes \<Rightarrow> bytes" where
  "inc_iv_loop carry cnt [] = []"
| "inc_iv_loop carry cnt (pre_iv # iv) =
     (let b = (if carry then pre_iv + 1 else pre_iv + ucast cnt)
      in if b > pre_iv then b # iv else b # inc_iv_loop True cnt iv)"

definition inc_iv_byte :: "bytes \<Rightarrow> nat \<Rightarrow> u32 \<Rightarrow> bytes" where
  "inc_iv_byte iv len cnt = inc_iv_loop False cnt (take len iv) @ drop len iv"

text \<open>\<^verbatim>\<open>inc_byte_array\<close>: the first argument of the loop is \<^verbatim>\<open>pos + 1\<close>.\<close>

fun inc_byte_loop :: "nat \<Rightarrow> bytes \<Rightarrow> bytes" where
  "inc_byte_loop 0 counter = counter"
| "inc_byte_loop (Suc pos) counter =
     (let counter = counter[pos := counter ! pos + 1]
      in if counter ! pos \<noteq> 0 then counter else inc_byte_loop pos counter)"

definition inc_byte_array :: "bytes \<Rightarrow> nat \<Rightarrow> bytes" where
  "inc_byte_array counter len = inc_byte_loop len counter"

text \<open>The macro \<^verbatim>\<open>ADD_ONE_To_64BIT_VAR\<close>; the first argument of the loop is \<^verbatim>\<open>cnt\<close> after its decrement.\<close>

fun add_one_loop :: "nat \<Rightarrow> bytes \<Rightarrow> bytes" where
  "add_one_loop 0 V = V[0 := V ! 0 + 1]"
| "add_one_loop (Suc cnt) V =
     (let V = V[Suc cnt := V ! Suc cnt + 1]
      in if V ! Suc cnt = 0 then add_one_loop cnt V else V)"

definition ADD_ONE_To_64BIT_VAR :: "bytes \<Rightarrow> bytes" where
  "ADD_ONE_To_64BIT_VAR V = add_one_loop 7 V"

fun RTMPCompareMemory :: "bytes \<Rightarrow> bytes \<Rightarrow> nat \<Rightarrow> nat" where
  "RTMPCompareMemory pMem1 pMem2 0 = 0"
| "RTMPCompareMemory pMem1 pMem2 (Suc n) =
     (if hd pMem1 > hd pMem2 then 1
      else if hd pMem1 < hd pMem2 then 2
      else RTMPCompareMemory (tl pMem1) (tl pMem2) n)"

lemma unat_u8_less: "unat (b :: u8) < 256"
  using unsigned_less [of b, where 'a = nat] by simp

lemma unat_u8_Suc: "unat (b + 1 :: u8) = (if unat b = 255 then 0 else Suc (unat b))"
  using unat_u8_less [of b] by (simp add: unat_word_ariths)

lemma u8_plus_1_eq_0: "b + 1 = (0 :: u8) \<longleftrightarrow> unat b = 255"
  unfolding unat_eq_0 [symmetric] unat_u8_Suc by simp

lemma be_val_less: "be_val bs < 256 ^ length bs"
proof (induction bs)
  case (Cons b bs)
  define p :: nat where "p = 256 ^ length bs"
  have "(unat b + 1) * p \<le> 256 * p"
    using unat_u8_less [of b] by (intro mult_le_mono1) simp
  then have "unat b * p + p \<le> 256 * p" by (simp only: distrib_right mult_1)
  moreover have "be_val (b # bs) = unat b * p + be_val bs" "256 ^ length (b # bs) = 256 * p"
    by (simp_all add: p_def)
  ultimately show ?case using Cons unfolding p_def [symmetric] by linarith
qed simp

lemma be_val_append: "be_val (xs @ ys) = be_val xs * 256 ^ length ys + be_val ys"
  by (induction xs) (simp_all add: power_add algebra_simps)

lemma add_one_loop_inc: "add_one_loop n V = inc_byte_loop (Suc n) V"
  by (induction n arbitrary: V) (simp_all add: Let_def)

lemma length_inc_byte_loop [simp]: "length (inc_byte_loop n c) = length c"
  by (induction n arbitrary: c) (simp_all add: Let_def)

lemma inc_byte_loop_append: "n \<le> length xs \<Longrightarrow> inc_byte_loop n (xs @ ys) = inc_byte_loop n xs @ ys"
  by (induction n arbitrary: xs) (simp_all add: Let_def nth_append list_update_append)

lemma be_val_inc_byte_loop: "be_val (inc_byte_loop (length c) c) = (be_val c + 1) mod 256 ^ length c"
proof (induction c rule: rev_induct)
  case (snoc b bs)
  have e: "be_val (bs @ [b]) = be_val bs * 256 + unat b" by (simp add: be_val_append)
  show ?case
  proof (cases "unat b = 255")
    case True
    then have "b + 1 = 0" by (simp add: u8_plus_1_eq_0)
    then have "inc_byte_loop (length (bs @ [b])) (bs @ [b]) = inc_byte_loop (length bs) bs @ [0]"
      by (simp add: Let_def inc_byte_loop_append)
    then have "be_val (inc_byte_loop (length (bs @ [b])) (bs @ [b])) = (be_val bs + 1) mod 256 ^ length bs * 256"
      using snoc by (simp add: be_val_append)
    also have "\<dots> = ((be_val bs + 1) * 256) mod (256 ^ length bs * 256)" by (simp add: mult_mod_left)
    finally show ?thesis using True by (simp add: e mult.commute)
  next
    case False
    then have "b + 1 \<noteq> 0" by (simp add: u8_plus_1_eq_0)
    then have "inc_byte_loop (length (bs @ [b])) (bs @ [b]) = bs @ [b + 1]" by (simp add: Let_def)
    then have "be_val (inc_byte_loop (length (bs @ [b])) (bs @ [b])) = be_val (bs @ [b]) + 1"
      using False by (simp add: be_val_append unat_u8_Suc)
    moreover have "be_val (bs @ [b + 1]) < 256 ^ length (bs @ [b])" using be_val_less [of "bs @ [b + 1]"] by simp
    ultimately show ?thesis using False by (simp add: be_val_append unat_u8_Suc)
  qed
qed simp

lemma ADD_ONE_inc_byte_array: "length V = 8 \<Longrightarrow> ADD_ONE_To_64BIT_VAR V = inc_byte_array V 8"
  by (simp add: ADD_ONE_To_64BIT_VAR_def inc_byte_array_def add_one_loop_inc)

lemma RTMPCompareMemory_be_val:
  assumes "length xs = n" and "length ys = n"
  shows "RTMPCompareMemory xs ys n = (if be_val xs > be_val ys then 1 else if be_val xs < be_val ys then 2 else 0)"
  using assms
proof (induction n arbitrary: xs ys)
  case (Suc n)
  then obtain x xs' y ys' where c: "xs = x # xs'" "ys = y # ys'" "length xs' = n" "length ys' = n"
    by (auto simp: length_Suc_conv)
  have lt: "unat a * 256 ^ n + be_val as < unat b * 256 ^ n + be_val bs" if "a < b" "length as = n" "length bs = n"
    for a b :: u8 and as bs
  proof -
    have "Suc (unat a) * 256 ^ n \<le> unat b * 256 ^ n" using that(1) by (intro mult_le_mono1) (simp add: word_less_nat_alt)
    then show ?thesis using be_val_less [of as] unfolding that(2) mult_Suc by linarith
  qed
  show ?case
    using Suc.IH [OF c(3,4)] lt [of x y xs' ys'] lt [of y x ys' xs'] c by (auto simp: not_less)
qed simp

lemma le_val_less: "le_val bs < 256 ^ length bs"
proof (induction bs)
  case (Cons b bs)
  then show ?case using unat_u8_less [of b] by simp
qed simp

lemma mod_256_digit: "x < 256 \<Longrightarrow> x + 256 * (y mod M) = (x + 256 * y) mod (256 * M :: nat)"
  by (simp add: mod_mult2_eq)

lemma le_val_inc_iv_carry: "le_val (inc_iv_loop True cnt iv) = (le_val iv + 1) mod 256 ^ length iv"
proof (induction iv)
  case (Cons b bs)
  show ?case
  proof (cases "unat b = 255")
    case True
    then have "b + 1 = 0" by (simp add: u8_plus_1_eq_0)
    then show ?thesis using Cons True mod_256_digit [of 0 "Suc (le_val bs)" "256 ^ length bs"] by (simp add: Let_def)
  next
    case False
    then have "le_val (inc_iv_loop True cnt (b # bs)) = le_val (b # bs) + 1"
      by (simp add: Let_def word_less_nat_alt unat_u8_Suc)
    moreover have "le_val ((b + 1) # bs) < 256 ^ length (b # bs)" using le_val_less [of "(b + 1) # bs"] by simp
    ultimately show ?thesis using False by (simp add: unat_u8_Suc)
  qed
qed simp

lemma le_val_inc_iv:
  assumes "1 \<le> unat cnt" and "unat cnt \<le> 256"
  shows "le_val (inc_iv_loop False cnt iv) = (le_val iv + unat cnt) mod 256 ^ length iv"
proof (cases iv)
  case (Cons b bs)
  have c: "unat (ucast cnt :: u8) = unat cnt mod 256"
    by (simp add: unsigned_ucast_eq take_bit_eq_mod)
  have b: "unat (b + ucast cnt) = (unat b + unat cnt) mod 256"
    by (simp add: unat_word_ariths c mod_simps)
  show ?thesis
  proof (cases "unat b + unat cnt < 256")
    case True
    then have "le_val (inc_iv_loop False cnt iv) = le_val iv + unat cnt"
      using assms by (simp add: Cons Let_def word_less_nat_alt b)
    moreover have "le_val ((b + ucast cnt) # bs) < 256 ^ length iv"
      using le_val_less [of "(b + ucast cnt) # bs"] by (simp add: Cons)
    ultimately show ?thesis using True by (simp add: Cons b)
  next
    case False
    define x where "x = unat b + unat cnt - 256"
    have x: "x < 256" "unat b + unat cnt = x + 256" "x \<le> unat b"
      using False assms unat_u8_less [of b] by (auto simp: x_def)
    then have "le_val (inc_iv_loop False cnt iv) = x + 256 * ((le_val bs + 1) mod 256 ^ length bs)"
      by (simp add: Cons Let_def word_less_nat_alt b le_val_inc_iv_carry)
    also have "\<dots> = (x + 256 * (le_val bs + 1)) mod 256 ^ length iv"
      by (subst mod_256_digit) (use x in \<open>simp_all add: Cons\<close>)
    also have "x + 256 * (le_val bs + 1) = le_val iv + unat cnt" using x(2) by (simp add: Cons)
    finally show ?thesis .
  qed
qed simp

section \<open>Key derivation\<close>

text \<open>
  \<^verbatim>\<open>PRF\<close>: \<open>input\<close> is the part of the allocated buffer of 1024 bytes that is in use. The result is the buffer
  \<^verbatim>\<open>output\<close> after the call, \<open>None\<close> a write behind one of the buffers.
\<close>

fun prf_loop :: "nat \<Rightarrow> bytes \<Rightarrow> nat \<Rightarrow> bytes \<Rightarrow> bytes \<Rightarrow> nat \<Rightarrow> bytes option" where
  "prf_loop 0 key key_len input output currentindex = Some output"
| "prf_loop (Suc n) key key_len input output currentindex =
     (case RT_HMAC_SHA1 key (of_nat key_len) input (of_nat (length input)) 20 of
        None \<Rightarrow> None
      | Some digest \<Rightarrow>
          if length output < currentindex + 20 then None
          else prf_loop n key key_len (input[length input - 1 := input ! (length input - 1) + 1])
                 (write_at output currentindex digest) (currentindex + 20))"

definition PRF :: "bool \<Rightarrow> bytes \<Rightarrow> nat \<Rightarrow> bytes \<Rightarrow> nat \<Rightarrow> bytes \<Rightarrow> nat \<Rightarrow> bytes \<Rightarrow> nat \<Rightarrow> bytes option" where
  "PRF al key key_len prefix prefix_len data data_len output len =
     (if \<not> al then Some output
      else if 1024 < prefix_len + 1 + data_len + 1 then None
      else prf_loop ((len + 19) div 20) key key_len
             (take prefix_len prefix @ [0] @ take data_len data @ [0]) output 0)"

text \<open>
  \<^verbatim>\<open>F\<close> and \<^verbatim>\<open>RtmpPasswordHash\<close>. A password is a string ended by a zero byte; \<open>None\<close> is a read behind it or a write behind
  the array \<^verbatim>\<open>digest\<close> of 36 bytes or the output.
\<close>

definition c_strlen :: "bytes \<Rightarrow> nat option" where
  "c_strlen s = (if 0 \<in> set s then Some (length (takeWhile (\<lambda>c. c \<noteq> 0) s)) else None)"

fun F_wpa_loop :: "nat \<Rightarrow> bytes \<Rightarrow> nat \<Rightarrow> bytes \<Rightarrow> bytes \<Rightarrow> bytes option" where
  "F_wpa_loop 0 password len digest1 output = Some output"
| "F_wpa_loop (Suc n) password len digest1 output =
     (case RT_HMAC_SHA1 password (of_nat len) digest1 20 20 of
        None \<Rightarrow> None
      | Some digest \<Rightarrow> F_wpa_loop n password len digest (write_at output 0 (xor_bytes (take 20 output) digest)))"

definition F_wpa :: "bytes \<Rightarrow> bytes \<Rightarrow> nat \<Rightarrow> nat \<Rightarrow> u32 \<Rightarrow> bytes \<Rightarrow> bytes option" where
  "F_wpa password ssid ssidlength iterations count output =
     (case c_strlen password of None \<Rightarrow> None
      | Some len \<Rightarrow>
          if 36 < ssidlength + 4 \<or> length output < 20 then None
          else
            case RT_HMAC_SHA1 password (of_nat len)
                   (take ssidlength ssid @ [ucast (drop_bit 24 count AND 0xff), ucast (drop_bit 16 count AND 0xff),
                      ucast (drop_bit 8 count AND 0xff), ucast (count AND 0xff)])
                   (of_nat (ssidlength + 4)) 20 of
              None \<Rightarrow> None
            | Some digest1 \<Rightarrow> F_wpa_loop (iterations - 1) password len digest1 (write_at output 0 digest1))"

text \<open>The function value and the output, whose two halves are written at 0 and \<^verbatim>\<open>SHA1_DIGEST_SIZE\<close>.\<close>

definition RtmpPasswordHash :: "bytes \<Rightarrow> bytes \<Rightarrow> nat \<Rightarrow> bytes \<Rightarrow> (int \<times> bytes) option" where
  "RtmpPasswordHash password ssid ssidlength output =
     (case c_strlen password of None \<Rightarrow> None
      | Some len \<Rightarrow>
          if len > 63 \<or> ssidlength > 32 then Some (0, output)
          else
            case F_wpa password ssid ssidlength 4096 1 output of None \<Rightarrow> None
            | Some output \<Rightarrow>
                case F_wpa password ssid ssidlength 4096 2 (drop 20 output) of None \<Rightarrow> None
                | Some out2 \<Rightarrow> Some (1, take 20 output @ out2))"

text \<open>\<^verbatim>\<open>KDF\<close>: \<open>input\<close> again is the part in use.\<close>

fun kdf_loop :: "nat \<Rightarrow> bytes \<Rightarrow> nat \<Rightarrow> bytes \<Rightarrow> bytes \<Rightarrow> nat \<Rightarrow> bytes option" where
  "kdf_loop 0 key key_len input output currentindex = Some output"
| "kdf_loop (Suc n) key key_len input output currentindex =
     (case RT_HMAC_SHA256 key (of_nat key_len) input (of_nat (length input)) 32 of
        None \<Rightarrow> None
      | Some digest \<Rightarrow>
          if length output < currentindex + 32 then None
          else kdf_loop n key key_len (input[0 := input ! 0 + 1]) (write_at output currentindex digest) (currentindex + 32))"

definition KDF :: "bool \<Rightarrow> bytes \<Rightarrow> nat \<Rightarrow> bytes \<Rightarrow> nat \<Rightarrow> bytes \<Rightarrow> nat \<Rightarrow> bytes \<Rightarrow> u16 \<Rightarrow> bytes option" where
  "KDF al key key_len label label_len data data_len output len =
     (let len_in_bits = push_bit 3 (ucast len :: u32)
      in if \<not> al then Some output
         else if 1024 < 2 + label_len + data_len + 2 then None
         else kdf_loop (unat ((len_in_bits + 255) div 256)) key key_len
                ([1, 0] @ take label_len label @ take data_len data @
                 [ucast (len_in_bits AND 0xFF), ucast (drop_bit 8 (len_in_bits AND 0xFF00))]) output 0)"

text \<open>
  \<^verbatim>\<open>WpaDerivePTK\<close>, with the patch for equal nonces, in whose place the larger address is used; \<open>temp\<close> has 32 bytes.
\<close>

definition ptk_prefix :: bytes where
  "ptk_prefix = map (of_nat \<circ> of_char) ''Pairwise key expansion''"

definition ptk_concatenation :: "bytes \<Rightarrow> bytes \<Rightarrow> bytes \<Rightarrow> bytes \<Rightarrow> bytes" where
  "ptk_concatenation ANonce AA SNonce SA =
     (let small = (if RTMPCompareMemory SA AA 6 = 1 then take 6 AA else take 6 SA);
          large = (if RTMPCompareMemory SA AA 6 = 1 then take 6 SA else take 6 AA);
          temp = write_at (replicate 32 0) 0 large;
          n1 = (if RTMPCompareMemory ANonce SNonce 32 = 0 then temp
                else if RTMPCompareMemory ANonce SNonce 32 = 1 then take 32 SNonce else take 32 ANonce);
          n2 = (if RTMPCompareMemory ANonce SNonce 32 = 0 then temp
                else if RTMPCompareMemory ANonce SNonce 32 = 1 then take 32 ANonce else take 32 SNonce)
      in small @ large @ n1 @ n2)"

definition WpaDerivePTK :: "bool \<Rightarrow> bytes \<Rightarrow> bytes \<Rightarrow> bytes \<Rightarrow> bytes \<Rightarrow> bytes \<Rightarrow> bytes \<Rightarrow> nat \<Rightarrow> bytes option" where
  "WpaDerivePTK al PMK ANonce AA SNonce SA output len =
     PRF al PMK 32 ptk_prefix 22 (ptk_concatenation ANonce AA SNonce SA) 76 output len"

text \<open>\<^verbatim>\<open>WpaDeriveGTK\<close>: \<open>temp\<close> is the content of the local array of 80 bytes before the call.\<close>

definition gtk_prefix :: bytes where
  "gtk_prefix = map (of_nat \<circ> of_char) ''Group key expansion''"

definition WpaDeriveGTK :: "bool \<Rightarrow> bytes \<Rightarrow> bytes \<Rightarrow> bytes \<Rightarrow> bytes \<Rightarrow> bytes \<Rightarrow> nat \<Rightarrow> bytes option" where
  "WpaDeriveGTK al temp GMK GNonce AA output len =
     (case PRF al GMK 32 gtk_prefix 19 (take 6 AA @ take 32 GNonce) 38 temp len of
        None \<Rightarrow> None
      | Some temp \<Rightarrow> if length temp < len \<or> length output < len then None else Some (write_at output 0 (take len temp)))"

text \<open>
  \<^verbatim>\<open>GenRandom\<close>: \<open>uptime i\<close> is the system time read in round \<open>i\<close>, \<open>al i\<close> whether \<^verbatim>\<open>PRF\<close> gets its memory there.
\<close>

definition counter_prefix :: bytes where
  "counter_prefix = map (of_nat \<circ> of_char) ''Init Counter''"

fun gen_random_loop :: "(nat \<Rightarrow> bool) \<Rightarrow> (nat \<Rightarrow> u64) \<Rightarrow> bytes \<Rightarrow> nat list \<Rightarrow> bytes \<Rightarrow> bytes option" where
  "gen_random_loop al uptime macAddr [] result = Some result"
| "gen_random_loop al uptime macAddr (i # is) result =
     (case PRF (al i) (replicate 32 0) 32 counter_prefix 12
             (take 6 macAddr @ store_le64 (uptime i) @ take 32 result @ take 2 (store_le32 (of_nat i))) 48 result 32 of
        None \<Rightarrow> None
      | Some result \<Rightarrow> gen_random_loop al uptime macAddr is result)"

definition GenRandom :: "(nat \<Rightarrow> bool) \<Rightarrow> (nat \<Rightarrow> u64) \<Rightarrow> bytes \<Rightarrow> bytes \<Rightarrow> bytes option" where
  "GenRandom al uptime macAddr random =
     (case gen_random_loop al uptime macAddr [0..<32] (replicate 80 0) of
        None \<Rightarrow> None
      | Some result \<Rightarrow> Some (write_at random 0 (take 32 result)))"

section \<open>Reference: IEEE 802.11i and PKCS 5\<close>

abbreviation hmac_sha1 :: "bytes \<Rightarrow> bytes \<Rightarrow> bytes" where
  "hmac_sha1 \<equiv> hmac_spec sha1_spec"

abbreviation hmac_sha256 :: "bytes \<Rightarrow> bytes \<Rightarrow> bytes" where
  "hmac_sha256 \<equiv> hmac_spec sha256_spec"

text \<open>The pseudo random function of IEEE 802.11i, 8.5.1.1, for a length in bytes.\<close>

definition prf_blocks :: "bytes \<Rightarrow> bytes \<Rightarrow> bytes \<Rightarrow> nat \<Rightarrow> bytes" where
  "prf_blocks K A B n = concat (map (\<lambda>i. hmac_sha1 K (A @ [0] @ B @ [of_nat i])) [0..<n])"

definition prf_802_11i :: "bytes \<Rightarrow> bytes \<Rightarrow> bytes \<Rightarrow> nat \<Rightarrow> bytes" where
  "prf_802_11i K A B len = take len (prf_blocks K A B ((len + 19) div 20))"

text \<open>The key derivation function of IEEE 802.11r, with \<open>i\<close> and the length in bits as 16 bit integers, low byte first.\<close>

definition le16 :: "nat \<Rightarrow> bytes" where
  "le16 n = [of_nat n, of_nat (n div 256)]"

definition kdf_blocks :: "bytes \<Rightarrow> bytes \<Rightarrow> bytes \<Rightarrow> nat \<Rightarrow> nat \<Rightarrow> bytes" where
  "kdf_blocks K label context len n =
     concat (map (\<lambda>i. hmac_sha256 K (le16 (i + 1) @ label @ context @ le16 (8 * len))) [0..<n])"

definition kdf_802_11r :: "bytes \<Rightarrow> bytes \<Rightarrow> bytes \<Rightarrow> nat \<Rightarrow> bytes" where
  "kdf_802_11r K label context len = take len (kdf_blocks K label context len ((8 * len + 255) div 256))"

text \<open>PBKDF2 of PKCS 5: block \<open>i\<close> is the XOR of \<open>c\<close> iterations.\<close>

definition pbkdf2_U :: "bytes \<Rightarrow> bytes \<Rightarrow> nat \<Rightarrow> nat \<Rightarrow> bytes" where
  "pbkdf2_U P S i j = (hmac_sha1 P ^^ j) (hmac_sha1 P (S @ store_be32 (of_nat i)))"

definition pbkdf2_T :: "bytes \<Rightarrow> bytes \<Rightarrow> nat \<Rightarrow> nat \<Rightarrow> bytes" where
  "pbkdf2_T P S c i = foldl xor_bytes (pbkdf2_U P S i 0) (map (pbkdf2_U P S i) [1..<c])"

definition pbkdf2 :: "bytes \<Rightarrow> bytes \<Rightarrow> nat \<Rightarrow> nat \<Rightarrow> bytes" where
  "pbkdf2 P S c len = take len (concat (map (\<lambda>i. pbkdf2_T P S c (i + 1)) [0..<(len + 19) div 20]))"

text \<open>The pairwise key hierarchy of IEEE 802.11i, 8.5.1.2.\<close>

definition bytes_min :: "bytes \<Rightarrow> bytes \<Rightarrow> bytes" where
  "bytes_min a b = (if be_val a \<le> be_val b then a else b)"

definition bytes_max :: "bytes \<Rightarrow> bytes \<Rightarrow> bytes" where
  "bytes_max a b = (if be_val a \<le> be_val b then b else a)"

definition ptk_802_11i :: "bytes \<Rightarrow> bytes \<Rightarrow> bytes \<Rightarrow> bytes \<Rightarrow> bytes \<Rightarrow> nat \<Rightarrow> bytes" where
  "ptk_802_11i PMK ANonce AA SNonce SPA len =
     prf_802_11i PMK ptk_prefix
       (bytes_min AA SPA @ bytes_max AA SPA @ bytes_min ANonce SNonce @ bytes_max ANonce SNonce) len"

section \<open>Correctness of the derivations\<close>

lemma length_hmac_sha1 [simp]: "length (hmac_sha1 K m) = 20"
  by (simp add: hmac_spec_def Let_def sha1_module.length_H)

lemma length_hmac_sha256 [simp]: "length (hmac_sha256 K m) = 32"
  by (simp add: hmac_spec_def Let_def sha256_module.length_H)

lemma RT_HMAC_SHA1_ok:
  assumes "length K + 64 \<le> 2 ^ 32" and "length m + 64 \<le> 2 ^ 32"
  shows "RT_HMAC_SHA1 K (of_nat (length K)) m (of_nat (length m)) 20 = Some (hmac_sha1 K m)"
  using sha1_module.rt_hmac_spec [OF assms, of 20] by (simp add: RT_HMAC_SHA1_def)

lemma RT_HMAC_SHA256_ok:
  assumes "length K + 64 \<le> 2 ^ 32" and "length m + 64 \<le> 2 ^ 32"
  shows "RT_HMAC_SHA256 K (of_nat (length K)) m (of_nat (length m)) 32 = Some (hmac_sha256 K m)"
  using sha256_module.rt_hmac_spec [OF assms, of 32] by (simp add: RT_HMAC_SHA256_def)

lemma write_at_adjacent:
  "off + length ys + length zs \<le> length xs \<Longrightarrow> o2 = off + length ys \<Longrightarrow>
   write_at (write_at xs off ys) o2 zs = write_at xs off (ys @ zs)"
  by (simp add: write_at_write_at_adjacent)

lemma prf_loop_blocks:
  assumes "length K + 64 \<le> 2 ^ 32" and "length pre + 65 \<le> 2 ^ 32" and "cur + 20 * n \<le> length out"
  shows "prf_loop n K (length K) (pre @ [b]) out cur =
    Some (write_at out cur (concat (map (\<lambda>i. hmac_sha1 K (pre @ [b + of_nat i])) [0..<n])))"
  using assms(3)
proof (induction n arbitrary: b out cur)
  case (Suc n)
  let ?h = "\<lambda>b i. hmac_sha1 K (pre @ [b + of_nat i])"
  have len: "length (concat (map (?h (b + 1)) [0..<n])) = 20 * n"
    by (simp add: length_concat comp_def sum_list_triv)
  have hm: "RT_HMAC_SHA1 K (of_nat (length K)) (pre @ [b]) (of_nat (Suc (length pre))) 20 = Some (hmac_sha1 K (pre @ [b]))"
    using RT_HMAC_SHA1_ok [OF assms(1), of "pre @ [b]"] assms(2) by simp
  have sh: "map (?h b) [0..<Suc n] = ?h b 0 # map (?h (b + 1)) [0..<n]"
    by (simp add: map_upt_Suc add.assoc del: upt_Suc)
  have "prf_loop (Suc n) K (length K) (pre @ [b]) out cur =
      prf_loop n K (length K) (pre @ [b + 1]) (write_at out cur (hmac_sha1 K (pre @ [b]))) (cur + 20)"
    using Suc.prems hm by (simp add: list_update_append del: of_nat_Suc)
  also have "\<dots> = Some (write_at (write_at out cur (hmac_sha1 K (pre @ [b]))) (cur + 20) (concat (map (?h (b + 1)) [0..<n])))"
    using Suc.prems by (intro Suc.IH) simp
  also have "\<dots> = Some (write_at out cur (concat (map (?h b) [0..<Suc n])))"
    unfolding sh using Suc.prems by (simp add: write_at_adjacent len del: upt_Suc)
  finally show ?case .
qed simp

lemma length_prf_blocks [simp]: "length (prf_blocks K A B n) = 20 * n"
  by (simp add: prf_blocks_def length_concat comp_def sum_list_triv)

lemma PRF_ok:
  assumes "length K + 64 \<le> 2 ^ 32" and "length A + length B \<le> 1022" and "20 * ((len + 19) div 20) \<le> length out"
  shows "PRF True K (length K) A (length A) B (length B) out len = Some (write_at out 0 (prf_blocks K A B ((len + 19) div 20)))"
  using prf_loop_blocks [OF assms(1), of "A @ [0] @ B" 0 "(len + 19) div 20" out 0] assms
  by (simp add: PRF_def prf_blocks_def)

lemma PRF_802_11i:
  assumes "length K + 64 \<le> 2 ^ 32" and "length A + length B \<le> 1022" and "20 * ((len + 19) div 20) \<le> length out"
  shows "\<exists>out'. PRF True K (length K) A (length A) B (length B) out len = Some out' \<and> length out' = length out \<and>
    take len out' = prf_802_11i K A B len"
proof -
  have "len \<le> 20 * ((len + 19) div 20)" by simp
  then have "take len (write_at out 0 (prf_blocks K A B ((len + 19) div 20))) = prf_802_11i K A B len"
    by (simp add: write_at_def prf_802_11i_def)
  then show ?thesis using PRF_ok [OF assms] assms(3) by simp
qed

lemma kdf_loop_blocks:
  assumes "length K + 64 \<le> 2 ^ 32" and "length rest + 66 \<le> 2 ^ 32" and "cur + 32 * n \<le> length out"
  shows "kdf_loop n K (length K) (b # rest) out cur =
    Some (write_at out cur (concat (map (\<lambda>i. hmac_sha256 K ((b + of_nat i) # rest)) [0..<n])))"
  using assms(3)
proof (induction n arbitrary: b out cur)
  case (Suc n)
  let ?h = "\<lambda>b i. hmac_sha256 K ((b + of_nat i) # rest)"
  have len: "length (concat (map (?h (b + 1)) [0..<n])) = 32 * n"
    by (simp add: length_concat comp_def sum_list_triv)
  have hm: "RT_HMAC_SHA256 K (of_nat (length K)) (b # rest) (of_nat (Suc (length rest))) 32 = Some (hmac_sha256 K (b # rest))"
    using RT_HMAC_SHA256_ok [OF assms(1), of "b # rest"] assms(2) by simp
  have sh: "map (?h b) [0..<Suc n] = ?h b 0 # map (?h (b + 1)) [0..<n]"
    by (simp add: map_upt_Suc add.assoc del: upt_Suc)
  have "kdf_loop (Suc n) K (length K) (b # rest) out cur =
      kdf_loop n K (length K) ((b + 1) # rest) (write_at out cur (hmac_sha256 K (b # rest))) (cur + 32)"
    using Suc.prems hm by (simp del: of_nat_Suc)
  also have "\<dots> = Some (write_at (write_at out cur (hmac_sha256 K (b # rest))) (cur + 32) (concat (map (?h (b + 1)) [0..<n])))"
    using Suc.prems by (intro Suc.IH) simp
  also have "\<dots> = Some (write_at out cur (concat (map (?h b) [0..<Suc n])))"
    unfolding sh using Suc.prems by (simp add: write_at_adjacent len del: upt_Suc)
  finally show ?case .
qed simp

lemma kdf_length_bytes:
  fixes len :: u16
  defines "bits \<equiv> push_bit 3 (ucast len :: u32)"
  shows "unat bits = 8 * unat len" and "unat ((bits + 255) div 256) = (8 * unat len + 255) div 256"
    and "[ucast (bits AND 0xFF), ucast (drop_bit 8 (bits AND 0xFF00))] = le16 (8 * unat len)"
proof -
  have l: "unat len < 65536" using unsigned_less [of len, where 'a = nat] by simp
  have "unat (ucast len :: u32) = unat len" using l by (simp add: unsigned_ucast_eq take_bit_nat_eq_self)
  then show u: "unat bits = 8 * unat len"
    using l by (simp add: bits_def push_bit_eq_mult unat_word_ariths)
  then show "unat ((bits + 255) div 256) = (8 * unat len + 255) div 256"
    using l by (simp add: unat_div unat_word_ariths)
  have "unat (drop_bit 8 bits) = unat bits div 256"
    by (simp add: drop_bit_eq_div unat_div)
  then have "(of_nat (unat bits div 256) :: u8) = ucast (drop_bit 8 bits)"
    by (metis of_nat_unat)
  moreover have "(ucast (bits AND 0xFF) :: u8) = ucast bits" "(ucast (drop_bit 8 (bits AND 0xFF00)) :: u8) = ucast (drop_bit 8 bits)"
    unfolding byte_masks by (auto intro!: bit_word_eqI simp: bit_simps)
  moreover have "(of_nat (unat bits) :: u8) = ucast bits" by simp
  ultimately show "[ucast (bits AND 0xFF), ucast (drop_bit 8 (bits AND 0xFF00))] = le16 (8 * unat len)"
    unfolding le16_def u [symmetric] by simp
qed

lemma KDF_802_11r:
  assumes "length K + 64 \<le> 2 ^ 32" and "length label + length ctxt \<le> 1020" and "unat len \<le> 8160"
    and "32 * ((8 * unat len + 255) div 256) \<le> length out"
  shows "\<exists>out'. KDF True K (length K) label (length label) ctxt (length ctxt) out len = Some out' \<and>
    length out' = length out \<and> take (unat len) out' = kdf_802_11r K label ctxt (unat len)"
proof -
  let ?n = "(8 * unat len + 255) div 256"
  let ?rest = "0 # label @ ctxt @ le16 (8 * unat len)"
  have n: "?n \<le> 255" using assms(3) by simp
  have "le16 (i + 1) = [1 + of_nat i, 0]" if "i < ?n" for i
    using that n by (simp add: le16_def)
  then have blocks: "map (\<lambda>i. hmac_sha256 K ((1 + of_nat i) # ?rest)) [0..<?n] =
      map (\<lambda>i. hmac_sha256 K (le16 (i + 1) @ label @ ctxt @ le16 (8 * unat len))) [0..<?n]"
    by (intro map_cong) simp_all
  have k: "KDF True K (length K) label (length label) ctxt (length ctxt) out len =
      kdf_loop ?n K (length K) (1 # ?rest) out 0"
    using assms(2) kdf_length_bytes [of len] by (simp add: KDF_def Let_def)
  have "length ?rest + 66 \<le> 2 ^ 32" using assms(2) by (simp add: le16_def)
  from kdf_loop_blocks [OF assms(1) this, of 0 ?n out 1] assms(4)
  have r: "kdf_loop ?n K (length K) (1 # ?rest) out 0 = Some (write_at out 0 (kdf_blocks K label ctxt (unat len) ?n))"
    unfolding kdf_blocks_def blocks by simp
  have l: "length (kdf_blocks K label ctxt (unat len) ?n) = 32 * ?n"
    by (simp add: kdf_blocks_def length_concat comp_def sum_list_triv)
  have "unat len \<le> 32 * ?n" by simp
  then have "take (unat len) (write_at out 0 (kdf_blocks K label ctxt (unat len) ?n)) = kdf_802_11r K label ctxt (unat len)"
    using l by (simp add: write_at_def kdf_802_11r_def)
  then show ?thesis using k r l assms(4) by simp
qed

lemma write_at_take: "n \<le> length xs \<Longrightarrow> write_at xs 0 (take n xs) = xs"
  using write_at_read_at [of 0 n xs] by simp

lemma foldl_xor_length:
  "length x = n \<Longrightarrow> \<forall>y \<in> set ys. length y = n \<Longrightarrow> length (foldl xor_bytes x ys) = n"
  by (induction ys arbitrary: x) simp_all

lemma length_hmac_funpow: "length u = 20 \<Longrightarrow> length ((hmac_sha1 P ^^ j) u) = 20"
  by (cases j) simp_all

lemma F_wpa_loop_xor:
  assumes "length P + 64 \<le> 2 ^ 32" and "length P = n" and "length u = 20" and "20 \<le> length out" 
    and "RT_HMAC_SHA1 pw (of_nat n) = RT_HMAC_SHA1 P (of_nat n)"
  shows "F_wpa_loop k pw n u out =
    Some (write_at out 0 (foldl xor_bytes (take 20 out) (map (\<lambda>j. (hmac_sha1 P ^^ j) u) [1..<Suc k])))"
  using assms(3,4)
proof (induction k arbitrary: u out)
  case (Suc k)
  let ?v = "hmac_sha1 P u"
  have hm: "RT_HMAC_SHA1 pw (of_nat n) u 20 20 = Some ?v"
    using RT_HMAC_SHA1_ok [OF assms(1), of u] assms(2,5) Suc.prems by simp
  have sh: "map (\<lambda>j. (hmac_sha1 P ^^ j) u) [1..<Suc (Suc k)] = ?v # map (\<lambda>j. (hmac_sha1 P ^^ j) ?v) [1..<Suc k]"
    by (subst upt_conv_Cons) (simp_all add: map_Suc_upt [symmetric] funpow_swap1 comp_def del: upt_Suc)
  have "F_wpa_loop (Suc k) pw n u out = F_wpa_loop k pw n ?v (write_at out 0 (xor_bytes (take 20 out) ?v))"
    by (simp add: hm)
  also have "\<dots> = Some (write_at (write_at out 0 (xor_bytes (take 20 out) ?v)) 0
      (foldl xor_bytes (take 20 (write_at out 0 (xor_bytes (take 20 out) ?v))) (map (\<lambda>j. (hmac_sha1 P ^^ j) ?v) [1..<Suc k])))"
    using Suc.prems by (intro Suc.IH) simp_all
  also have "\<dots> = Some (write_at out 0 (foldl xor_bytes (take 20 out) (map (\<lambda>j. (hmac_sha1 P ^^ j) u) [1..<Suc (Suc k)])))"
    unfolding sh using Suc.prems 
    by (subst write_at_same) (simp_all add: take_write_at foldl_xor_length length_hmac_funpow del: upt_Suc)
  finally show ?case .
qed (simp add: write_at_take)

lemma RT_HMAC_SHA1_take:
  assumes "length P \<le> 64" and "take (length P) pw = P"
  shows "RT_HMAC_SHA1 pw (of_nat (length P)) = RT_HMAC_SHA1 P (of_nat (length P))"
proof -
  have "unat (of_nat (length P) :: u32) = length P" using assms(1) by (simp add: unat_of_nat)
  then show ?thesis
    using assms by (intro ext) (simp add: RT_HMAC_SHA1_def rt_hmac_def word_le_nat_alt)
qed

lemma count_bytes:
  "[ucast (drop_bit 24 count AND 0xff), ucast (drop_bit 16 count AND 0xff),
    ucast (drop_bit 8 count AND 0xff), ucast (count AND 0xff)] = store_be32 count"
  unfolding store_be32_def byte_masks by (auto intro!: bit_word_eqI simp: bit_simps)

lemma length_pbkdf2_T [simp]: "length (pbkdf2_T P S c i) = 20"
  unfolding pbkdf2_T_def by (rule foldl_xor_length) (auto simp: pbkdf2_U_def length_hmac_funpow)

lemma c_strlen_string:
  assumes "0 \<notin> set P"
  shows "c_strlen (P @ 0 # junk) = Some (length P)"
proof -
  have "takeWhile (\<lambda>c. c \<noteq> 0) (P @ 0 # junk) = P"
    using assms by (subst takeWhile_append2) auto
  then show ?thesis by (simp add: c_strlen_def)
qed

lemma F_wpa_pbkdf2:
  assumes "0 \<notin> set P" and "length P \<le> 63" and "n \<le> 32" and "n \<le> length ssid" and "20 \<le> length out" and "0 < c"
  shows "F_wpa (P @ 0 # junk) ssid n c (of_nat i) out = Some (write_at out 0 (pbkdf2_T P (take n ssid) c i))"
proof -
  let ?pw = "P @ 0 # junk" and ?u = "hmac_sha1 P (take n ssid @ store_be32 (of_nat i))"
  have l: "c_strlen ?pw = Some (length P)"
    by (rule c_strlen_string [OF assms(1)])
  have k: "RT_HMAC_SHA1 ?pw (of_nat (length P)) = RT_HMAC_SHA1 P (of_nat (length P))"
    using assms(2) by (intro RT_HMAC_SHA1_take) simp_all
  have s: "length (take n ssid @ store_be32 (of_nat i)) = n + 4" using assms(4) by simp
  have h: "RT_HMAC_SHA1 P (of_nat (length P)) (take n ssid @ store_be32 (of_nat i)) (of_nat (n + 4)) 20 = Some ?u"
    using RT_HMAC_SHA1_ok [of P "take n ssid @ store_be32 (of_nat i)"] assms(2,3) unfolding s by simp
  have "F_wpa ?pw ssid n c (of_nat i) out = F_wpa_loop (c - 1) ?pw (length P) ?u (write_at out 0 ?u)"
    unfolding F_wpa_def count_bytes l option.case k h using assms(3,5) by simp
  also have "\<dots> = Some (write_at (write_at out 0 ?u) 0 (pbkdf2_T P (take n ssid) c i))"
    using F_wpa_loop_xor [of P "length P" ?u "write_at out 0 ?u" ?pw "c - 1"] k assms
    by (simp add: take_write_at pbkdf2_T_def pbkdf2_U_def [abs_def] del: upt_Suc)
  also have "\<dots> = Some (write_at out 0 (pbkdf2_T P (take n ssid) c i))"
    using assms(5) by (subst write_at_same) simp_all
  finally show ?thesis .
qed

lemma be_val_inj: "length a = length b \<Longrightarrow> be_val a = be_val b \<Longrightarrow> a = b"
proof (induction a b rule: list_induct2)
  case (Cons x xs y ys)
  have p: "be_val xs < 256 ^ length ys" "be_val ys < 256 ^ length ys"
    using be_val_less [of xs] be_val_less [of ys] Cons(1) by simp_all
  have e: "unat x * 256 ^ length ys + be_val xs = unat y * 256 ^ length ys + be_val ys"
    using Cons by simp
  from arg_cong [OF e, of "\<lambda>n. n div 256 ^ length ys"] arg_cong [OF e, of "\<lambda>n. n mod 256 ^ length ys"] p
  have "unat x = unat y" "be_val xs = be_val ys" by simp_all
  then show ?case using Cons.IH by (simp add: word_unat_eq_iff)
qed simp

lemma ptk_concatenation_min_max:
  assumes "length AA = 6" and "length SA = 6" and "length ANonce = 32" and "length SNonce = 32" and "ANonce \<noteq> SNonce"
  shows "ptk_concatenation ANonce AA SNonce SA =
    bytes_min AA SA @ bytes_max AA SA @ bytes_min ANonce SNonce @ bytes_max ANonce SNonce"
proof -
  have "be_val ANonce \<noteq> be_val SNonce" using be_val_inj assms by metis
  then show ?thesis
    using be_val_inj [of AA SA] assms
    by (auto simp: ptk_concatenation_def Let_def RTMPCompareMemory_be_val bytes_min_def bytes_max_def)
qed

lemma ptk_concatenation_swap:
  assumes "length AA = 6" and "length SA = 6" and "length ANonce = 32" and "length SNonce = 32"
  shows "ptk_concatenation SNonce SA ANonce AA = ptk_concatenation ANonce AA SNonce SA"
  using be_val_inj [of AA SA] be_val_inj [of ANonce SNonce] assms
  by (auto simp: ptk_concatenation_def Let_def RTMPCompareMemory_be_val)

lemma length_ptk_concatenation:
  assumes "length AA = 6" and "length SA = 6" and "length ANonce = 32" and "length SNonce = 32"
  shows "length (ptk_concatenation ANonce AA SNonce SA) = 76"
  using assms by (simp add: ptk_concatenation_def Let_def)

lemma length_prefixes: "length ptk_prefix = 22" "length gtk_prefix = 19" "length counter_prefix = 12"
  by (simp_all add: ptk_prefix_def gtk_prefix_def counter_prefix_def)

lemma WpaDeriveGTK_802_11i:
  assumes "length GMK = 32" and "length GNonce = 32" and "length AA = 6" and "length temp = 80" and "len \<le> 80" and "len \<le> length out"
  shows "WpaDeriveGTK True temp GMK GNonce AA out len =
    Some (write_at out 0 (prf_802_11i GMK gtk_prefix (AA @ GNonce) len))"
proof -
  have "20 * ((len + 19) div 20) \<le> length temp" using assms(4,5) by simp
  then obtain out' where "PRF True GMK 32 gtk_prefix 19 (AA @ GNonce) 38 temp len = Some out'"
      "length out' = 80" "take len out' = prf_802_11i GMK gtk_prefix (AA @ GNonce) len"
    using PRF_802_11i [of GMK gtk_prefix "AA @ GNonce" len temp] assms by (auto simp: length_prefixes)
  then show ?thesis using assms by (simp add: WpaDeriveGTK_def)
qed

lemma gen_random_loop_total:
  assumes "alloc_ok al" and "length macAddr = 6" and "length result = 80"
  shows "\<exists>result'. gen_random_loop al uptime macAddr is result = Some result' \<and> length result' = 80"
  using assms(3)
proof (induction "is" arbitrary: result)
  case (Cons i "is")
  let ?d = "macAddr @ store_le64 (uptime i) @ take 32 result @ take 2 (store_le32 (of_nat i))"
  have "length ?d = 48" using Cons.prems assms(2) by simp
  then obtain r where "PRF True (replicate 32 0) 32 counter_prefix 12 ?d 48 result 32 = Some r" "length r = 80"
    using PRF_802_11i [of "replicate 32 0" counter_prefix ?d 32 result] Cons.prems by (auto simp: length_prefixes)
  then show ?case using Cons.IH [of r] assms by simp
qed simp

lemma GenRandom_total:
  assumes "alloc_ok al" and "length macAddr = 6" and "length random = 32"
  shows "\<exists>nonce. GenRandom al uptime macAddr random = Some nonce \<and> length nonce = 32"
proof -
  obtain r where "gen_random_loop al uptime macAddr [0..<32] (replicate 80 0) = Some r" "length r = 80"
    using gen_random_loop_total [OF assms(1,2), of "replicate 80 0" uptime "[0..<32]"] by auto
  then show ?thesis using assms(3) by (simp add: GenRandom_def del: upt_rec_numeral)
qed

lemma WpaDerivePTK_ok:
  assumes "length PMK = 32" and "length AA = 6" and "length SA = 6" and "length ANonce = 32" and "length SNonce = 32"
    and "len \<le> 80" and "length out = 80"
  shows "\<exists>ptk. WpaDerivePTK True PMK ANonce AA SNonce SA out len = Some ptk \<and> length ptk = 80 \<and>
    (ANonce \<noteq> SNonce \<longrightarrow> take len ptk = ptk_802_11i PMK ANonce AA SNonce SA len) \<and>
    WpaDerivePTK True PMK SNonce SA ANonce AA out len = Some ptk"
proof -
  have "20 * ((len + 19) div 20) \<le> length out" using assms(6,7) by simp
  then obtain ptk where "WpaDerivePTK True PMK ANonce AA SNonce SA out len = Some ptk" "length ptk = 80"
      "take len ptk = prf_802_11i PMK ptk_prefix (ptk_concatenation ANonce AA SNonce SA) len"
    using PRF_802_11i [of PMK ptk_prefix "ptk_concatenation ANonce AA SNonce SA" len out] assms
    by (auto simp: WpaDerivePTK_def length_prefixes length_ptk_concatenation)
  moreover from this(1) have "WpaDerivePTK True PMK SNonce SA ANonce AA out len = Some ptk"
    using assms(2-5) by (simp add: WpaDerivePTK_def ptk_concatenation_swap)
  ultimately show ?thesis
    using assms(2-5) by (auto simp: ptk_802_11i_def ptk_concatenation_min_max)
qed

section \<open>Properties\<close>

text \<open>
  (C13) \<^verbatim>\<open>RtmpPasswordHash\<close> is PBKDF2 with HMAC-SHA1 and 4096 iterations: for a passphrase of at most 63 characters and an SSID of at
  most 32 bytes it stores the 40 bytes of the first two blocks, whose first 32 are the pre-shared key, and returns 1; for longer
  ones it returns 0 and leaves the output as it was.
\<close>

theorem RtmpPasswordHash_pbkdf2:
  assumes "0 \<notin> set P" and "n \<le> length ssid" and "40 \<le> length out"
  shows "RtmpPasswordHash (P @ 0 # junk) ssid n out =
    Some (if length P \<le> 63 \<and> n \<le> 32 then (1, pbkdf2 P (take n ssid) 4096 40 @ drop 40 out) else (0, out))"
proof (cases "length P \<le> 63 \<and> n \<le> 32")
  case True
  let ?T = "pbkdf2_T P (take n ssid) 4096"
  have f1: "F_wpa (P @ 0 # junk) ssid n 4096 1 out = Some (write_at out 0 (?T 1))"
    using F_wpa_pbkdf2 [of P n ssid out 4096 junk 1] True assms by simp
  have f2: "F_wpa (P @ 0 # junk) ssid n 4096 2 (drop 20 (write_at out 0 (?T 1))) =
      Some (write_at (drop 20 (write_at out 0 (?T 1))) 0 (?T 2))"
    using F_wpa_pbkdf2 [of P n ssid "drop 20 (write_at out 0 (?T 1))" 4096 junk 2] True assms by simp
  have "pbkdf2 P (take n ssid) 4096 40 = ?T 1 @ ?T 2"
    by (simp add: pbkdf2_def numeral_2_eq_2)
  then show ?thesis
    using True assms(3) f1 f2 by (simp add: RtmpPasswordHash_def c_strlen_string [OF assms(1)] write_at_def)
qed (auto simp: RtmpPasswordHash_def c_strlen_string [OF assms(1)])

theorem RtmpPasswordHash_pbkdf2_witness:
  "RtmpPasswordHash [0x70, 0x61, 0x73, 0x73, 0] [0x61, 0x70] 2 (replicate 40 0) =
     Some (1, pbkdf2 [0x70, 0x61, 0x73, 0x73] [0x61, 0x70] 4096 40)"
  using RtmpPasswordHash_pbkdf2 [of "[0x70, 0x61, 0x73, 0x73]" 2 "[0x61, 0x70]" "replicate 40 0" "[]"] by simp



end
