(* ===== verification/Arc4.thy ===== *)
theory Arc4
  imports Wlan_Prelude "HOL-Library.Multiset"
begin

text \<open>
  The ARC4 stream cipher, \<^verbatim>\<open>common/crypt_arc4.c\<close>: key schedule, key stream and the
  discarding of key stream. The context \<^verbatim>\<open>ARC4_CTX_STRUC\<close> (\<^verbatim>\<open>include/crypt_arc4.h\<close>)
  is the record \<open>arc4_ctx\<close>. Buffers are offsets into one memory, since the callers
  decrypt in place with overlapping source and destination.

  The interface locale \<open>stream_cipher\<close> states what WEP and TKIP rely on: a byte loop
  that XORs the next key stream byte onto each input byte. It is interpreted on
  \<open>ARC4_Compute\<close>.
\<close>

section \<open>Data\<close>

record arc4_ctx =
  BlockIndex1 :: u32
  BlockIndex2 :: u32
  KeyBlock :: bytes

abbreviation ARC4_KEY_BLOCK_SIZE :: nat where
  "ARC4_KEY_BLOCK_SIZE \<equiv> 256"

section \<open>Operations\<close>

text \<open>One iteration of the key schedule loop of \<^verbatim>\<open>ARC4_INIT\<close>.\<close>

definition arc4_key_schedule_step :: "bytes \<Rightarrow> nat \<Rightarrow> nat \<Rightarrow> u32 \<times> bytes \<Rightarrow> u32 \<times> bytes" where
  "arc4_key_schedule_step pKey KeyLength BlockIndex s =
     (let (SWAPIndex, kb) = s;
          TempValue = kb ! BlockIndex;
          KeyIndex = BlockIndex mod KeyLength;
          SWAPIndex' = (SWAPIndex + ucast TempValue + ucast (pKey ! KeyIndex)) AND 0xff;
          kb1 = kb[BlockIndex := kb ! unat SWAPIndex']
      in (SWAPIndex', kb1[unat SWAPIndex' := TempValue]))"

text \<open>
  \<^verbatim>\<open>ARC4_INIT\<close>. \<open>None\<close> is the division trap of \<^verbatim>\<open>BlockIndex % KeyLength\<close> for an
  empty key.
\<close>

definition ARC4_INIT :: "bytes \<Rightarrow> nat \<Rightarrow> arc4_ctx option" where
  "ARC4_INIT pKey KeyLength =
     (if KeyLength = 0 then None
      else Some \<lparr>BlockIndex1 = 0, BlockIndex2 = 0,
             KeyBlock = snd (fold (arc4_key_schedule_step pKey KeyLength) [0..<ARC4_KEY_BLOCK_SIZE]
                              (0, map of_nat [0..<ARC4_KEY_BLOCK_SIZE]))\<rparr>)"

text \<open>The index update and swap that \<^verbatim>\<open>ARC4_Compute\<close> and \<^verbatim>\<open>ARC4_Discard_KeyLength\<close> share;
  it also returns the value of \<^verbatim>\<open>TempValue\<close>.\<close>

definition arc4_swap :: "arc4_ctx \<Rightarrow> arc4_ctx \<times> u8" where
  "arc4_swap c =
     (let i = (BlockIndex1 c + 1) AND 0xff;
          TempValue = KeyBlock c ! unat i;
          j = (BlockIndex2 c + ucast TempValue) AND 0xff;
          kb1 = (KeyBlock c)[unat i := KeyBlock c ! unat j];
          kb2 = kb1[unat j := TempValue]
      in (\<lparr>BlockIndex1 = i, BlockIndex2 = j, KeyBlock = kb2\<rparr>, TempValue))"

text \<open>One iteration of \<^verbatim>\<open>ARC4_Compute\<close>: the new context and the key stream byte. The
  addition is on \<^verbatim>\<open>UINT8\<close>, so the \<^verbatim>\<open>& 0xff\<close> of the source is the wrap-around.\<close>

definition arc4_next :: "arc4_ctx \<Rightarrow> arc4_ctx \<times> u8" where
  "arc4_next c =
     (let (c', TempValue) = arc4_swap c;
          t = TempValue + KeyBlock c' ! unat (BlockIndex1 c')
      in (c', KeyBlock c' ! unat t))"

text \<open>\<^verbatim>\<open>ARC4_Compute\<close> on a memory: \<open>InputBlock\<close> and \<open>OutputBlock\<close> are offsets.\<close>

fun ARC4_Compute :: "arc4_ctx \<Rightarrow> bytes \<Rightarrow> nat \<Rightarrow> nat \<Rightarrow> nat \<Rightarrow> arc4_ctx \<times> bytes" where
  "ARC4_Compute c mem InputBlock 0 OutputBlock = (c, mem)"
| "ARC4_Compute c mem InputBlock (Suc n) OutputBlock =
     (let (c', k) = arc4_next c
      in ARC4_Compute c' (mem[OutputBlock := (mem ! InputBlock) XOR k]) (Suc InputBlock) n (Suc OutputBlock))"

fun ARC4_Discard_KeyLength :: "arc4_ctx \<Rightarrow> nat \<Rightarrow> arc4_ctx" where
  "ARC4_Discard_KeyLength c 0 = c"
| "ARC4_Discard_KeyLength c (Suc n) = ARC4_Discard_KeyLength (fst (arc4_swap c)) n"

section \<open>The stream cipher interface\<close>

text \<open>The key stream a byte generator produces from a state, and the state after it.\<close>

fun keystream :: "('s \<Rightarrow> 's \<times> u8) \<Rightarrow> 's \<Rightarrow> nat \<Rightarrow> bytes" where
  "keystream nx s 0 = []"
| "keystream nx s (Suc n) = snd (nx s) # keystream nx (fst (nx s)) n"

fun keystream_state :: "('s \<Rightarrow> 's \<times> u8) \<Rightarrow> 's \<Rightarrow> nat \<Rightarrow> 's" where
  "keystream_state nx s 0 = s"
| "keystream_state nx s (Suc n) = keystream_state nx (fst (nx s)) n"

lemma length_keystream [simp]: "length (keystream nx s n) = n"
  by (induction n arbitrary: s) simp_all

lemma keystream_add:
  "keystream nx s (m + n) = keystream nx s m @ keystream nx (keystream_state nx s m) n"
  by (induction m arbitrary: s) simp_all

lemma keystream_state_add:
  "keystream_state nx s (m + n) = keystream_state nx (keystream_state nx s m) n"
  by (induction m arbitrary: s) simp_all

lemma take_keystream: "m \<le> n \<Longrightarrow> take m (keystream nx s n) = keystream nx s m"
  using keystream_add [of nx s m "n - m"] by simp

locale stream_cipher =
  fixes next_byte :: "'s \<Rightarrow> 's \<times> u8"
    and compute :: "'s \<Rightarrow> bytes \<Rightarrow> nat \<Rightarrow> nat \<Rightarrow> nat \<Rightarrow> 's \<times> bytes"
  assumes compute_0: "compute s mem src 0 dst = (s, mem)"
    and compute_Suc: "compute s mem src (Suc n) dst =
      compute (fst (next_byte s)) (mem[dst := (mem ! src) XOR snd (next_byte s)]) (Suc src) n (Suc dst)"
begin

lemma compute_xor_copy:
  "compute s mem src n dst =
     (keystream_state next_byte s n, xor_copy mem src dst (keystream next_byte s n))"
  by (induction n arbitrary: s mem src dst) (simp_all add: compute_0 compute_Suc)

text \<open>The functional behaviour, also where the two buffers overlap.\<close>

lemma compute_write_at:
  assumes "dst \<le> src \<or> src + n \<le> dst" and "src + n \<le> length mem" and "dst + n \<le> length mem"
  shows "compute s mem src n dst =
    (keystream_state next_byte s n,
     write_at mem dst (xor_bytes (read_at src n mem) (keystream next_byte s n)))"
  using assms by (simp add: compute_xor_copy xor_copy_write_at)

text \<open>Running the cipher twice from the same state, in place, gives the plain text back.\<close>

lemma compute_involution:
  assumes "n \<le> length mem"
  shows "snd (compute s (snd (compute s mem 0 n 0)) 0 n 0) = mem"
proof -
  have 1: "snd (compute s mem 0 n 0) = xor_bytes (take n mem) (keystream next_byte s n) @ drop n mem"
    using assms by (simp add: compute_write_at write_at_def)
  show ?thesis
    using assms by (simp add: 1 compute_write_at write_at_def)
qed

text \<open>Splitting a buffer into two calls changes nothing: the context carries the position.\<close>

lemma compute_split:
  "compute s mem src (m + n) dst =
     (let (s', mem') = compute s mem src m dst in compute s' mem' (src + m) n (dst + m))"
  by (induction m arbitrary: s mem src dst) (simp_all add: compute_0 compute_Suc)

end

interpretation arc4: stream_cipher arc4_next ARC4_Compute
  by unfold_locales (simp_all add: split_beta)

section \<open>Permutation invariant\<close>

definition arc4_wf :: "arc4_ctx \<Rightarrow> bool" where
  "arc4_wf c \<longleftrightarrow> unat (BlockIndex1 c) < ARC4_KEY_BLOCK_SIZE \<and> unat (BlockIndex2 c) < ARC4_KEY_BLOCK_SIZE \<and>
     mset (KeyBlock c) = mset (map of_nat [0..<ARC4_KEY_BLOCK_SIZE])"

lemma unat_and_ff [simp]: "unat ((x :: u32) AND 0xff) < 256"
proof -
  have "x AND 0xff \<le> 0xff" by (rule word_and_le1)
  then show ?thesis by (simp add: word_le_nat_alt)
qed

lemma arc4_swap_wf:
  assumes "arc4_wf c"
  shows "arc4_wf (fst (arc4_swap c))"
proof -
  have "length (KeyBlock c) = length (map of_nat [0..<256] :: bytes)"
    by (rule mset_eq_length) (use assms in \<open>simp only: arc4_wf_def\<close>)
  then have "length (KeyBlock c) = 256" by simp
  then show ?thesis
    using assms by (simp add: arc4_wf_def arc4_swap_def Let_def mset_swap)
qed

lemma arc4_next_wf: "arc4_wf c \<Longrightarrow> arc4_wf (fst (arc4_next c))"
  using arc4_swap_wf by (simp add: arc4_next_def Let_def split_beta)

lemma arc4_key_schedule_step_mset:
  assumes "BlockIndex < 256" and "length (snd s) = 256"
  shows "mset (snd (arc4_key_schedule_step pKey KeyLength BlockIndex s)) = mset (snd s)"
  using assms by (simp add: arc4_key_schedule_step_def Let_def split_beta mset_swap)

lemma arc4_key_schedule_mset:
  assumes "set is \<subseteq> {..<256}" and "length (snd s) = 256"
  shows "mset (snd (fold (arc4_key_schedule_step pKey KeyLength) is s)) = mset (snd s)"
  using assms
proof (induction "is" arbitrary: s)
  case Nil
  then show ?case by simp
next
  case (Cons i "is")
  let ?s = "arc4_key_schedule_step pKey KeyLength i s"
  have m: "mset (snd ?s) = mset (snd s)"
    using Cons.prems by (intro arc4_key_schedule_step_mset) auto
  then have "length (snd ?s) = 256" using Cons.prems(2) mset_eq_length by metis
  with Cons m show ?case by simp
qed

lemma ARC4_INIT_wf:
  assumes "ARC4_INIT pKey KeyLength = Some c"
  shows "arc4_wf c"
  using assms arc4_key_schedule_mset [of "[0..<256]" "(0, map of_nat [0..<256])" pKey KeyLength]
  by (auto simp: ARC4_INIT_def arc4_wf_def atLeast0LessThan split: if_splits)

lemma keystream_state_arc4_wf: "arc4_wf c \<Longrightarrow> arc4_wf (keystream_state arc4_next c n)"
  by (induction n arbitrary: c) (simp_all add: arc4_next_wf)

lemma ARC4_Discard_keystream_state:
  "ARC4_Discard_KeyLength c n = keystream_state arc4_next c n"
  by (induction n arbitrary: c) (simp_all add: arc4_next_def Let_def split_beta)

section \<open>Properties\<close>



text \<open>
  The key block is a permutation of the 256 byte values after the key schedule, for every
  key, and it stays one, with both indices inside the block, under encryption and under
  \<^verbatim>\<open>ARC4_Discard_KeyLength\<close>, which advances the context exactly as encrypting that many bytes.
\<close>

theorem ARC4_permutation:
  assumes "ARC4_INIT pKey KeyLength = Some c"
  shows "arc4_wf c \<and> arc4_wf (fst (ARC4_Compute c mem src n dst)) \<and> arc4_wf (ARC4_Discard_KeyLength c n) \<and>
    ARC4_Discard_KeyLength c n = fst (ARC4_Compute c mem src n dst)"
  using ARC4_INIT_wf [OF assms] keystream_state_arc4_wf
  by (simp add: arc4.compute_xor_copy ARC4_Discard_keystream_state)

theorem ARC4_permutation_witness:
  "\<exists>c. ARC4_INIT [9] 1 = Some c \<and> arc4_wf c \<and> arc4_wf (fst (ARC4_Compute c [0] 0 1 0)) \<and>
     arc4_wf (ARC4_Discard_KeyLength c 1) \<and> ARC4_Discard_KeyLength c 1 = fst (ARC4_Compute c [0] 0 1 0)"
proof -
  obtain c where c: "ARC4_INIT [9] 1 = Some c" by (simp add: ARC4_INIT_def)
  from ARC4_permutation [OF c] c show ?thesis by blast
qed

end
