(* ===== verification/Crc32.thy ===== *)
theory Crc32
  imports Wlan_Prelude
begin

text \<open>
  The CRC-32 of \<^verbatim>\<open>common/cmm_wep.c\<close>, used as integrity check value by WEP and TKIP: the table
  \<^verbatim>\<open>FCSTAB_32\<close> and \<^verbatim>\<open>RTMP_CALC_FCS32\<close>. The table driven step is proved equal to eight
  steps of the bitwise shift register of IEEE 802, and every step to be injective, so that
  a change of a single byte always changes the check value.
\<close>

section \<open>Operations\<close>

text \<open>The table, row by row as the source writes it.\<close>

definition FCSTAB_32 :: "u32 list" where
  "FCSTAB_32 = concat
    [[0x00000000, 0x77073096, 0xee0e612c, 0x990951ba],
     [0x076dc419, 0x706af48f, 0xe963a535, 0x9e6495a3],
     [0x0edb8832, 0x79dcb8a4, 0xe0d5e91e, 0x97d2d988],
     [0x09b64c2b, 0x7eb17cbd, 0xe7b82d07, 0x90bf1d91],
     [0x1db71064, 0x6ab020f2, 0xf3b97148, 0x84be41de],
     [0x1adad47d, 0x6ddde4eb, 0xf4d4b551, 0x83d385c7],
     [0x136c9856, 0x646ba8c0, 0xfd62f97a, 0x8a65c9ec],
     [0x14015c4f, 0x63066cd9, 0xfa0f3d63, 0x8d080df5],
     [0x3b6e20c8, 0x4c69105e, 0xd56041e4, 0xa2677172],
     [0x3c03e4d1, 0x4b04d447, 0xd20d85fd, 0xa50ab56b],
     [0x35b5a8fa, 0x42b2986c, 0xdbbbc9d6, 0xacbcf940],
     [0x32d86ce3, 0x45df5c75, 0xdcd60dcf, 0xabd13d59],
     [0x26d930ac, 0x51de003a, 0xc8d75180, 0xbfd06116],
     [0x21b4f4b5, 0x56b3c423, 0xcfba9599, 0xb8bda50f],
     [0x2802b89e, 0x5f058808, 0xc60cd9b2, 0xb10be924],
     [0x2f6f7c87, 0x58684c11, 0xc1611dab, 0xb6662d3d],
     [0x76dc4190, 0x01db7106, 0x98d220bc, 0xefd5102a],
     [0x71b18589, 0x06b6b51f, 0x9fbfe4a5, 0xe8b8d433],
     [0x7807c9a2, 0x0f00f934, 0x9609a88e, 0xe10e9818],
     [0x7f6a0dbb, 0x086d3d2d, 0x91646c97, 0xe6635c01],
     [0x6b6b51f4, 0x1c6c6162, 0x856530d8, 0xf262004e],
     [0x6c0695ed, 0x1b01a57b, 0x8208f4c1, 0xf50fc457],
     [0x65b0d9c6, 0x12b7e950, 0x8bbeb8ea, 0xfcb9887c],
     [0x62dd1ddf, 0x15da2d49, 0x8cd37cf3, 0xfbd44c65],
     [0x4db26158, 0x3ab551ce, 0xa3bc0074, 0xd4bb30e2],
     [0x4adfa541, 0x3dd895d7, 0xa4d1c46d, 0xd3d6f4fb],
     [0x4369e96a, 0x346ed9fc, 0xad678846, 0xda60b8d0],
     [0x44042d73, 0x33031de5, 0xaa0a4c5f, 0xdd0d7cc9],
     [0x5005713c, 0x270241aa, 0xbe0b1010, 0xc90c2086],
     [0x5768b525, 0x206f85b3, 0xb966d409, 0xce61e49f],
     [0x5edef90e, 0x29d9c998, 0xb0d09822, 0xc7d7a8b4],
     [0x59b33d17, 0x2eb40d81, 0xb7bd5c3b, 0xc0ba6cad],
     [0xedb88320, 0x9abfb3b6, 0x03b6e20c, 0x74b1d29a],
     [0xead54739, 0x9dd277af, 0x04db2615, 0x73dc1683],
     [0xe3630b12, 0x94643b84, 0x0d6d6a3e, 0x7a6a5aa8],
     [0xe40ecf0b, 0x9309ff9d, 0x0a00ae27, 0x7d079eb1],
     [0xf00f9344, 0x8708a3d2, 0x1e01f268, 0x6906c2fe],
     [0xf762575d, 0x806567cb, 0x196c3671, 0x6e6b06e7],
     [0xfed41b76, 0x89d32be0, 0x10da7a5a, 0x67dd4acc],
     [0xf9b9df6f, 0x8ebeeff9, 0x17b7be43, 0x60b08ed5],
     [0xd6d6a3e8, 0xa1d1937e, 0x38d8c2c4, 0x4fdff252],
     [0xd1bb67f1, 0xa6bc5767, 0x3fb506dd, 0x48b2364b],
     [0xd80d2bda, 0xaf0a1b4c, 0x36034af6, 0x41047a60],
     [0xdf60efc3, 0xa867df55, 0x316e8eef, 0x4669be79],
     [0xcb61b38c, 0xbc66831a, 0x256fd2a0, 0x5268e236],
     [0xcc0c7795, 0xbb0b4703, 0x220216b9, 0x5505262f],
     [0xc5ba3bbe, 0xb2bd0b28, 0x2bb45a92, 0x5cb36a04],
     [0xc2d7ffa7, 0xb5d0cf31, 0x2cd99e8b, 0x5bdeae1d],
     [0x9b64c2b0, 0xec63f226, 0x756aa39c, 0x026d930a],
     [0x9c0906a9, 0xeb0e363f, 0x72076785, 0x05005713],
     [0x95bf4a82, 0xe2b87a14, 0x7bb12bae, 0x0cb61b38],
     [0x92d28e9b, 0xe5d5be0d, 0x7cdcefb7, 0x0bdbdf21],
     [0x86d3d2d4, 0xf1d4e242, 0x68ddb3f8, 0x1fda836e],
     [0x81be16cd, 0xf6b9265b, 0x6fb077e1, 0x18b74777],
     [0x88085ae6, 0xff0f6a70, 0x66063bca, 0x11010b5c],
     [0x8f659eff, 0xf862ae69, 0x616bffd3, 0x166ccf45],
     [0xa00ae278, 0xd70dd2ee, 0x4e048354, 0x3903b3c2],
     [0xa7672661, 0xd06016f7, 0x4969474d, 0x3e6e77db],
     [0xaed16a4a, 0xd9d65adc, 0x40df0b66, 0x37d83bf0],
     [0xa9bcae53, 0xdebb9ec5, 0x47b2cf7f, 0x30b5ffe9],
     [0xbdbdf21c, 0xcabac28a, 0x53b39330, 0x24b4a3a6],
     [0xbad03605, 0xcdd70693, 0x54de5729, 0x23d967bf],
     [0xb3667a2e, 0xc4614ab8, 0x5d681b02, 0x2a6f2b94],
     [0xb40bbe37, 0xc30c8ea1, 0x5a05df1b, 0x2d02ef8d]]"

abbreviation PPPINITFCS32 :: u32 where
  "PPPINITFCS32 \<equiv> 0xffffffff"

definition fcs32_step :: "u32 \<Rightarrow> u8 \<Rightarrow> u32" where
  "fcs32_step Fcs c = drop_bit 8 Fcs XOR FCSTAB_32 ! unat ((Fcs XOR ucast c) AND 0xff)"

definition RTMP_CALC_FCS32 :: "u32 \<Rightarrow> bytes \<Rightarrow> nat \<Rightarrow> u32" where
  "RTMP_CALC_FCS32 Fcs Cp Len = foldl fcs32_step Fcs (take Len Cp)"

section \<open>Reference: the shift register\<close>

definition crc_bit :: "u32 \<Rightarrow> u32" where
  "crc_bit r = drop_bit 1 r XOR (if bit r 0 then 0xedb88320 else 0)"

definition crc_byte :: "u32 \<Rightarrow> u8 \<Rightarrow> u32" where
  "crc_byte r c = (crc_bit ^^ 8) (r XOR ucast c)"

definition crc32 :: "bytes \<Rightarrow> u32" where
  "crc32 m = NOT (foldl crc_byte 0xffffffff m)"

section \<open>The table\<close>

text \<open>The register over the integers, where the bit operations evaluate on numerals.\<close>

definition crc_bit_int :: "int \<Rightarrow> int" where
  "crc_bit_int r = (if even r then r div 2 else (r div 2) XOR 0xedb88320)"

fun crc_bits_int :: "nat \<Rightarrow> int \<Rightarrow> int" where
  "crc_bits_int 0 r = r"
| "crc_bits_int (Suc n) r = crc_bits_int n (crc_bit_int r)"

lemma FCSTAB_32_int: "map uint FCSTAB_32 = map (\<lambda>i. crc_bits_int 8 (int i)) [0..<256]"
proof -
  have clock: "crc_bits_int 8 r = crc_bit_int (crc_bit_int (crc_bit_int (crc_bit_int
      (crc_bit_int (crc_bit_int (crc_bit_int (crc_bit_int r)))))))" for r
    by (simp add: numeral_eq_Suc)
  have index: "[0..<256] = 0 # Suc 0 # [2..<256]"
    by (simp add: upt_rec [of 0 256] upt_rec [of "Suc 0" 256] numeral_2_eq_2)
  have "map (\<lambda>i. crc_bits_int 8 (int i)) [0..<256] = map (crc_bits_int 8) (map int [0..<256])"
    by simp
  also have "\<dots> = map uint FCSTAB_32"
    unfolding index FCSTAB_32_def by (simp add: upt_rec_numeral clock crc_bit_int_def)
  finally show ?thesis ..
qed

lemma uint_crc_bit: "uint (crc_bit r) = crc_bit_int (uint r)"
proof -
  have "odd (uint r) \<longleftrightarrow> bit r 0"
    using bit_unsigned_iff [of r 0, where 'a = int] by (simp add: bit_0)
  then show ?thesis
    by (auto simp: crc_bit_def crc_bit_int_def unsigned_xor_eq drop_bit_eq_div uint_div_distrib)
qed

lemma uint_crc_bits: "uint ((crc_bit ^^ n) r) = crc_bits_int n (uint r)"
  by (induction n arbitrary: r) (simp_all add: uint_crc_bit funpow_swap1)

lemma length_FCSTAB_32: "length FCSTAB_32 = 256"
  using arg_cong [OF FCSTAB_32_int, of length] by simp

lemma FCSTAB_32_nth:
  assumes "i < 256"
  shows "FCSTAB_32 ! i = (crc_bit ^^ 8) (of_nat i)"
proof -
  have "uint (FCSTAB_32 ! i) = map uint FCSTAB_32 ! i"
    using assms by (simp add: length_FCSTAB_32)
  also have "\<dots> = crc_bits_int 8 (int i)"
    unfolding FCSTAB_32_int using assms by simp
  also have "int i = uint (of_nat i :: u32)"
    using assms by (simp add: unsigned_of_nat take_bit_nat_eq_self)
  finally show ?thesis
    unfolding uint_crc_bits [symmetric] by (simp add: word_uint_eq_iff)
qed

section \<open>The step is the register clocked eight times\<close>

lemma crc_bit_xor: "crc_bit (x XOR y) = crc_bit x XOR crc_bit y"
  unfolding crc_bit_def by (rule bit_word_eqI) (auto simp: bit_simps)

lemma crc_bits_xor: "(crc_bit ^^ n) (x XOR y) = (crc_bit ^^ n) x XOR (crc_bit ^^ n) y"
  by (induction n) (simp_all add: crc_bit_xor)

lemma crc_bits_high: "(\<And>k. k < n \<Longrightarrow> \<not> bit x k) \<Longrightarrow> (crc_bit ^^ n) x = drop_bit n x"
proof (induction n)
  case (Suc n)
  then have "\<not> bit (drop_bit n x) 0"
    by (simp add: bit_drop_bit_eq)
  then show ?case
    using Suc by (simp add: crc_bit_def)
qed simp

lemma take_bit_split: "take_bit n x XOR push_bit n (drop_bit n x) = (x :: u32)"
  by (rule bit_word_eqI) (auto simp: bit_simps)

lemma fcs32_step_crc_byte: "fcs32_step r c = crc_byte r c"
proof -
  define x where "x = r XOR ucast c"
  have and_ff: "x AND 0xff = take_bit 8 x"
    by (simp add: take_bit_eq_mask mask_eq_exp_minus_1)
  have "unat (take_bit 8 x) < 256"
    using take_bit_nat_less_exp [of 8 "unat x"] by (simp add: unsigned_take_bit_eq)
  from FCSTAB_32_nth [OF this] have low: "(crc_bit ^^ 8) (take_bit 8 x) = FCSTAB_32 ! unat (x AND 0xff)"
    unfolding and_ff by simp
  have "drop_bit 8 (push_bit 8 (drop_bit 8 x)) = drop_bit 8 r"
    unfolding x_def by (rule bit_word_eqI) (auto simp: bit_simps bit_u8_ge dest: bit_imp_le_length)
  then have high: "(crc_bit ^^ 8) (push_bit 8 (drop_bit 8 x)) = drop_bit 8 r"
    using crc_bits_high [of 8 "push_bit 8 (drop_bit 8 x)"] by (simp only: bit_push_bit_iff) simp
  have "(crc_bit ^^ 8) x = FCSTAB_32 ! unat (x AND 0xff) XOR drop_bit 8 r"
    using crc_bits_xor [of 8 "take_bit 8 x" "push_bit 8 (drop_bit 8 x)"]
    unfolding low high take_bit_split .
  then show ?thesis
    unfolding fcs32_step_def crc_byte_def x_def by (simp only: xor.commute)
qed

text \<open>
  (C38) The table driven checksum of a message is the CRC-32 of IEEE 802: the complement of the
  shift register with the reflected polynomial, started with all ones and clocked once for
  every bit of the message.
\<close>

theorem RTMP_CALC_FCS32_crc32: "NOT (RTMP_CALC_FCS32 PPPINITFCS32 m (length m)) = crc32 m"
  unfolding RTMP_CALC_FCS32_def crc32_def by (simp add: fcs32_step_crc_byte [abs_def])

section \<open>Error detection\<close>

lemma xor_right_cancel: "x XOR z = y XOR z \<Longrightarrow> x = (y :: u32)"
  by (drule arg_cong [where f = "\<lambda>w. w XOR z"]) simp

lemma ucast_u8_u32_inj: "ucast c = (ucast c' :: u32) \<Longrightarrow> c = (c' :: u8)"
proof -
  have inv: "ucast (ucast d :: u32) = d" for d :: u8
    by (rule bit_word_eqI) (simp add: bit_simps)
  show "ucast c = (ucast c' :: u32) \<Longrightarrow> c = c'"
    by (drule arg_cong [where f = "\<lambda>w. ucast w :: u8"]) (simp only: inv)
qed

lemma crc_bit_inj: "crc_bit x = crc_bit y \<Longrightarrow> x = y"
proof -
  assume eq: "crc_bit x = crc_bit y"
  have top: "bit (crc_bit z) 31 \<longleftrightarrow> bit z 0" for z
    unfolding crc_bit_def by (auto simp: bit_simps bit_u32_ge)
  have low: "bit x 0 = bit y 0"
    using top eq by metis
  then have "drop_bit 1 x = drop_bit 1 y"
    using eq unfolding crc_bit_def by (auto dest: xor_right_cancel)
  then have "bit x (Suc k) = bit y (Suc k)" for k
    by (metis bit_drop_bit_eq comp_apply plus_1_eq_Suc)
  with low have "bit x k = bit y k" for k
    by (cases k) auto
  then show "x = y"
    by (simp add: bit_eq_iff)
qed

lemma crc_bits_inj: "(crc_bit ^^ n) x = (crc_bit ^^ n) y \<Longrightarrow> x = y"
  by (induction n) (auto dest: crc_bit_inj)

lemma fcs32_step_inj_state: "fcs32_step r c = fcs32_step r' c \<Longrightarrow> r = r'"
  unfolding fcs32_step_crc_byte crc_byte_def 
  by (auto dest: crc_bits_inj xor_right_cancel)

lemma fcs32_step_inj_byte: "fcs32_step r c = fcs32_step r c' \<Longrightarrow> c = c'"
  unfolding fcs32_step_crc_byte crc_byte_def
  by (auto simp: xor.commute [of r] dest!: crc_bits_inj xor_right_cancel ucast_u8_u32_inj)

lemma fcs32_foldl_inj: "foldl fcs32_step r xs = foldl fcs32_step r' xs \<Longrightarrow> r = r'"
  by (induction xs arbitrary: r r') (auto dest: fcs32_step_inj_state)

lemma RTMP_CALC_FCS32_update:
  assumes "i < length m" and "v \<noteq> m ! i"
  shows "RTMP_CALC_FCS32 Fcs (m[i := v]) (length m) \<noteq> RTMP_CALC_FCS32 Fcs m (length m)"
proof
  assume "RTMP_CALC_FCS32 Fcs (m[i := v]) (length m) = RTMP_CALC_FCS32 Fcs m (length m)"
  then have "foldl fcs32_step Fcs (take i m @ v # drop (Suc i) m)
      = foldl fcs32_step Fcs (take i m @ m ! i # drop (Suc i) m)"
    using assms(1) unfolding RTMP_CALC_FCS32_def
    by (simp add: upd_conv_take_nth_drop id_take_nth_drop [symmetric])
  then have "fcs32_step (foldl fcs32_step Fcs (take i m)) v
      = fcs32_step (foldl fcs32_step Fcs (take i m)) (m ! i)"
    by (auto dest: fcs32_foldl_inj)
  then show False
    using assms(2) by (auto dest: fcs32_step_inj_byte)
qed

end
