(* ===== verification/Wep.thy ===== *)
theory Wep
  imports Arc4 Crc32
begin

text \<open>
  Software WEP, \<^verbatim>\<open>common/cmm_wep.c\<close>: the seed of the key stream, the IV header, encryption
  with the appended integrity check value (ICV) and decryption in place over the IV header.
  A frame is a region of one memory. Key streams come through the \<open>stream_cipher\<close>
  interface, interpreted on ARC4. \<open>None\<close> is an access outside of the buffers.
  The record \<open>cipher_key\<close> is \<^verbatim>\<open>CIPHER_KEY\<close> of \<^verbatim>\<open>include/wpa_cmm.h\<close>, used by all ciphers.
\<close>

section \<open>Data\<close>

record cipher_key =
  ckKey :: bytes
  ckTxMic :: bytes
  ckRxMic :: bytes
  ckTxTsc :: bytes
  ckRxTsc :: bytes
  ckCipherAlg :: u8
  ckKeyLen :: u8
  ckBssId :: bytes
  ckType :: u8

abbreviation (input) LEN_WEP_IV_HDR :: nat where "LEN_WEP_IV_HDR \<equiv> 4"
abbreviation (input) LEN_WEP_TSC :: nat where "LEN_WEP_TSC \<equiv> 3"
abbreviation (input) LEN_ICV :: nat where "LEN_ICV \<equiv> 4"

text \<open>The array lengths the structure declares.\<close>

definition cipher_key_wf :: "cipher_key \<Rightarrow> bool" where
  "cipher_key_wf k \<longleftrightarrow> length (ckKey k) = 16 \<and> length (ckTxMic k) = 8 \<and> length (ckRxMic k) = 8
     \<and> length (ckTxTsc k) = 16 \<and> length (ckRxTsc k) = 16 \<and> length (ckBssId k) = 6"

section \<open>Operations\<close>

text \<open>
  \<^verbatim>\<open>RTMPInitWepEngine\<close>. \<open>al\<close> tells whether the allocation of the seed succeeds; if not, the
  context \<open>c0\<close> stays what it was. A key of more than 13 bytes is copied past the end of
  the 16 byte seed.
\<close>

definition RTMPInitWepEngine :: "bool \<Rightarrow> bytes \<Rightarrow> bytes \<Rightarrow> u8 \<Rightarrow> arc4_ctx \<Rightarrow> arc4_ctx option" where
  "RTMPInitWepEngine al pIv pKey KeyLen c0 =
     (if \<not> al then Some c0
      else if 16 < 3 + unat KeyLen \<or> length pKey < unat KeyLen then None
      else
        let seed = replicate 16 0;
            seed = write_at seed 0 (take 3 pIv);
            seed = write_at seed 3 (take (unat KeyLen) pKey);
            seed_len = 3 + KeyLen
        in ARC4_INIT seed (unat seed_len))"

definition RTMPConstructWEPIVHdr :: "u8 \<Rightarrow> bytes \<Rightarrow> bytes" where
  "RTMPConstructWEPIVHdr key_idx pn =
     (let iv_hdr = replicate LEN_WEP_IV_HDR 0;
          iv_hdr = write_at iv_hdr 0 (take LEN_WEP_TSC pn)
      in iv_hdr[3 := push_bit 6 key_idx])"

text \<open>
  \<^verbatim>\<open>RTMPSoftEncryptWEP\<close> on the memory \<open>mem\<close> with \<open>pData\<close> an offset: the returned
  \<^verbatim>\<open>BOOLEAN\<close> and the memory. \<open>al 0\<close> is the allocation of the context with old content
  \<open>c0\<close>, \<open>al 1\<close> that of the seed. \<^verbatim>\<open>cpu2le32\<close> is the identity on the little endian host.
\<close>

definition RTMPSoftEncryptWEP ::
  "(nat \<Rightarrow> bool) \<Rightarrow> arc4_ctx \<Rightarrow> bytes \<Rightarrow> cipher_key \<Rightarrow> bytes \<Rightarrow> nat \<Rightarrow> nat \<Rightarrow> (bool \<times> bytes) option" where
  "RTMPSoftEncryptWEP al c0 pIvHdr pKey mem pData DataByteCnt =
     (if \<not> al 0 then Some (False, mem)
      else if ckKeyLen pKey = 0 then Some (False, mem)
      else case RTMPInitWepEngine (al 1) pIvHdr (ckKey pKey) (ckKeyLen pKey) c0 of
        None \<Rightarrow> None
      | Some ARC4_CTX \<Rightarrow>
          if length mem < pData + DataByteCnt + LEN_ICV then None
          else
            let FCSCRC32 = RTMP_CALC_FCS32 PPPINITFCS32 (drop pData mem) DataByteCnt;
                FCSCRC32 = FCSCRC32 XOR 0xffffffff;
                mem = write_at mem (pData + DataByteCnt) (store_le32 FCSCRC32)
            in Some (True, snd (ARC4_Compute ARC4_CTX mem pData (DataByteCnt + LEN_ICV) pData)))"

text \<open>
  \<^verbatim>\<open>RTMPSoftDecryptWEP\<close>: the returned \<^verbatim>\<open>BOOLEAN\<close>, the memory and the new \<^verbatim>\<open>*DataByteCnt\<close>. The
  two lengths are \<^verbatim>\<open>UINT16\<close> and wrap around.
\<close>

definition RTMPSoftDecryptWEP ::
  "(nat \<Rightarrow> bool) \<Rightarrow> arc4_ctx \<Rightarrow> cipher_key \<Rightarrow> bytes \<Rightarrow> nat \<Rightarrow> u16 \<Rightarrow> (bool \<times> bytes \<times> u16) option" where
  "RTMPSoftDecryptWEP al c0 pKey mem pData DataByteCnt =
     (if \<not> al 0 then Some (False, mem, DataByteCnt)
      else if ckKeyLen pKey = 0 then Some (False, mem, DataByteCnt)
      else if length mem < pData + 3 then None
      else case RTMPInitWepEngine (al 1) (drop pData mem) (ckKey pKey) (ckKeyLen pKey) c0 of
        None \<Rightarrow> None
      | Some ARC4_CTX \<Rightarrow>
          let ciphertext_ptr = pData + LEN_WEP_IV_HDR;
              ciphertext_len = DataByteCnt - of_nat LEN_WEP_IV_HDR
          in if unat DataByteCnt \<le> LEN_WEP_IV_HDR then Some (False, mem, DataByteCnt)
             else if length mem < ciphertext_ptr + unat ciphertext_len then None
             else
               let mem = snd (ARC4_Compute ARC4_CTX mem ciphertext_ptr (unat ciphertext_len) pData);
                   plaintext_len = ciphertext_len - of_nat LEN_ICV
               in if length mem < pData + unat plaintext_len + LEN_ICV then None
                  else
                    let trailfcs = load_le32 (read_at (pData + unat plaintext_len) LEN_ICV mem);
                        crc32 = RTMP_CALC_FCS32 PPPINITFCS32 (drop pData mem) (unat plaintext_len);
                        crc32 = crc32 XOR 0xffffffff
                    in if crc32 \<noteq> trailfcs then Some (False, mem, DataByteCnt)
                       else Some (True, mem, plaintext_len))"

section \<open>Seed and header\<close>

text \<open>A key the seed has room for.\<close>

definition wep_key_ok :: "cipher_key \<Rightarrow> bool" where
  "wep_key_ok k \<longleftrightarrow> cipher_key_wf k \<and> 0 < ckKeyLen k \<and> ckKeyLen k \<le> 13"

lemma length_RTMPConstructWEPIVHdr [simp]:
  "length pn \<ge> 3 \<Longrightarrow> length (RTMPConstructWEPIVHdr idx pn) = 4"
  by (simp add: RTMPConstructWEPIVHdr_def Let_def)

lemma take_RTMPConstructWEPIVHdr [simp]:
  "length pn \<ge> 3 \<Longrightarrow> take 3 (RTMPConstructWEPIVHdr idx pn) = take 3 pn"
  by (simp add: RTMPConstructWEPIVHdr_def Let_def write_at_def)

lemma RTMPInitWepEngine_ok:
  assumes "wep_key_ok k"
  obtains c where "RTMPInitWepEngine True pIv (ckKey k) (ckKeyLen k) c0 = Some c"
proof -
  have "unat (ckKeyLen k) \<le> 13"
    using assms unfolding wep_key_ok_def by (simp add: word_le_nat_alt)
  moreover from this have "unat (3 + ckKeyLen k) = 3 + unat (ckKeyLen k)"
    by (simp add: unat_word_ariths)
  ultimately show ?thesis
    using that assms unfolding wep_key_ok_def cipher_key_wf_def RTMPInitWepEngine_def ARC4_INIT_def
    by simp
qed

lemma RTMPInitWepEngine_cong:
  "take 3 pIv = take 3 pIv' \<Longrightarrow> RTMPInitWepEngine al pIv pKey n c0 = RTMPInitWepEngine al pIv' pKey n c0"
  by (simp add: RTMPInitWepEngine_def)

section \<open>Functional behaviour\<close>

text \<open>The protected text of a plain text: the text, its ICV and the key stream over both.\<close>

definition wep_protect :: "arc4_ctx \<Rightarrow> bytes \<Rightarrow> bytes" where
  "wep_protect c P = xor_bytes (P @ store_le32 (crc32 P)) (keystream arc4_next c (length P + LEN_ICV))"

lemma length_wep_protect [simp]: "length (wep_protect c P) = length P + 4"
  by (simp add: wep_protect_def)

lemma icv_crc32:
  assumes "off + n \<le> length mem"
  shows "RTMP_CALC_FCS32 PPPINITFCS32 (drop off mem) n XOR 0xffffffff = crc32 (read_at off n mem)"
proof -
  have "x XOR 0xffffffff = NOT x" for x :: u32
  proof -
    have "(0xffffffff :: u32) = - 1"
      by simp
    then show ?thesis
      by (simp only: xor.right_neutral bit.xor_one_right)
  qed
  then show ?thesis
    unfolding RTMP_CALC_FCS32_def crc32_def read_at_def by (simp add: fcs32_step_crc_byte [abs_def])
qed

lemma RTMPSoftEncryptWEP_ctx:
  assumes "al 0" and "wep_key_ok k" and "pData + n + 4 \<le> length mem"
    and ctx: "RTMPInitWepEngine (al 1) pIv (ckKey k) (ckKeyLen k) c0 = Some c"
  shows "RTMPSoftEncryptWEP al c0 pIv k mem pData n
    = Some (True, write_at mem pData (wep_protect c (read_at pData n mem)))"
proof -
  let ?P = "read_at pData n mem"
  have len: "length ?P = n"
    using assms(3) by simp
  define m1 where "m1 = write_at mem (pData + n) (store_le32 (crc32 ?P))"
  have m1: "m1 = write_at mem pData (?P @ store_le32 (crc32 ?P))"
    using write_at_write_at_adjacent [of pData ?P "store_le32 (crc32 ?P)" mem] len assms(3)
    by (simp add: m1_def)
  have "snd (ARC4_Compute c m1 pData (n + 4) pData)
      = write_at m1 pData (xor_bytes (read_at pData (n + 4) m1) (keystream arc4_next c (n + 4)))"
    using assms(3) len by (simp add: arc4.compute_write_at m1)
  also have "read_at pData (n + 4) m1 = ?P @ store_le32 (crc32 ?P)"
    using assms(3) len read_write_same [of pData mem "n + 4" "?P @ store_le32 (crc32 ?P)"] by (simp add: m1)
  also have "write_at m1 pData (xor_bytes \<dots> (keystream arc4_next c (n + 4)))
      = write_at mem pData (wep_protect c ?P)"
    using assms(3) len by (simp add: m1 wep_protect_def)
  finally show ?thesis
    using assms unfolding RTMPSoftEncryptWEP_def
    by (simp add: wep_key_ok_def icv_crc32 m1_def word_gt_0 Let_def)
qed

lemma RTMPSoftEncryptWEP_ok:
  assumes "alloc_ok al" and "wep_key_ok k" and "pData + n + 4 \<le> length mem"
    and "RTMPInitWepEngine True pIv (ckKey k) (ckKeyLen k) c0 = Some c"
  shows "RTMPSoftEncryptWEP al c0 pIv k mem pData n
    = Some (True, write_at mem pData (wep_protect c (read_at pData n mem)))"
  using assms by (intro RTMPSoftEncryptWEP_ctx) simp_all

lemma wep_encrypt_alloc:
  "alloc_ok al \<Longrightarrow> alloc_ok al' \<Longrightarrow> RTMPSoftEncryptWEP al c0 iv k mem p n = RTMPSoftEncryptWEP al' c0 iv k mem p n"
  by (simp add: RTMPSoftEncryptWEP_def)

lemma unat_minus_le: "n \<le> unat (d :: u16) \<Longrightarrow> n < 2 ^ 16 \<Longrightarrow> unat (d - of_nat n) = unat d - n"
  by (simp add: unat_sub word_le_nat_alt unat_of_nat)

text \<open>The check of a decrypted text \<open>X\<close> that ends with its ICV, as WEP and TKIP do it in place at \<open>off\<close>.\<close>

definition icv_ok :: "bytes \<Rightarrow> bool" where
  "icv_ok X \<longleftrightarrow> store_le32 (crc32 (take (length X - 4) X)) = drop (length X - 4) X"

lemma icv_check:
  assumes "length X = n + 4" and "off + n + 4 \<le> length mem"
  shows "RTMP_CALC_FCS32 PPPINITFCS32 (drop off (write_at mem off X)) n XOR 0xffffffff
      = load_le32 (read_at (off + n) 4 (write_at mem off X)) \<longleftrightarrow> icv_ok X"
proof -
  define m where "m = write_at mem off X"
  have rd: "read_at off (n + 4) m = X" and len: "length m = length mem"
    using assms by (simp_all add: m_def)
  have plain: "read_at off n m = take n X"
    unfolding rd [symmetric] read_at_def by (simp add: min_def)
  have icv: "read_at (off + n) 4 m = drop n X"
    unfolding rd [symmetric] read_at_def by (simp add: drop_take add.commute)
  have "length (drop n X) = 4"
    using assms(1) by simp
  from store_load_le32 [OF this] have "crc32 (take n X) = load_le32 (drop n X) \<longleftrightarrow> icv_ok X"
    unfolding icv_ok_def assms(1) by (metis add_diff_cancel_right' load_store_le32)
  then show ?thesis
    using assms(2) unfolding m_def [symmetric] by (simp add: icv_crc32 icv plain len)
qed

lemma RTMPSoftDecryptWEP_ok:
  assumes "alloc_ok al" and "wep_key_ok k" and "8 \<le> unat d" and "pData + unat d \<le> length mem"
    and ctx: "RTMPInitWepEngine True (drop pData mem) (ckKey k) (ckKeyLen k) c0 = Some c"
    and X: "X = xor_bytes (read_at (pData + 4) (unat d - 4) mem) (keystream arc4_next c (unat d - 4))"
  shows "RTMPSoftDecryptWEP al c0 k mem pData d
    = Some (if icv_ok X then (True, write_at mem pData X, d - 8) else (False, write_at mem pData X, d))"
proof -
  have c4: "unat (d - 4) = unat d - 4"
    using unat_minus_le [of 4 d] assms(3) by simp
  have c8: "unat (d - 8) = unat d - 8" "d - 4 - 4 = d - 8"
    using unat_minus_le [of 8 d] assms(3) by simp_all
  have lenX: "length X = (unat d - 8) + 4"
    using assms(3,4) unfolding X by simp
  define m where "m = write_at mem pData X"
  have m: "snd (ARC4_Compute c mem (pData + 4) (unat d - 4) pData) = m"
    using assms(3,4) unfolding X m_def by (simp add: arc4.compute_write_at)
  have lenm: "length m = length mem"
    using assms(3,4) lenX by (simp add: m_def)
  have chk: "RTMP_CALC_FCS32 PPPINITFCS32 (drop pData m) (unat d - 8) XOR 0xffffffff
      = load_le32 (read_at (pData + unat d - 8) 4 m) \<longleftrightarrow> icv_ok X"
    using icv_check [OF lenX, of pData mem] assms(3,4) by (simp add: m_def)
  have "\<not> length mem < pData + unat d - 4"
    using assms(4) by simp
  then show ?thesis
    using assms(1-4) ctx chk unfolding RTMPSoftDecryptWEP_def
    by (simp add: wep_key_ok_def word_gt_0 Let_def m c4 c8 lenm m_def [symmetric])
qed

section \<open>Properties\<close>

text \<open>A frame as it is sent: the IV header followed by the protected text, at the offset \<open>off\<close>.\<close>

lemma wep_receive:
  assumes "alloc_ok al" and "wep_key_ok k" and "3 \<le> length pn" and "length P + 8 < 2 ^ 16"
    and "off + length P + 8 \<le> length mem" and "length Y = length P + 4"
    and ctx: "RTMPInitWepEngine True pn (ckKey k) (ckKeyLen k) c0 = Some c"
    and frame: "read_at off (length P + 8) mem = RTMPConstructWEPIVHdr idx pn @ Y"
    and X: "X = xor_bytes Y (keystream arc4_next c (length P + 4))"
  shows "RTMPSoftDecryptWEP al c0 k mem off (of_nat (length P + 8))
    = Some (if icv_ok X
            then (True, write_at mem off X, of_nat (length P))
            else (False, write_at mem off X, of_nat (length P + 8)))"
proof -
  let ?d = "of_nat (length P + 8) :: u16"
  have d: "unat ?d = length P + 8"
    using assms(4) by (simp add: unat_of_nat del: of_nat_add)
  have d4: "unat ?d - 4 = length P + 4" and d8: "unat ?d - 8 = length P" "?d - 8 = of_nat (length P)"
    unfolding d by simp_all
  have "take 3 (drop off mem) = take 3 (read_at off (length P + 8) mem)"
    by (simp add: read_at_def min_def)
  also have "\<dots> = take 3 pn"
    unfolding frame using assms(3) by simp
  finally have c: "RTMPInitWepEngine True (drop off mem) (ckKey k) (ckKeyLen k) c0 = Some c"
    using ctx RTMPInitWepEngine_cong by metis
  have "read_at (off + 4) (length P + 4) mem = drop 4 (read_at off (length P + 8) mem)"
    unfolding read_at_def by (simp add: drop_take add.commute)
  also have "\<dots> = Y"
    unfolding frame using assms(3) by simp
  finally have "X = xor_bytes (read_at (off + 4) (unat ?d - 4) mem) (keystream arc4_next c (unat ?d - 4))"
    unfolding d4 X by simp
  from RTMPSoftDecryptWEP_ok [OF assms(1,2) _ _ c this] show ?thesis
    unfolding d d8 using assms(5) by (simp add: add.assoc del: of_nat_add)
qed

lemma wep_round_trip:
  assumes "alloc_ok al" and "wep_key_ok k" and "3 \<le> length pn" and "length P + 8 < 2 ^ 16"
    and "mem = A @ RTMPConstructWEPIVHdr idx pn @ P @ icv @ B" and "length icv = 4"
  shows "\<exists>Y. length Y = length P + 4
    \<and> RTMPSoftEncryptWEP al c0 pn k mem (length A + 4) (length P)
        = Some (True, A @ RTMPConstructWEPIVHdr idx pn @ Y @ B)
    \<and> RTMPSoftDecryptWEP al c0 k (A @ RTMPConstructWEPIVHdr idx pn @ Y @ B) (length A) (of_nat (length P + 8))
        = Some (True, A @ P @ store_le32 (crc32 P) @ drop (length P) Y @ B, of_nat (length P))"
proof -
  obtain c where c: "RTMPInitWepEngine True pn (ckKey k) (ckKeyLen k) c0 = Some c"
    using RTMPInitWepEngine_ok [OF assms(2)] .
  let ?H = "RTMPConstructWEPIVHdr idx pn"
  define Y where "Y = wep_protect c P"
  have lenY: "length Y = length P + 4"
    by (simp add: Y_def)
  have rd: "read_at (length A + 4) (length P) mem = P"
    using assms(3) unfolding assms(5) read_at_def by simp
  have enc: "RTMPSoftEncryptWEP al c0 pn k mem (length A + 4) (length P) = Some (True, A @ ?H @ Y @ B)"
    using RTMPSoftEncryptWEP_ok [OF assms(1,2) _ c, of "length A + 4" "length P" mem] assms(3,6) lenY
    unfolding rd Y_def [symmetric] by (simp add: assms(5) write_at_def)
  have X: "P @ store_le32 (crc32 P) = xor_bytes Y (keystream arc4_next c (length P + 4))"
    by (simp add: Y_def wep_protect_def)
  let ?m = "A @ ?H @ Y @ B"
  have frame: "read_at (length A) (length P + 8) ?m = ?H @ Y"
    using assms(3) lenY by (simp add: read_at_def)
  have "write_at ?m (length A) (P @ store_le32 (crc32 P)) = A @ P @ store_le32 (crc32 P) @ drop (length P) Y @ B"
    using assms(3) lenY by (simp add: write_at_def)
  moreover have "icv_ok (P @ store_le32 (crc32 P))"
    by (simp add: icv_ok_def)
  ultimately have dec: "RTMPSoftDecryptWEP al c0 k ?m (length A) (of_nat (length P + 8))
        = Some (True, A @ P @ store_le32 (crc32 P) @ drop (length P) Y @ B, of_nat (length P))"
    using wep_receive [OF assms(1,2,3,4) _ lenY c frame X] assms(3) lenY by simp
  show ?thesis
    using lenY enc dec by blast
qed

text \<open>
  (C36) A WEP frame built by the driver is received unchanged. The IV header made from the
  packet number \<open>pn\<close> stands at \<open>off\<close> and the plain text behind it. After
  \<open>RTMPSoftEncryptWEP\<close>, \<open>RTMPSoftDecryptWEP\<close> on the whole frame reports success, reports the length of
  the plain text, and leaves the plain text at \<open>off\<close> and the rest of the memory as it was.
\<close>

theorem RTMPSoftDecryptWEP_Encrypt:
  assumes "alloc_ok al" and "wep_key_ok k" and "3 \<le> length pn" and "length P + 8 < 2 ^ 16"
    and "mem = A @ RTMPConstructWEPIVHdr idx pn @ P @ icv @ B" and "length icv = 4"
  shows "\<exists>Y. length Y = length P + 4
    \<and> RTMPSoftEncryptWEP al c0 pn k mem (length A + 4) (length P)
        = Some (True, A @ RTMPConstructWEPIVHdr idx pn @ Y @ B)
    \<and> RTMPSoftDecryptWEP al c0 k (A @ RTMPConstructWEPIVHdr idx pn @ Y @ B) (length A) (of_nat (length P + 8))
        = Some (True, A @ P @ store_le32 (crc32 P) @ drop (length P) Y @ B, of_nat (length P))"
  using assms by (rule wep_round_trip)

definition wep_key_example :: cipher_key where
  "wep_key_example = \<lparr>ckKey = [1, 2, 3, 4, 5] @ replicate 11 0, ckTxMic = replicate 8 0,
     ckRxMic = replicate 8 0, ckTxTsc = replicate 16 0, ckRxTsc = replicate 16 0, ckCipherAlg = 1,
     ckKeyLen = 5, ckBssId = replicate 6 0, ckType = 0\<rparr>"

lemma wep_key_example_ok: "wep_key_ok wep_key_example"
  by (simp add: wep_key_ok_def cipher_key_wf_def wep_key_example_def)

theorem RTMPSoftDecryptWEP_Encrypt_witness:
  "\<exists>Y. length Y = 6
    \<and> RTMPSoftEncryptWEP (\<lambda>_. True) \<lparr>BlockIndex1 = 0, BlockIndex2 = 0, KeyBlock = []\<rparr> [7, 8, 9] wep_key_example
        ([] @ RTMPConstructWEPIVHdr 1 [7, 8, 9] @ [65, 66] @ [0, 0, 0, 0] @ []) 4 2
        = Some (True, RTMPConstructWEPIVHdr 1 [7, 8, 9] @ Y)
    \<and> RTMPSoftDecryptWEP (\<lambda>_. True) \<lparr>BlockIndex1 = 0, BlockIndex2 = 0, KeyBlock = []\<rparr> wep_key_example
        (RTMPConstructWEPIVHdr 1 [7, 8, 9] @ Y) 0 10
        = Some (True, [65, 66] @ store_le32 (crc32 [65, 66]) @ drop 2 Y, 2)"
  using RTMPSoftDecryptWEP_Encrypt [OF alloc_ok_True wep_key_example_ok, of "[7, 8, 9]" "[65, 66]" _ "[]" 1
      "[0, 0, 0, 0]" "[]" "\<lparr>BlockIndex1 = 0, BlockIndex2 = 0, KeyBlock = []\<rparr>"]
  by (simp add: numeral_2_eq_2 [symmetric])

lemma xor_bytes_update:
  assumes "i < length xs" and "length xs \<le> length ks"
  shows "xor_bytes (xs[i := v]) ks = (xor_bytes xs ks)[i := v XOR ks ! i]"
  using assms by (intro nth_equalityI) (auto simp: nth_xor_bytes nth_list_update)

lemma store_le32_inj: "store_le32 x = store_le32 y \<Longrightarrow> x = y"
  by (metis load_store_le32)

lemma crc32_update:
  assumes "i < length P" and "v \<noteq> P ! i"
  shows "crc32 (P[i := v]) \<noteq> crc32 P"
  using RTMP_CALC_FCS32_update [OF assms, of PPPINITFCS32]
  by (simp add: RTMP_CALC_FCS32_def crc32_def fcs32_step_crc_byte [abs_def])

text \<open>
  (C37) WEP detects a corrupted byte: when exactly one byte of the protected part of a frame made
  by \<open>RTMPSoftEncryptWEP\<close> is changed, in the text or in the ICV, \<open>RTMPSoftDecryptWEP\<close> returns \<^verbatim>\<open>FALSE\<close> and
  keeps the byte count.
\<close>

theorem RTMPSoftDecryptWEP_corrupted:
  assumes "alloc_ok al" and "wep_key_ok k" and "3 \<le> length pn" and "length P + 8 < 2 ^ 16"
    and "length icv = 4"
    and enc: "RTMPSoftEncryptWEP al c0 pn k (RTMPConstructWEPIVHdr idx pn @ P @ icv) 4 (length P)
      = Some (True, RTMPConstructWEPIVHdr idx pn @ Y)"
    and "i < length Y" and "v \<noteq> Y ! i"
  shows "\<exists>m. RTMPSoftDecryptWEP al c0 k (RTMPConstructWEPIVHdr idx pn @ Y[i := v]) 0 (of_nat (length P + 8))
    = Some (False, m, of_nat (length P + 8))"
proof -
  let ?H = "RTMPConstructWEPIVHdr idx pn" and ?I = "store_le32 (crc32 P)"
  obtain c where c: "RTMPInitWepEngine True pn (ckKey k) (ckKeyLen k) c0 = Some c"
    using RTMPInitWepEngine_ok [OF assms(2)] .
  have "read_at 4 (length P) (?H @ P @ icv) = P"
    using assms(3) by (simp add: read_at_def)
  then have Y: "Y = wep_protect c P"
    using RTMPSoftEncryptWEP_ok [OF assms(1,2) _ c, of 4 "length P" "?H @ P @ icv"] assms(3,5) enc
    by (simp add: write_at_def)
  define w where "w = v XOR keystream arc4_next c (length P + 4) ! i"
  have ilen: "i < length P + 4"
    using assms(7) by (simp add: Y)
  have X: "xor_bytes (Y[i := v]) (keystream arc4_next c (length P + 4)) = (P @ ?I)[i := w]"
    using ilen by (simp add: xor_bytes_update Y w_def) (simp add: wep_protect_def)
  have "w \<noteq> (P @ ?I) ! i"
  proof
    assume "w = (P @ ?I) ! i"
    then have "Y ! i = w XOR keystream arc4_next c (length P + 4) ! i"
      using ilen by (simp add: Y wep_protect_def nth_xor_bytes)
    then show False
      using assms(8) by (simp add: w_def)
  qed
  then have "\<not> icv_ok ((P @ ?I)[i := w])"
    using ilen crc32_update [of i P w] unfolding icv_ok_def
    by (cases "i < length P")
      (auto simp: list_update_append nth_append dest: store_le32_inj, metis length_stores(2) less_diff_conv2
        add.commute nth_list_update_eq not_less)
  then show ?thesis
    using wep_receive [OF assms(1-4) _ _ c _ X [symmetric], of 0 "?H @ Y[i := v]" idx] assms(3)
    by (simp add: Y del: of_nat_add)
qed

theorem RTMPSoftDecryptWEP_corrupted_witness:
  "\<exists>Y m. RTMPSoftEncryptWEP (\<lambda>_. True) \<lparr>BlockIndex1 = 0, BlockIndex2 = 0, KeyBlock = []\<rparr> [7, 8, 9]
      wep_key_example (RTMPConstructWEPIVHdr 1 [7, 8, 9] @ [65, 66] @ [0, 0, 0, 0]) 4 (length [65, 66 :: u8])
      = Some (True, RTMPConstructWEPIVHdr 1 [7, 8, 9] @ Y)
    \<and> RTMPSoftDecryptWEP (\<lambda>_. True) \<lparr>BlockIndex1 = 0, BlockIndex2 = 0, KeyBlock = []\<rparr> wep_key_example
     (RTMPConstructWEPIVHdr 1 [7, 8, 9] @ Y[1 := Y ! 1 + 1]) 0 10 = Some (False, m, 10)"
proof -
  let ?c = "\<lparr>BlockIndex1 = 0, BlockIndex2 = 0, KeyBlock = []\<rparr>"
  obtain c where c: "RTMPInitWepEngine True [7, 8, 9] (ckKey wep_key_example) (ckKeyLen wep_key_example) ?c = Some c"
    using RTMPInitWepEngine_ok [OF wep_key_example_ok] .
  let ?Y = "wep_protect c [65, 66]"
  have "RTMPSoftEncryptWEP (\<lambda>_. True) ?c [7, 8, 9] wep_key_example
      (RTMPConstructWEPIVHdr 1 [7, 8, 9] @ [65, 66] @ [0, 0, 0, 0]) 4 (length [65, 66 :: u8])
      = Some (True, RTMPConstructWEPIVHdr 1 [7, 8, 9] @ ?Y)"
    using RTMPSoftEncryptWEP_ok [OF alloc_ok_True wep_key_example_ok _ c, of 4 2
        "RTMPConstructWEPIVHdr 1 [7, 8, 9] @ [65, 66] @ [0, 0, 0, 0]"]
    by (simp add: read_at_def write_at_def numeral_2_eq_2 [symmetric])
  note enc = this
  from RTMPSoftDecryptWEP_corrupted [OF alloc_ok_True wep_key_example_ok _ _ _ enc, of 1 "?Y ! 1 + 1"]
  have "\<exists>m. RTMPSoftDecryptWEP (\<lambda>_. True) ?c wep_key_example
      (RTMPConstructWEPIVHdr 1 [7, 8, 9] @ ?Y[1 := ?Y ! 1 + 1]) 0 10 = Some (False, m, 10)"
    by simp
  with enc show ?thesis
    by auto
qed

text \<open>
  A frame with one to three bytes behind the IV header makes \<open>RTMPSoftDecryptWEP\<close> read outside
  of its buffer: the guard only excludes frames without any payload, and the 16 bit plain text length wraps around
  to more than 65000 bytes.
\<close>

theorem RTMPSoftDecryptWEP_short_frame:
  assumes "alloc_ok al" and "wep_key_ok k" and "5 \<le> unat d" and "unat d \<le> 7"
    and "pData + unat d \<le> length mem" and "length mem < pData + 65533"
  shows "RTMPSoftDecryptWEP al c0 k mem pData d = None"
proof -
  obtain c where c: "RTMPInitWepEngine True (drop pData mem) (ckKey k) (ckKeyLen k) c0 = Some c"
    using RTMPInitWepEngine_ok [OF assms(2)] .
  have c4: "unat (d - 4) = unat d - 4"
    using unat_minus_le [of 4 d] assms(3) by simp
  have "unat (d - 8) = unat d + 65528"
    using assms(3,4) by (simp add: unat_sub_if_size word_le_nat_alt word_size)
  then have c8: "d - 4 - 4 = d - 8" "pData + 65533 \<le> pData + unat (d - 8)"
    using assms(3) by simp_all
  have "length (snd (ARC4_Compute c mem (pData + 4) (unat d - 4) pData)) = length mem"
    by (simp add: arc4.compute_xor_copy)
  then show ?thesis
    using assms c c8 unfolding RTMPSoftDecryptWEP_def
    by (simp add: wep_key_ok_def word_gt_0 Let_def c4)
qed

theorem RTMPSoftDecryptWEP_short_frame_witness:
  "RTMPSoftDecryptWEP (\<lambda>_. True) \<lparr>BlockIndex1 = 0, BlockIndex2 = 0, KeyBlock = []\<rparr> wep_key_example
     [7, 8, 9, 64, 1, 0, 0, 0] 0 5 = None"
  using RTMPSoftDecryptWEP_short_frame [OF alloc_ok_True wep_key_example_ok, of 5 0 "[7, 8, 9, 64, 1, 0, 0, 0]"]
  by simp

end
