(* ===== verification/Mac_Entry.thy ===== *)
theory Mac_Entry
  imports Wep
begin

text \<open>
  The table of peers, \<^verbatim>\<open>MAC_TABLE\<close> and \<^verbatim>\<open>MAC_TABLE_ENTRY\<close> of \<^verbatim>\<open>include/rtmp.h\<close>, with the fields that the
  key handshakes, the block acknowledgement sessions and the table itself use, and the search in it
  (\<^verbatim>\<open>mgmt/mgmt_entrytb.c\<close>). A pointer to an entry is its index in \<^verbatim>\<open>Content\<close>, a null pointer is \<open>None\<close>; the chains of the
  hash table run through \<^verbatim>\<open>pNext\<close>.
\<close>

section \<open>Data\<close>

datatype entry_type =
  ENTRY_NONE | ENTRY_CLIENT | ENTRY_WDS | ENTRY_APCLI | ENTRY_MESH | ENTRY_DLS | ENTRY_TDLS | ENTRY_MCAST | ENTRY_WDEV

datatype sst = SST_NOT_AUTH | SST_AUTH | SST_ASSOC

text \<open>Authentication modes, encryption types and WPA states are compared by their order: they are numbers.\<close>

abbreviation (input) Ndis802_11AuthModeWPA :: nat where "Ndis802_11AuthModeWPA \<equiv> 3"
abbreviation (input) Ndis802_11AuthModeWPAPSK :: nat where "Ndis802_11AuthModeWPAPSK \<equiv> 4"
abbreviation (input) Ndis802_11AuthModeWPA2 :: nat where "Ndis802_11AuthModeWPA2 \<equiv> 6"
abbreviation (input) Ndis802_11AuthModeWPA2PSK :: nat where "Ndis802_11AuthModeWPA2PSK \<equiv> 7"
abbreviation (input) Ndis802_11WEPDisabled :: nat where "Ndis802_11WEPDisabled \<equiv> 1"
abbreviation (input) Ndis802_11TKIPEnable :: nat where "Ndis802_11TKIPEnable \<equiv> 4"
abbreviation (input) Ndis802_11AESEnable :: nat where "Ndis802_11AESEnable \<equiv> 6"
abbreviation (input) Ndis802_11GroupWEP40Enabled :: nat where "Ndis802_11GroupWEP40Enabled \<equiv> 10"
abbreviation (input) Ndis802_11GroupWEP104Enabled :: nat where "Ndis802_11GroupWEP104Enabled \<equiv> 11"
abbreviation (input) AS_NOTUSE :: u8 where "AS_NOTUSE \<equiv> 0"
abbreviation (input) AS_INITPMK :: u8 where "AS_INITPMK \<equiv> 6"
abbreviation (input) AS_INITPSK :: u8 where "AS_INITPSK \<equiv> 7"
abbreviation (input) AS_PTKSTART :: u8 where "AS_PTKSTART \<equiv> 8"
abbreviation (input) AS_PTKINIT_NEGOTIATING :: u8 where "AS_PTKINIT_NEGOTIATING \<equiv> 9"
abbreviation (input) AS_PTKINITDONE :: u8 where "AS_PTKINITDONE \<equiv> 10"
abbreviation (input) REKEY_NEGOTIATING :: u8 where "REKEY_NEGOTIATING \<equiv> 0"
abbreviation (input) REKEY_ESTABLISHED :: u8 where "REKEY_ESTABLISHED \<equiv> 1"
abbreviation (input) WPA_802_1X_PORT_SECURED :: u16 where "WPA_802_1X_PORT_SECURED \<equiv> 1"
abbreviation (input) WPA_802_1X_PORT_NOT_SECURED :: u16 where "WPA_802_1X_PORT_NOT_SECURED \<equiv> 2"
abbreviation (input) Ndis802_11PrivFilterAcceptAll :: nat where "Ndis802_11PrivFilterAcceptAll \<equiv> 0"
abbreviation (input) Ndis802_11PrivFilter8021xWEP :: nat where "Ndis802_11PrivFilter8021xWEP \<equiv> 1"
abbreviation (input) ENTRY_NOT_FOUND :: int where "ENTRY_NOT_FOUND \<equiv> 0xFF"
abbreviation (input) BSSID_WCID :: nat where "BSSID_WCID \<equiv> 1"
abbreviation (input) MCAST_WCID :: u8 where "MCAST_WCID \<equiv> 0"

record mac_entry =
  mtEntryType :: entry_type
  mtNext :: "nat option"
  mtHT :: bool
  mtVHT :: bool
  mtWcid :: u8
  mtApidx :: u8
  mtAddr :: bytes
  mtAid :: u16
  mtSst :: sst
  mtEapolStartTimer :: u8
  mtRSNIE_Len :: u8
  mtANonce :: bytes
  mtSNonce :: bytes
  mtR_Counter :: bytes
  mtPTK :: bytes
  mtReTryCounter :: u8
  mtAuthMode :: nat
  mtWepStatus :: nat
  mtWpaState :: u8
  mtGTKState :: u8
  mtPortSecured :: u16
  mtPrivacyFilter :: nat
  mtPairwiseKey :: cipher_key
  mtPMKID_CacheIdx :: int
  mtBssid :: bytes
  mtRXBAbitmap :: u16
  mtTXBAbitmap :: u16
  mtBADeclineBitmap :: u16
  mtBARecWcidArray :: "u16 list"
  mtBAOriWcidArray :: "u16 list"
  mtMaxRAmpduFactor :: u8

record mac_table =
  tbHash :: "nat option list"
  tbContent :: "mac_entry list"
  tbSize :: u16

definition zero_cipher_key :: cipher_key where
  "zero_cipher_key =
     \<lparr>ckKey = replicate 16 0, ckTxMic = replicate 8 0, ckRxMic = replicate 8 0, ckTxTsc = replicate 16 0,
      ckRxTsc = replicate 16 0, ckCipherAlg = 0, ckKeyLen = 0, ckBssId = replicate 6 0, ckType = 0\<rparr>"

text \<open>An entry whose memory has been zeroed.\<close>

definition zero_entry :: mac_entry where
  "zero_entry =
     \<lparr>mtEntryType = ENTRY_NONE, mtNext = None, mtHT = False, mtVHT = False, mtWcid = 0, mtApidx = 0, mtAddr = replicate 6 0,
      mtAid = 0, mtSst = SST_NOT_AUTH, mtEapolStartTimer = 0, mtRSNIE_Len = 0, mtANonce = replicate 32 0, mtSNonce = replicate 32 0,
      mtR_Counter = replicate 8 0, mtPTK = replicate 64 0, mtReTryCounter = 0, mtAuthMode = 0, mtWepStatus = 0, mtWpaState = 0,
      mtGTKState = 0, mtPortSecured = 0, mtPrivacyFilter = 0, mtPairwiseKey = zero_cipher_key, mtPMKID_CacheIdx = 0,
      mtBssid = replicate 6 0, mtRXBAbitmap = 0, mtTXBAbitmap = 0, mtBADeclineBitmap = 0, mtBARecWcidArray = replicate 8 0,
      mtBAOriWcidArray = replicate 8 0, mtMaxRAmpduFactor = 0\<rparr>"

definition IS_ENTRY_NONE :: "mac_entry \<Rightarrow> bool" where
  "IS_ENTRY_NONE e \<longleftrightarrow> mtEntryType e = ENTRY_NONE"

definition IS_ENTRY_CLIENT :: "mac_entry \<Rightarrow> bool" where
  "IS_ENTRY_CLIENT e \<longleftrightarrow> mtEntryType e = ENTRY_CLIENT"

definition IS_ENTRY_APCLI :: "mac_entry \<Rightarrow> bool" where
  "IS_ENTRY_APCLI e \<longleftrightarrow> mtEntryType e = ENTRY_APCLI"

section \<open>Search\<close>

definition MAC_ADDR_HASH_INDEX :: "bytes \<Rightarrow> nat" where
  "MAC_ADDR_HASH_INDEX Addr = unat (Addr ! 0 XOR Addr ! 1 XOR Addr ! 2 XOR Addr ! 3 XOR Addr ! 4 XOR Addr ! 5)"

text \<open>
  The loop of \<^verbatim>\<open>MacTableLookup\<close>. The outer \<open>None\<close> is a loop that does not end, \<open>Some None\<close> the null pointer; the pointer to
  an entry of type \<^verbatim>\<open>ENTRY_NONE\<close> ends the loop and is returned.
\<close>

partial_function (option) mac_lookup_loop :: "mac_entry list \<Rightarrow> bytes \<Rightarrow> nat option \<Rightarrow> nat option option" where
  "mac_lookup_loop content pAddr pEntry =
     (case pEntry of
        None \<Rightarrow> Some None
      | Some i \<Rightarrow>
          if IS_ENTRY_NONE (content ! i) then Some pEntry
          else if mtAddr (content ! i) = pAddr then Some pEntry
          else mac_lookup_loop content pAddr (mtNext (content ! i)))"

definition MacTableLookup :: "mac_table \<Rightarrow> bytes \<Rightarrow> nat option option" where
  "MacTableLookup tab pAddr =
     mac_lookup_loop (tbContent tab) (take 6 pAddr) (tbHash tab ! MAC_ADDR_HASH_INDEX pAddr)"

lemma MAC_ADDR_HASH_INDEX_less: "MAC_ADDR_HASH_INDEX a < 256"
  unfolding MAC_ADDR_HASH_INDEX_def using unsigned_less [where 'b = 8 and 'a = nat] by simp

text \<open>The entries of a chain that ends.\<close>

inductive chain_of :: "mac_entry list \<Rightarrow> nat option \<Rightarrow> nat list \<Rightarrow> bool" for content where
  chain_Nil: "chain_of content None []"
| chain_Cons: "chain_of content (mtNext (content ! i)) is \<Longrightarrow> chain_of content (Some i) (i # is)"

inductive_cases chain_of_NoneE: "chain_of content None is"
inductive_cases chain_of_SomeE: "chain_of content (Some i) is"
inductive_simps chain_of_simps [simp]: "chain_of content None is" "chain_of content (Some i) is" "chain_of content p []"

lemma mac_lookup_chain:
  assumes "chain_of content p is" and "\<forall>i \<in> set is. \<not> IS_ENTRY_NONE (content ! i)"
  shows "mac_lookup_loop content a p = Some (find (\<lambda>i. mtAddr (content ! i) = a) is)"
  using assms by (induction rule: chain_of.induct) (simp_all add: mac_lookup_loop.simps)

end
