(* ===== verification/Aes.thy ===== *)
theory Aes
  imports Aes_Tables
begin

text \<open>
  The AES block cipher of \<^verbatim>\<open>common/crypt_aes.c\<close>: \<^verbatim>\<open>RT_AES_KeyExpansion\<close>,
  \<^verbatim>\<open>RT_AES_Encrypt\<close> and \<^verbatim>\<open>RT_AES_Decrypt\<close>, with the steps of a round (inlined in the source
  under the comments \<^verbatim>\<open>AES_SubBytes\<close>, \<^verbatim>\<open>AES_ShiftRows\<close>, \<^verbatim>\<open>AES_MixColumns\<close>,
  \<^verbatim>\<open>AES_AddRoundKey\<close>) as definitions of their own. \<open>State[row][column]\<close> is a list of rows;
  the columns of \<^verbatim>\<open>KeyWordExpansion\<close> are a list that grows in the order the source fills it.

  The result the other modules use is the interface \<open>block_cipher\<close>: decryption inverts
  encryption on every 16 byte block.
\<close>

section \<open>Rounds\<close>

type_synonym aes_state = "u8 list list"

definition AES_LoadState :: "bytes \<Rightarrow> aes_state" where
  "AES_LoadState b = map (\<lambda>r. map (\<lambda>c. b ! (r + 4 * c)) [0..<4]) [0..<4]"

text \<open>The bytes \<^verbatim>\<open>[RowIndex + 4*ColumnIndex]\<close> of the output block, in their order.\<close>

definition AES_StoreState :: "aes_state \<Rightarrow> bytes" where
  "AES_StoreState st = map (\<lambda>i. st ! (i mod 4) ! (i div 4)) [0..<16]"

definition AES_SubBytes :: "aes_state \<Rightarrow> aes_state" where
  "AES_SubBytes st = map (map (\<lambda>x. aes_sbox_enc ! unat x)) st"

definition AES_InvSubBytes :: "aes_state \<Rightarrow> aes_state" where
  "AES_InvSubBytes st = map (map (\<lambda>x. aes_sbox_dec ! unat x)) st"

text \<open>The in-place rotations of a row, assignment by assignment.\<close>

definition row_rotate_1 :: "bytes \<Rightarrow> bytes" where
  "row_rotate_1 s = (let Temp = s ! 0; s = s[0 := s ! 1]; s = s[1 := s ! 2]; s = s[2 := s ! 3] in s[3 := Temp])"

definition row_rotate_2 :: "bytes \<Rightarrow> bytes" where
  "row_rotate_2 s = (let Temp = s ! 0; s = s[0 := s ! 2]; s = s[2 := Temp];
      Temp = s ! 1; s = s[1 := s ! 3] in s[3 := Temp])"

definition row_rotate_3 :: "bytes \<Rightarrow> bytes" where
  "row_rotate_3 s = (let Temp = s ! 3; s = s[3 := s ! 2]; s = s[2 := s ! 1]; s = s[1 := s ! 0] in s[0 := Temp])"

definition AES_ShiftRows :: "aes_state \<Rightarrow> aes_state" where
  "AES_ShiftRows st = [st ! 0, row_rotate_1 (st ! 1), row_rotate_2 (st ! 2), row_rotate_3 (st ! 3)]"

definition AES_InvShiftRows :: "aes_state \<Rightarrow> aes_state" where
  "AES_InvShiftRows st = [st ! 0, row_rotate_3 (st ! 1), row_rotate_2 (st ! 2), row_rotate_1 (st ! 3)]"

definition AES_MixColumns :: "aes_state \<Rightarrow> aes_state" where
  "AES_MixColumns st =
     (let Row0 = (\<lambda>c. st ! 0 ! c); Row1 = (\<lambda>c. st ! 1 ! c); Row2 = (\<lambda>c. st ! 2 ! c); Row3 = (\<lambda>c. st ! 3 ! c) in
      [map (\<lambda>c. aes_mul_2 ! unat (Row0 c) XOR aes_mul_3 ! unat (Row1 c) XOR Row2 c XOR Row3 c) [0..<4],
       map (\<lambda>c. Row0 c XOR aes_mul_2 ! unat (Row1 c) XOR aes_mul_3 ! unat (Row2 c) XOR Row3 c) [0..<4],
       map (\<lambda>c. Row0 c XOR Row1 c XOR aes_mul_2 ! unat (Row2 c) XOR aes_mul_3 ! unat (Row3 c)) [0..<4],
       map (\<lambda>c. aes_mul_3 ! unat (Row0 c) XOR Row1 c XOR Row2 c XOR aes_mul_2 ! unat (Row3 c)) [0..<4]])"

definition AES_InvMixColumns :: "aes_state \<Rightarrow> aes_state" where
  "AES_InvMixColumns st =
     (let Row0 = (\<lambda>c. unat (st ! 0 ! c)); Row1 = (\<lambda>c. unat (st ! 1 ! c));
          Row2 = (\<lambda>c. unat (st ! 2 ! c)); Row3 = (\<lambda>c. unat (st ! 3 ! c)) in
      [map (\<lambda>c. aes_mul_e ! Row0 c XOR aes_mul_b ! Row1 c XOR aes_mul_d ! Row2 c XOR aes_mul_9 ! Row3 c) [0..<4],
       map (\<lambda>c. aes_mul_9 ! Row0 c XOR aes_mul_e ! Row1 c XOR aes_mul_b ! Row2 c XOR aes_mul_d ! Row3 c) [0..<4],
       map (\<lambda>c. aes_mul_d ! Row0 c XOR aes_mul_9 ! Row1 c XOR aes_mul_e ! Row2 c XOR aes_mul_b ! Row3 c) [0..<4],
       map (\<lambda>c. aes_mul_b ! Row0 c XOR aes_mul_d ! Row1 c XOR aes_mul_9 ! Row2 c XOR aes_mul_e ! Row3 c) [0..<4]])"

definition AES_AddRoundKey :: "u8 list list \<Rightarrow> nat \<Rightarrow> aes_state \<Rightarrow> aes_state" where
  "AES_AddRoundKey kw RoundIndex st =
     map (\<lambda>r. map (\<lambda>c. st ! r ! c XOR kw ! (RoundIndex * 4 + c) ! r) [0..<4]) [0..<4]"

section \<open>Key expansion\<close>

definition aes_SubWord :: "bytes \<Rightarrow> bytes" where
  "aes_SubWord w = map (\<lambda>x. aes_sbox_enc ! unat x) w"

text \<open>The second loop body of \<^verbatim>\<open>RT_AES_KeyExpansion\<close>: \<open>TempWord\<close> and the new column.\<close>

definition aes_TempWord :: "nat \<Rightarrow> nat \<Rightarrow> bytes \<Rightarrow> bytes" where
  "aes_TempWord Nk KeyIndex w =
     (if KeyIndex mod Nk = 0 then
        (let rc = aes_rcon ! (KeyIndex div Nk)
         in [aes_sbox_enc ! unat (w ! 1) XOR ucast (drop_bit 24 rc AND 0xff),
             aes_sbox_enc ! unat (w ! 2) XOR ucast (drop_bit 16 rc AND 0xff),
             aes_sbox_enc ! unat (w ! 3) XOR ucast (drop_bit 8 rc AND 0xff),
             aes_sbox_enc ! unat (w ! 0) XOR ucast (rc AND 0xff)])
      else if Nk > 6 \<and> KeyIndex mod Nk = 4 then aes_SubWord w
      else w)"

definition aes_expand_step :: "nat \<Rightarrow> nat \<Rightarrow> u8 list list \<Rightarrow> u8 list list" where
  "aes_expand_step Nk KeyIndex kw =
     kw @ [xor_bytes (kw ! (KeyIndex - Nk)) (aes_TempWord Nk KeyIndex (kw ! (KeyIndex - 1)))]"

definition RT_AES_KeyExpansion :: "bytes \<Rightarrow> nat \<Rightarrow> u8 list list" where
  "RT_AES_KeyExpansion Key KeyLength =
     (let Nk = KeyLength div 4
      in fold (aes_expand_step Nk) [Nk..<4 * (KeyLength div 4 + 6 + 1)]
           (map (\<lambda>i. [Key ! (4 * i), Key ! (4 * i + 1), Key ! (4 * i + 2), Key ! (4 * i + 3)]) [0..<Nk]))"

section \<open>Encryption and decryption of a block\<close>

definition aes_encrypt_round :: "u8 list list \<Rightarrow> nat \<Rightarrow> aes_state \<Rightarrow> aes_state" where
  "aes_encrypt_round kw RoundIndex st =
     AES_AddRoundKey kw RoundIndex (AES_MixColumns (AES_ShiftRows (AES_SubBytes st)))"

definition aes_decrypt_round :: "u8 list list \<Rightarrow> nat \<Rightarrow> aes_state \<Rightarrow> aes_state" where
  "aes_decrypt_round kw RoundIndex st =
     AES_InvMixColumns (AES_AddRoundKey kw RoundIndex (AES_InvSubBytes (AES_InvShiftRows st)))"

definition aes_encrypt_state :: "u8 list list \<Rightarrow> nat \<Rightarrow> aes_state \<Rightarrow> aes_state" where
  "aes_encrypt_state kw NumberOfRound st =
     AES_AddRoundKey kw NumberOfRound (AES_ShiftRows (AES_SubBytes
       (fold (aes_encrypt_round kw) [1..<NumberOfRound] (AES_AddRoundKey kw 0 st))))"

definition aes_decrypt_state :: "u8 list list \<Rightarrow> nat \<Rightarrow> aes_state \<Rightarrow> aes_state" where
  "aes_decrypt_state kw NumberOfRound st =
     AES_AddRoundKey kw 0 (AES_InvSubBytes (AES_InvShiftRows
       (fold (aes_decrypt_round kw) (rev [1..<NumberOfRound]) (AES_AddRoundKey kw NumberOfRound st))))"

text \<open>
  \<^verbatim>\<open>RT_AES_Encrypt\<close> and \<^verbatim>\<open>RT_AES_Decrypt\<close>: the new contents of the output block and of the
  size behind the pointer. \<open>al\<close> says whether \<^verbatim>\<open>os_alloc_mem\<close> delivers the context. Every
  error return leaves both as they were.
\<close>

definition aes_key_length_ok :: "nat \<Rightarrow> bool" where
  "aes_key_length_ok KeyLength \<longleftrightarrow> KeyLength = 16 \<or> KeyLength = 24 \<or> KeyLength = 32"

definition RT_AES_Encrypt :: "bool \<Rightarrow> bytes \<Rightarrow> nat \<Rightarrow> bytes \<Rightarrow> nat \<Rightarrow> bytes \<Rightarrow> nat \<Rightarrow> bytes \<times> nat" where
  "RT_AES_Encrypt al PlainBlock PlainBlockSize Key KeyLength CipherBlock CipherBlockSize =
     (if PlainBlockSize \<noteq> 16 then (CipherBlock, CipherBlockSize)
      else if \<not> aes_key_length_ok KeyLength then (CipherBlock, CipherBlockSize)
      else if CipherBlockSize < 16 then (CipherBlock, CipherBlockSize)
      else if \<not> al then (CipherBlock, CipherBlockSize)
      else (write_at CipherBlock 0 (AES_StoreState
             (aes_encrypt_state (RT_AES_KeyExpansion Key KeyLength) (KeyLength div 4 + 6) (AES_LoadState PlainBlock))), 16))"

definition RT_AES_Decrypt :: "bool \<Rightarrow> bytes \<Rightarrow> nat \<Rightarrow> bytes \<Rightarrow> nat \<Rightarrow> bytes \<Rightarrow> nat \<Rightarrow> bytes \<times> nat" where
  "RT_AES_Decrypt al CipherBlock CipherBlockSize Key KeyLength PlainBlock PlainBlockSize =
     (if PlainBlockSize < 16 then (PlainBlock, PlainBlockSize)
      else if \<not> aes_key_length_ok KeyLength then (PlainBlock, PlainBlockSize)
      else if CipherBlockSize \<noteq> 16 then (PlainBlock, PlainBlockSize)
      else if \<not> al then (PlainBlock, PlainBlockSize)
      else (write_at PlainBlock 0 (AES_StoreState
             (aes_decrypt_state (RT_AES_KeyExpansion Key KeyLength) (KeyLength div 4 + 6) (AES_LoadState CipherBlock))), 16))"

section \<open>Inverse steps\<close>

definition wf_state :: "aes_state \<Rightarrow> bool" where
  "wf_state st \<longleftrightarrow> length st = 4 \<and> (\<forall>r \<in> set st. length r = 4)"

lemma wf_state_cases:
  assumes "wf_state st"
  obtains a0 a1 a2 a3 b0 b1 b2 b3 c0 c1 c2 c3 d0 d1 d2 d3
  where "st = [[a0, a1, a2, a3], [b0, b1, b2, b3], [c0, c1, c2, c3], [d0, d1, d2, d3]]"
proof -
  obtain a b c d where st: "st = [a, b, c, d]"
    using assms by (auto simp: wf_state_def elim: length_4_cases)
  obtain a0 a1 a2 a3 where a: "a = [a0, a1, a2, a3]" using assms st by (auto simp: wf_state_def elim: length_4_cases)
  obtain b0 b1 b2 b3 where b: "b = [b0, b1, b2, b3]" using assms st by (auto simp: wf_state_def elim: length_4_cases)
  obtain c0 c1 c2 c3 where c: "c = [c0, c1, c2, c3]" using assms st by (auto simp: wf_state_def elim: length_4_cases)
  obtain d0 d1 d2 d3 where d: "d = [d0, d1, d2, d3]" using assms st by (auto simp: wf_state_def elim: length_4_cases)
  show ?thesis by (rule that) (simp add: st a b c d)
qed

named_theorems aes_wf

lemma upt_0_4: "[0..<4] = [0, 1, 2, 3 :: nat]"
  by (simp add: upt_rec)

lemma wf_LoadState [aes_wf]: "wf_state (AES_LoadState b)"
  by (simp add: wf_state_def AES_LoadState_def)

lemma wf_SubBytes [aes_wf]: "wf_state st \<Longrightarrow> wf_state (AES_SubBytes st)"
  by (simp add: wf_state_def AES_SubBytes_def)

lemma wf_ShiftRows [aes_wf]: "wf_state st \<Longrightarrow> wf_state (AES_ShiftRows st)"
  by (erule wf_state_cases)
     (simp add: wf_state_def AES_ShiftRows_def row_rotate_1_def row_rotate_2_def row_rotate_3_def Let_def)

lemma wf_MixColumns [aes_wf]: "wf_state (AES_MixColumns st)"
  by (simp add: wf_state_def AES_MixColumns_def Let_def)

lemma wf_AddRoundKey [aes_wf]: "wf_state (AES_AddRoundKey kw r st)"
  by (simp add: wf_state_def AES_AddRoundKey_def)

lemma InvSubBytes_SubBytes: "AES_InvSubBytes (AES_SubBytes st) = st"
  by (simp add: AES_InvSubBytes_def AES_SubBytes_def comp_def aes_sbox_dec_enc)

lemma InvShiftRows_ShiftRows: "wf_state st \<Longrightarrow> AES_InvShiftRows (AES_ShiftRows st) = st"
  by (erule wf_state_cases)
     (simp add: AES_InvShiftRows_def AES_ShiftRows_def row_rotate_1_def row_rotate_2_def row_rotate_3_def Let_def)

lemma AddRoundKey_AddRoundKey: "wf_state st \<Longrightarrow> AES_AddRoundKey kw r (AES_AddRoundKey kw r st) = st"
  by (erule wf_state_cases) (simp add: AES_AddRoundKey_def upt_0_4 xor.assoc)

lemma InvMixColumns_MixColumns: "wf_state st \<Longrightarrow> AES_InvMixColumns (AES_MixColumns st) = st"
  by (erule wf_state_cases)
     (simp add: AES_InvMixColumns_def AES_MixColumns_def Let_def upt_0_4 aes_mul_nth gf_defs xtime_xor
        xor.assoc xor.left_commute xor.commute)

lemma wf_encrypt_rounds [aes_wf]:
  "wf_state st \<Longrightarrow> wf_state (fold (aes_encrypt_round kw) rs st)"
  by (induction rs arbitrary: st) (simp_all add: aes_encrypt_round_def aes_wf)

text \<open>A decryption round undoes an encryption round up to the substitution and shift of its
  input, which the next decryption round undoes.\<close>

lemma decrypt_round_step:
  assumes "wf_state st"
  shows "aes_decrypt_round kw r (AES_ShiftRows (AES_SubBytes (aes_encrypt_round kw r st))) =
    AES_ShiftRows (AES_SubBytes st)"
  using assms
  by (simp add: aes_decrypt_round_def aes_encrypt_round_def InvShiftRows_ShiftRows InvSubBytes_SubBytes
    AddRoundKey_AddRoundKey InvMixColumns_MixColumns aes_wf)

lemma decrypt_rounds:
  assumes "wf_state st"
  shows "fold (aes_decrypt_round kw) (rev rs) (AES_ShiftRows (AES_SubBytes (fold (aes_encrypt_round kw) rs st))) =
    AES_ShiftRows (AES_SubBytes st)"
proof (induction rs rule: rev_induct)
  case Nil
  show ?case by simp
next
  case (snoc r rs)
  then show ?case using assms by (simp add: decrypt_round_step aes_wf)
qed

lemma aes_decrypt_encrypt_state:
  assumes "wf_state st"
  shows "aes_decrypt_state kw n (aes_encrypt_state kw n st) = st"
  using assms
  by (simp add: aes_decrypt_state_def aes_encrypt_state_def AddRoundKey_AddRoundKey decrypt_rounds
    InvShiftRows_ShiftRows InvSubBytes_SubBytes aes_wf)

lemma wf_encrypt_state [aes_wf]: "wf_state (aes_encrypt_state kw n st)"
  by (simp add: aes_encrypt_state_def aes_wf)

lemma LoadState_StoreState: "wf_state st \<Longrightarrow> AES_LoadState (AES_StoreState st) = st"
  by (erule wf_state_cases) (simp add: AES_LoadState_def AES_StoreState_def upt_0_4)

lemma StoreState_LoadState: "length b = 16 \<Longrightarrow> AES_StoreState (AES_LoadState b) = b"
proof (rule nth_equalityI)
  fix i assume "length b = 16" and "i < length (AES_StoreState (AES_LoadState b))"
  then have "i < 16" by (simp add: AES_StoreState_def)
  then have "i div 4 < 4" by presburger
  then show "AES_StoreState (AES_LoadState b) ! i = b ! i"
    using \<open>i < 16\<close> by (simp add: AES_StoreState_def AES_LoadState_def)
qed (simp add: AES_StoreState_def)

section \<open>The cipher as a function on blocks\<close>

definition aes_E :: "bytes \<Rightarrow> nat \<Rightarrow> bytes \<Rightarrow> bytes" where
  "aes_E Key KeyLength b =
     AES_StoreState (aes_encrypt_state (RT_AES_KeyExpansion Key KeyLength) (KeyLength div 4 + 6) (AES_LoadState b))"

definition aes_D :: "bytes \<Rightarrow> nat \<Rightarrow> bytes \<Rightarrow> bytes" where
  "aes_D Key KeyLength b =
     AES_StoreState (aes_decrypt_state (RT_AES_KeyExpansion Key KeyLength) (KeyLength div 4 + 6) (AES_LoadState b))"

text \<open>What the modes of operation rely on.\<close>

locale block_cipher =
  fixes E :: "bytes \<Rightarrow> bytes" and D :: "bytes \<Rightarrow> bytes"
  assumes length_E [simp]: "length (E b) = 16"
    and length_D [simp]: "length (D b) = 16"
    and D_E: "length b = 16 \<Longrightarrow> D (E b) = b"
begin

lemma E_inj: "length a = 16 \<Longrightarrow> length b = 16 \<Longrightarrow> E a = E b \<Longrightarrow> a = b"
  using D_E by metis

end

interpretation aes: block_cipher "aes_E Key KeyLength" "aes_D Key KeyLength" for Key KeyLength
proof
  show "length (aes_E Key KeyLength b) = 16" "length (aes_D Key KeyLength b) = 16" for b
    by (simp_all add: aes_E_def aes_D_def AES_StoreState_def)
  show "aes_D Key KeyLength (aes_E Key KeyLength b) = b" if "length b = 16" for b
    using that
    by (simp add: aes_E_def aes_D_def LoadState_StoreState aes_decrypt_encrypt_state StoreState_LoadState
      aes_wf)
qed

lemma RT_AES_Encrypt_ok:
  "aes_key_length_ok KeyLength \<Longrightarrow> 16 \<le> sz \<Longrightarrow>
    RT_AES_Encrypt True b 16 Key KeyLength out sz = (write_at out 0 (aes_E Key KeyLength b), 16)"
  by (simp add: RT_AES_Encrypt_def aes_E_def)

lemma RT_AES_Decrypt_ok:
  "aes_key_length_ok KeyLength \<Longrightarrow> 16 \<le> sz \<Longrightarrow>
    RT_AES_Decrypt True b 16 Key KeyLength out sz = (write_at out 0 (aes_D Key KeyLength b), 16)"
  by (simp add: RT_AES_Decrypt_def aes_D_def)

section \<open>Properties\<close>

text \<open>
  (C19) For each of the three key lengths, decrypting what \<^verbatim>\<open>RT_AES_Encrypt\<close> stored gives the plain
  block back: every key is a permutation of the blocks.
\<close>

theorem RT_AES_Decrypt_Encrypt:
  assumes "aes_key_length_ok KeyLength" and "length b = 16" and "length c = 16" and "16 \<le> cs" and "16 \<le> ps"
  shows "\<exists>c'. RT_AES_Encrypt True b 16 Key KeyLength c cs = (c', 16) \<and>
    RT_AES_Decrypt True c' 16 Key KeyLength p ps = (write_at p 0 b, 16)"
  using assms aes.D_E [of b Key KeyLength]
  by (simp add: RT_AES_Encrypt_ok RT_AES_Decrypt_ok write_at_def)

theorem RT_AES_Decrypt_Encrypt_witness:
  "\<exists>c'. RT_AES_Encrypt True (replicate 16 7) 16 (replicate 24 1) 24 (replicate 16 0) 16 = (c', 16) \<and>
    RT_AES_Decrypt True c' 16 (replicate 24 1) 24 (replicate 16 0) 16 = (write_at (replicate 16 0) 0 (replicate 16 7), 16)"
  using RT_AES_Decrypt_Encrypt [of 24 "replicate 16 7" "replicate 16 0" 16 16 "replicate 24 1" "replicate 16 0"]
  by (simp add: aes_key_length_ok_def)

end
