(* ===== verification/Aes_Wrap.thy ===== *)
theory Aes_Wrap
  imports Aes
begin

text \<open>
  AES key wrap, \<^verbatim>\<open>common/crypt_aes.c\<close>: \<^verbatim>\<open>AES_Key_Wrap\<close> and \<^verbatim>\<open>AES_Key_Unwrap\<close>, which protect the
  key data of the EAPOL-Key frames. The allocations the functions make are numbered:
  \<open>al 0\<close> is the one for \<^verbatim>\<open>pResult\<close>, the others those of the block cipher calls in their
  order. \<open>B0\<close> is the content of the local array \<^verbatim>\<open>Block_B\<close> before its first use.

  Unwrapping inverts wrapping for every length; on whole blocks, up to 42 of them, wrapping
  is the algorithm of RFC 3394. Unwrapping does not compare the recovered initial value.
\<close>

section \<open>Operations\<close>

definition Default_IV :: bytes where
  "Default_IV = [0xa6, 0xa6, 0xa6, 0xa6, 0xa6, 0xa6, 0xa6, 0xa6]"

text \<open>The local state of the loops: allocation count, \<open>IV\<close>, \<open>pResult\<close>, \<open>Block_B\<close>.\<close>

record wrap_vars =
  calls :: nat
  wIV :: bytes
  pResult :: bytes
  Block_B :: bytes

definition key_wrap_body ::
    "(nat \<Rightarrow> bool) \<Rightarrow> bytes \<Rightarrow> nat \<Rightarrow> nat \<Rightarrow> nat \<Rightarrow> nat \<Rightarrow> wrap_vars \<Rightarrow> wrap_vars" where
  "key_wrap_body al Key KeyLength Number_Of_Block Index_j Index_i v =
     (let Block_Input = wIV v @ read_at (Index_i * 8) 8 (pResult v);
          B = fst (RT_AES_Encrypt (al (calls v)) Block_Input 16 Key KeyLength (Block_B v) 16)
      in \<lparr>calls = Suc (calls v),
          wIV = (take 8 B)[7 := B ! 7 XOR of_nat (Number_Of_Block * Index_j + Index_i + 1)],
          pResult = write_at (pResult v) (Index_i * 8) (read_at 8 8 B),
          Block_B = B\<rparr>)"

definition key_unwrap_body ::
    "(nat \<Rightarrow> bool) \<Rightarrow> bytes \<Rightarrow> nat \<Rightarrow> nat \<Rightarrow> nat \<Rightarrow> nat \<Rightarrow> wrap_vars \<Rightarrow> wrap_vars" where
  "key_unwrap_body al Key KeyLength Number_Of_Block Index_j Index_i v =
     (let IV = (wIV v)[7 := wIV v ! 7 XOR of_nat (Number_Of_Block * Index_j + Index_i + 1)];
          Block_Input = IV @ read_at (Index_i * 8) 8 (pResult v);
          B = fst (RT_AES_Decrypt (al (calls v)) Block_Input 16 Key KeyLength (Block_B v) 16)
      in \<lparr>calls = Suc (calls v),
          wIV = take 8 B,
          pResult = write_at (pResult v) (Index_i * 8) (read_at 8 8 B),
          Block_B = B\<rparr>)"

text \<open>
  The result is the function value, the output buffer and the length behind the pointer.
\<close>

definition AES_Key_Wrap ::
    "(nat \<Rightarrow> bool) \<Rightarrow> bytes \<Rightarrow> bytes \<Rightarrow> nat \<Rightarrow> bytes \<Rightarrow> nat \<Rightarrow> bytes \<Rightarrow> nat \<Rightarrow> int \<times> bytes \<times> nat" where
  "AES_Key_Wrap al B0 PlainText PlainTextLength Key KeyLength CipherText CipherTextLength =
     (if \<not> aes_key_length_ok KeyLength then (-1, CipherText, CipherTextLength)
      else if \<not> al 0 then (-2, CipherText, CipherTextLength)
      else let Number_Of_Block = PlainTextLength div 8;
               v0 = \<lparr>calls = 1, wIV = Default_IV, pResult = take PlainTextLength PlainText, Block_B = B0\<rparr>;
               v = fold (\<lambda>Index_j. fold (key_wrap_body al Key KeyLength Number_Of_Block Index_j) [0..<Number_Of_Block]) [0..<6] v0
           in (0, write_at (write_at CipherText 0 (wIV v)) 8 (pResult v), (PlainTextLength + 8) mod 2 ^ 32))"

text \<open>
  \<^verbatim>\<open>AES_Key_Unwrap\<close>. \<open>None\<close> is the read outside the buffers that follows the unsigned
  underflow of \<^verbatim>\<open>CipherTextLength - 8\<close>.
\<close>

definition AES_Key_Unwrap ::
    "(nat \<Rightarrow> bool) \<Rightarrow> bytes \<Rightarrow> bytes \<Rightarrow> nat \<Rightarrow> bytes \<Rightarrow> nat \<Rightarrow> bytes \<Rightarrow> nat \<Rightarrow> (int \<times> bytes \<times> nat) option" where
  "AES_Key_Unwrap al B0 CipherText CipherTextLength Key KeyLength PlainText PlainTextLength =
     (if \<not> aes_key_length_ok KeyLength then Some (-1, PlainText, PlainTextLength)
      else if \<not> al 0 then Some (-2, PlainText, PlainTextLength)
      else if CipherTextLength < 8 then None
      else let PlainLength = CipherTextLength - 8;
               Number_Of_Block = PlainLength div 8;
               v0 = \<lparr>calls = 1, wIV = take 8 CipherText, pResult = read_at 8 PlainLength CipherText, Block_B = B0\<rparr>;
               v = fold (\<lambda>Index_j. fold (key_unwrap_body al Key KeyLength Number_Of_Block Index_j) (rev [0..<Number_Of_Block]))
                     (rev [0..<6]) v0
           in Some (0, write_at PlainText 0 (pResult v), PlainLength))"

section \<open>Unwrapping inverts wrapping\<close>

text \<open>The part of the loop state that the two loops compute, as a function of the cipher.\<close>

definition wrap_step :: "(bytes \<Rightarrow> bytes) \<Rightarrow> nat \<times> nat \<Rightarrow> bytes \<times> bytes \<Rightarrow> bytes \<times> bytes" where
  "wrap_step E = (\<lambda>(t, i) (iv, r). let B = E (iv @ read_at (i * 8) 8 r)
     in ((take 8 B)[7 := B ! 7 XOR of_nat t], write_at r (i * 8) (read_at 8 8 B)))"

definition unwrap_step :: "(bytes \<Rightarrow> bytes) \<Rightarrow> nat \<times> nat \<Rightarrow> bytes \<times> bytes \<Rightarrow> bytes \<times> bytes" where
  "unwrap_step D = (\<lambda>(t, i) (iv, r). let B = D (iv[7 := iv ! 7 XOR of_nat t] @ read_at (i * 8) 8 r)
     in (take 8 B, write_at r (i * 8) (read_at 8 8 B)))"

text \<open>The counter and block index of each pass, in the order of \<^verbatim>\<open>AES_Key_Wrap\<close>.\<close>

definition wrap_order :: "nat \<Rightarrow> (nat \<times> nat) list" where
  "wrap_order n = concat (map (\<lambda>j. map (\<lambda>i. (n * j + i + 1, i)) [0..<n]) [0..<6])"

definition wrap_ok :: "nat \<Rightarrow> bytes \<times> bytes \<Rightarrow> bool" where
  "wrap_ok len s \<longleftrightarrow> length (fst s) = 8 \<and> length (snd s) = len"

context block_cipher
begin

lemma wrap_step_ok:
  "wrap_ok len s \<Longrightarrow> i * 8 + 8 \<le> len \<Longrightarrow> wrap_ok len (wrap_step E (t, i) s)"
  by (auto simp: wrap_ok_def wrap_step_def Let_def split_beta length_write_at)

lemma unwrap_wrap_step:
  assumes "wrap_ok len s" and "i * 8 + 8 \<le> len"
  shows "unwrap_step D (t, i) (wrap_step E (t, i) s) = s"
proof -
  obtain iv r where s: "s = (iv, r)" by fastforce
  define B where "B = E (iv @ read_at (i * 8) 8 r)"
  have len: "length iv = 8" "length r = len" "length B = 16"
    using assms(1) by (simp_all add: s wrap_ok_def B_def)
  have "take 8 B ! 7 = B ! 7" by simp
  then have iv': "(take 8 B)[7 := B ! 7] = take 8 B"
    by (metis list_update_id)
  have w: "wrap_step E (t, i) s = ((take 8 B)[7 := B ! 7 XOR of_nat t], write_at r (i * 8) (read_at 8 8 B))"
    by (simp add: s wrap_step_def Let_def B_def)
  have r': "read_at (i * 8) 8 (write_at r (i * 8) (read_at 8 8 B)) = read_at 8 8 B"
    using len assms(2) by (simp add: read_at_def write_at_def)
  have B: "take 8 B @ read_at 8 8 B = B"
    using len by (simp add: read_at_def)
  have DB: "D B = iv @ read_at (i * 8) 8 r"
    unfolding B_def using len assms(2) by (intro D_E) (simp add: length_read_at)
  have "write_at (write_at r (i * 8) (read_at 8 8 B)) (i * 8) (read_at (i * 8) 8 r) = r"
    using len assms(2) by simp
  then show ?thesis
    using len unfolding w unwrap_step_def
    by (simp add: Let_def iv' r' B DB) (simp add: s read_at_def)
qed

lemma unwrap_wrap:
  assumes "wrap_ok len s" and "\<forall>(t, i) \<in> set ps. i * 8 + 8 \<le> len"
  shows "fold (unwrap_step D) (rev ps) (fold (wrap_step E) ps s) = s"
  using assms
proof (induction ps arbitrary: s)
  case Nil
  then show ?case by simp
next
  case (Cons p ps)
  obtain t i where p: "p = (t, i)" by fastforce
  have "fold (unwrap_step D) (rev ps) (fold (wrap_step E) ps (wrap_step E p s)) = wrap_step E p s"
    using Cons.prems by (intro Cons.IH) (auto simp: p wrap_step_ok)
  then show ?case using Cons.prems by (simp add: p unwrap_wrap_step)
qed

lemma wrap_fold_ok:
  assumes "wrap_ok len s" and "\<forall>(t, i) \<in> set ps. i * 8 + 8 \<le> len"
  shows "wrap_ok len (fold (wrap_step E) ps s)"
  using assms
proof (induction ps arbitrary: s)
  case (Cons p ps)
  then show ?case by (cases p) (simp add: wrap_step_ok)
qed simp

end

section \<open>The loops as iterations of the steps\<close>

lemma write_at_whole: "length xs = length ys \<Longrightarrow> write_at xs 0 ys = ys"
  by (simp add: write_at_def)

definition wrap_abs :: "wrap_vars \<Rightarrow> bytes \<times> bytes" where
  "wrap_abs v = (wIV v, pResult v)"

lemma key_wrap_body_step:
  assumes "alloc_ok al" and "aes_key_length_ok KeyLength" and "length (Block_B v) = 16"
  shows "length (Block_B (key_wrap_body al Key KeyLength n j i v)) = 16 \<and>
    wrap_abs (key_wrap_body al Key KeyLength n j i v) = wrap_step (aes_E Key KeyLength) (n * j + i + 1, i) (wrap_abs v)"
  using assms
  by (simp add: key_wrap_body_def RT_AES_Encrypt_ok write_at_whole wrap_abs_def wrap_step_def Let_def)

lemma key_unwrap_body_step:
  assumes "alloc_ok al" and "aes_key_length_ok KeyLength" and "length (Block_B v) = 16"
  shows "length (Block_B (key_unwrap_body al Key KeyLength n j i v)) = 16 \<and>
    wrap_abs (key_unwrap_body al Key KeyLength n j i v) = unwrap_step (aes_D Key KeyLength) (n * j + i + 1, i) (wrap_abs v)"
  using assms
  by (simp add: key_unwrap_body_def RT_AES_Decrypt_ok write_at_whole wrap_abs_def unwrap_step_def Let_def)

lemma key_wrap_loops:
  assumes "alloc_ok al" and "aes_key_length_ok KeyLength" and "length (Block_B v) = 16"
  shows "wrap_abs (fold (\<lambda>j. fold (key_wrap_body al Key KeyLength n j) [0..<n]) [0..<6] v) =
    fold (wrap_step (aes_E Key KeyLength)) (wrap_order n) (wrap_abs v)"
proof -
  let ?Q = "\<lambda>v. length (Block_B v) = 16"
  have inner: "?Q (fold (key_wrap_body al Key KeyLength n j) [0..<n] v) \<and>
      wrap_abs (fold (key_wrap_body al Key KeyLength n j) [0..<n] v) =
      fold (\<lambda>i. wrap_step (aes_E Key KeyLength) (n * j + i + 1, i)) [0..<n] (wrap_abs v)" if "?Q v" for j v
    by (rule fold_simulation [where Q = ?Q and proj = wrap_abs]) (use that key_wrap_body_step [OF assms(1,2)] in auto)
  show ?thesis
    using fold_simulation [of "[0..<6]" ?Q "\<lambda>j. fold (key_wrap_body al Key KeyLength n j) [0..<n]" wrap_abs
        "\<lambda>j. fold (\<lambda>i. wrap_step (aes_E Key KeyLength) (n * j + i + 1, i)) [0..<n]" v] inner assms(3)
    by (simp add: wrap_order_def fold_concat_map fold_map comp_def)
qed

lemma key_unwrap_loops:
  assumes "alloc_ok al" and "aes_key_length_ok KeyLength" and "length (Block_B v) = 16"
  shows "wrap_abs (fold (\<lambda>j. fold (key_unwrap_body al Key KeyLength n j) (rev [0..<n])) (rev [0..<6]) v) =
    fold (unwrap_step (aes_D Key KeyLength)) (rev (wrap_order n)) (wrap_abs v)"
proof -
  let ?Q = "\<lambda>v. length (Block_B v) = 16"
  have inner: "?Q (fold (key_unwrap_body al Key KeyLength n j) (rev [0..<n]) v) \<and>
      wrap_abs (fold (key_unwrap_body al Key KeyLength n j) (rev [0..<n]) v) =
      fold (\<lambda>i. unwrap_step (aes_D Key KeyLength) (n * j + i + 1, i)) (rev [0..<n]) (wrap_abs v)" if "?Q v" for j v
    by (rule fold_simulation [where Q = ?Q and proj = wrap_abs]) (use that key_unwrap_body_step [OF assms(1,2)] in auto)
  have order: "rev (wrap_order n) = concat (map (\<lambda>j. map (\<lambda>i. (n * j + i + 1, i)) (rev [0..<n])) (rev [0..<6]))"
    by (simp add: wrap_order_def rev_concat rev_map comp_def)
  show ?thesis
    unfolding order
    using fold_simulation [of "rev [0..<6]" ?Q "\<lambda>j. fold (key_unwrap_body al Key KeyLength n j) (rev [0..<n])" wrap_abs
        "\<lambda>j. fold (\<lambda>i. unwrap_step (aes_D Key KeyLength) (n * j + i + 1, i)) (rev [0..<n])" v] inner assms(3)
    by (simp add: fold_concat_map fold_map comp_def)
qed

lemma wrap_order_bound: "\<forall>(t, i) \<in> set (wrap_order (len div 8)). i * 8 + 8 \<le> len"
  by (auto simp: wrap_order_def)

lemma AES_Key_Wrap_ok:
  assumes "alloc_ok al" and "aes_key_length_ok KeyLength" and "length B0 = 16"
    and "fold (wrap_step (aes_E Key KeyLength)) (wrap_order (length p div 8)) (Default_IV, p) = (iv, r)"
    and "length p + 8 \<le> length c" and "length p + 8 < 2 ^ 32"
  shows "AES_Key_Wrap al B0 p (length p) Key KeyLength c n = (0, write_at c 0 (iv @ r), length p + 8)"
proof -
  have "wrap_ok (length p) (iv, r)"
    using aes.wrap_fold_ok [of "length p" "(Default_IV, p)" "wrap_order (length p div 8)" Key KeyLength] wrap_order_bound assms(4)
    by (simp add: wrap_ok_def Default_IV_def)
  then have "write_at (write_at c 0 iv) 8 r = write_at c 0 (iv @ r)"
    using assms(5) by (simp add: wrap_ok_def write_at_def add.commute)
  then show ?thesis
    using key_wrap_loops [OF assms(1,2), of "\<lparr>calls = 1, wIV = Default_IV, pResult = p, Block_B = B0\<rparr>" Key "length p div 8"]
      assms by (simp add: AES_Key_Wrap_def Let_def wrap_abs_def)
qed

lemma AES_Key_Unwrap_ok:
  assumes "alloc_ok al" and "aes_key_length_ok KeyLength" and "length B0 = 16" and "length iv = 8"
    and "length c = length p + 8" and "take 8 c = iv" and "drop 8 c = r"
    and "fold (unwrap_step (aes_D Key KeyLength)) (rev (wrap_order (length p div 8))) (iv, r) = (iv', p)"
  shows "AES_Key_Unwrap al B0 c (length c) Key KeyLength out n = Some (0, write_at out 0 p, length p)"
proof -
  have "read_at 8 (length p) c = r" using assms(5) by (simp add: read_at_def flip: assms(7))
  then show ?thesis
    using key_unwrap_loops [OF assms(1,2), of "\<lparr>calls = 1, wIV = iv, pResult = r, Block_B = B0\<rparr>" Key "length p div 8"]
      assms by (simp add: AES_Key_Unwrap_def Let_def wrap_abs_def)
qed

lemma key_unwrap_key_wrap:
  assumes "alloc_ok al" and "alloc_ok al'" and "aes_key_length_ok KeyLength"
    and "length B0 = 16" and "length B1 = 16"
    and "length p + 8 < 2 ^ 32" and "length c = length p + 8"
  shows "\<exists>c'. AES_Key_Wrap al B0 p (length p) Key KeyLength c n = (0, c', length p + 8) \<and>
    AES_Key_Unwrap al' B1 c' (length p + 8) Key KeyLength out m = Some (0, write_at out 0 p, length p)"
proof -
  let ?E = "aes_E Key KeyLength" and ?D = "aes_D Key KeyLength" and ?o = "wrap_order (length p div 8)"
  obtain iv r where f: "fold (wrap_step ?E) ?o (Default_IV, p) = (iv, r)" by fastforce
  have ok: "wrap_ok (length p) (Default_IV, p)" by (simp add: wrap_ok_def Default_IV_def)
  have len: "length iv = 8" "length r = length p"
    using aes.wrap_fold_ok [OF ok wrap_order_bound, of Key KeyLength] f by (simp_all add: wrap_ok_def)
  have "fold (unwrap_step ?D) (rev ?o) (iv, r) = (Default_IV, p)"
    using aes.unwrap_wrap [OF ok wrap_order_bound, of Key KeyLength] f by simp
  then have "AES_Key_Unwrap al' B1 (iv @ r) (length (iv @ r)) Key KeyLength out m = Some (0, write_at out 0 p, length p)"
    using assms len by (intro AES_Key_Unwrap_ok) simp_all
  moreover have "AES_Key_Wrap al B0 p (length p) Key KeyLength c n = (0, iv @ r, length p + 8)"
    using AES_Key_Wrap_ok [OF assms(1,3,4) f, of c n] assms len by (simp add: write_at_whole)
  ultimately show ?thesis using len by (simp add: add.commute)
qed

section \<open>Reference: RFC 3394\<close>

text \<open>The registers are the 64 bit blocks \<open>R\<close>; the step counter \<open>t\<close> is XORed as a 64 bit integer.\<close>

definition rfc3394_step :: "(bytes \<Rightarrow> bytes) \<Rightarrow> nat \<times> nat \<Rightarrow> bytes \<times> bytes list \<Rightarrow> bytes \<times> bytes list" where
  "rfc3394_step E = (\<lambda>(t, i) (a, R). let B = E (a @ R ! i)
     in (xor_bytes (take 8 B) (store_be64 (of_nat t)), R[i := drop 8 B]))"

definition rfc3394_wrap :: "(bytes \<Rightarrow> bytes) \<Rightarrow> bytes list \<Rightarrow> bytes" where
  "rfc3394_wrap E P =
     (let (a, R) = fold (\<lambda>j. fold (\<lambda>i. rfc3394_step E (length P * j + i + 1, i)) [0..<length P]) [0..<6] (Default_IV, P)
      in a @ concat R)"

definition rfc_ok :: "nat \<Rightarrow> bytes \<times> bytes list \<Rightarrow> bool" where
  "rfc_ok n s \<longleftrightarrow> length (fst s) = 8 \<and> length (snd s) = n \<and> (\<forall>b \<in> set (snd s). length b = 8)"

lemma store_be64_small:
  assumes "t < 256"
  shows "store_be64 (of_nat t) = replicate 7 0 @ [of_nat t]"
proof -
  have "drop_bit n (of_nat t :: u64) = 0" if "8 \<le> n" for n
  proof -
    have "t < 2 ^ n" using assms that power_increasing [of 8 n "2 :: nat"] by simp
    moreover have "unat (of_nat t :: u64) = t" using assms by (simp add: unat_of_nat)
    then have "unat (drop_bit n (of_nat t :: u64)) = drop_bit n (take_bit 64 t)"
      by (simp add: unsigned_drop_bit_eq)
    moreover have "take_bit 64 t = t" using assms by (simp add: take_bit_nat_eq_self)
    ultimately show ?thesis by (simp add: drop_bit_eq_div [of n t] unat_eq_0 [symmetric] del: unat_eq_0)
  qed
  moreover have "(ucast (of_nat t :: u64) :: u8) = of_nat t"
    using assms by (simp add: unsigned_of_nat take_bit_nat_eq_self)
  ultimately show ?thesis by (simp add: store_be64_def numeral_eq_Suc)
qed

lemma xor_last:
  assumes "length xs = 8"
  shows "xor_bytes xs (replicate 7 0 @ [v]) = xs[7 := xs ! 7 XOR v]"
proof -
  have "xs \<noteq> []" using assms by auto
  then obtain ys y where xs: "xs = ys @ [y]" by (metis append_butlast_last_id)
  then have "length ys = 7" using assms by simp
  then show ?thesis by (simp add: xs xor_bytes_append list_update_append nth_append del: replicate.simps)
qed

lemma wrap_order_counter: "(t, i) \<in> set (wrap_order n) \<Longrightarrow> i < n \<and> t \<le> 6 * n"
proof -
  assume "(t, i) \<in> set (wrap_order n)"
  then obtain j where j: "t = n * j + i + 1" "i < n" "j < 6" by (auto simp: wrap_order_def)
  have "n * j \<le> n * 5" using j(3) by (intro mult_le_mono2) simp
  then show ?thesis using j by linarith
qed

context block_cipher
begin

lemma rfc3394_step_sim:
  assumes "rfc_ok n s" and "t < 256" and "i < n"
  shows "rfc_ok n (rfc3394_step E (t, i) s) \<and>
    map_prod id concat (rfc3394_step E (t, i) s) = wrap_step E (t, i) (map_prod id concat s)"
proof -
  obtain a R where s: "s = (a, R)" by fastforce
  have R: "length a = 8" "i < length R" "length R = n" "\<forall>b \<in> set R. length b = 8"
    using assms by (auto simp: s rfc_ok_def)
  define B where "B = E (a @ R ! i)"
  have B: "length B = 16" by (simp add: B_def)
  have w1: "rfc3394_step E (t, i) s = ((take 8 B)[7 := B ! 7 XOR of_nat t], R[i := drop 8 B])"
    using B assms(2) by (simp add: s rfc3394_step_def B_def [symmetric] store_be64_small xor_last)
  have w2: "wrap_step E (t, i) (a, concat R) =
      ((take 8 B)[7 := B ! 7 XOR of_nat t], concat (R[i := drop 8 B]))"
    using B R list_all_concat_blocks [of R 8 i]
    by (simp add: wrap_step_def B_def [symmetric] read_at_def [of 8 8 B])
  have w3: "\<forall>b \<in> set (R[i := drop 8 B]). length b = 8"
    using R B by (auto dest!: subsetD [OF set_update_subset_insert])
  show ?thesis
    unfolding w1 unfolding s map_prod_simp id_apply w2 rfc_ok_def fst_conv snd_conv
    by (intro conjI w3 refl) (use R(1,3) B in simp_all)
qed

lemma wrap_rfc3394:
  assumes "\<forall>b \<in> set P. length b = 8" and "length P \<le> 42"
    and "fold (wrap_step E) (wrap_order (length P)) (Default_IV, concat P) = (iv, r)"
  shows "rfc3394_wrap E P = iv @ r"
proof -
  let ?s = "fold (rfc3394_step E) (wrap_order (length P)) (Default_IV, P)"
  have "rfc_ok (length P) ?s \<and> map_prod id concat ?s = fold (wrap_step E) (wrap_order (length P)) (map_prod id concat (Default_IV, P))"
  proof (rule fold_simulation)
    fix p s assume p: "p \<in> set (wrap_order (length P))" and s: "rfc_ok (length P) s"
    obtain t i where ti: "p = (t, i)" by fastforce
    show "rfc_ok (length P) (rfc3394_step E p s) \<and> map_prod id concat (rfc3394_step E p s) = wrap_step E p (map_prod id concat s)"
      using wrap_order_counter [of t i "length P"] p s assms(2) unfolding ti by (intro rfc3394_step_sim) auto
  qed (use assms(1) in \<open>simp add: rfc_ok_def Default_IV_def\<close>)
  moreover have "?s = fold (\<lambda>j. fold (\<lambda>i. rfc3394_step E (length P * j + i + 1, i)) [0..<length P]) [0..<6] (Default_IV, P)"
    by (simp add: wrap_order_def fold_concat_map fold_map comp_def)
  ultimately show ?thesis using assms(3) by (auto simp: rfc3394_wrap_def Let_def split_beta map_prod_def)
qed

end

section \<open>Properties\<close>

text \<open>
  (C20) Key data of any length that fits the length field, wrapped with a 128, 192 or 256 bit
  key and unwrapped with the same key, comes back unchanged; both calls report success and
  the lengths they store are those of the data.
\<close>

theorem AES_Key_Unwrap_Wrap:
  assumes "alloc_ok al" and "alloc_ok al'" and "aes_key_length_ok KeyLength"
    and "length B0 = 16" and "length B1 = 16"
    and "length p + 8 < 2 ^ 32" and "length c = length p + 8"
  shows "\<exists>c'. AES_Key_Wrap al B0 p (length p) Key KeyLength c n = (0, c', length p + 8) \<and>
    AES_Key_Unwrap al' B1 c' (length p + 8) Key KeyLength out m = Some (0, write_at out 0 p, length p)"
  by (rule key_unwrap_key_wrap [OF assms])

theorem AES_Key_Unwrap_Wrap_witness:
  "\<exists>c'. AES_Key_Wrap (\<lambda>n. True) (replicate 16 0) (replicate 20 7) 20 (replicate 16 1) 16 (replicate 28 0) 0 = (0, c', 28) \<and>
    AES_Key_Unwrap (\<lambda>n. True) (replicate 16 0) c' 28 (replicate 16 1) 16 (replicate 20 0) 0 =
      Some (0, write_at (replicate 20 0) 0 (replicate 20 7), 20)"
  using AES_Key_Unwrap_Wrap [of "\<lambda>n. True" "\<lambda>n. True" 16 "replicate 16 0" "replicate 16 0" "replicate 20 7"
      "replicate 28 0" "replicate 16 1" 0 "replicate 20 0" 0]
  by (simp add: aes_key_length_ok_def)

text \<open>
  (C21) For up to 42 whole 64 bit blocks the wrapped key data is the output of the RFC 3394
  algorithm, although the source only adds the step counter to one byte.
\<close>

theorem AES_Key_Wrap_rfc3394:
  assumes "alloc_ok al" and "aes_key_length_ok KeyLength" and "length B0 = 16"
    and "\<forall>b \<in> set P. length b = 8" and "length P \<le> 42" and "length c = 8 * length P + 8"
  shows "AES_Key_Wrap al B0 (concat P) (8 * length P) Key KeyLength c n =
    (0, rfc3394_wrap (aes_E Key KeyLength) P, 8 * length P + 8)"
proof -
  have len: "length (concat P) = 8 * length P"
    using assms(4) by (induction P) simp_all
  obtain iv r where f: "fold (wrap_step (aes_E Key KeyLength)) (wrap_order (length P)) (Default_IV, concat P) = (iv, r)"
    by fastforce
  have "wrap_ok (length (concat P)) (Default_IV, concat P)" by (simp add: wrap_ok_def Default_IV_def)
  from aes.wrap_fold_ok [OF this wrap_order_bound, of Key KeyLength] f have "length iv = 8" "length r = 8 * length P"
    by (simp_all add: wrap_ok_def len)
  then show ?thesis
    using AES_Key_Wrap_ok [OF assms(1-3), of Key "concat P" iv r c n] f assms(5,6)
      aes.wrap_rfc3394 [OF assms(4,5) f]
    by (simp add: len write_at_whole)
qed

theorem AES_Key_Wrap_rfc3394_witness:
  "AES_Key_Wrap (\<lambda>n. True) (replicate 16 0) (concat [[0, 1, 2, 3, 4, 5, 6, 7], [8, 9, 10, 11, 12, 13, 14, 15]]) 16
     (replicate 16 3) 16 (replicate 24 0) 0 =
   (0, rfc3394_wrap (aes_E (replicate 16 3) 16) [[0, 1, 2, 3, 4, 5, 6, 7], [8, 9, 10, 11, 12, 13, 14, 15]], 24)"
  using AES_Key_Wrap_rfc3394 [of "\<lambda>n. True" 16 "replicate 16 0" "[[0, 1, 2, 3, 4, 5, 6, 7], [8, 9, 10, 11, 12, 13, 14, 15]]"
      "replicate 24 0" "replicate 16 3" 0]
  by (simp add: aes_key_length_ok_def)

text \<open>
  Unwrapping succeeds on every cipher text of at least eight bytes: the recovered initial
  value, which RFC 3394 compares with the constant, is not looked at.
\<close>

lemma AES_Key_Unwrap_never_rejects:
  assumes "al 0" and "aes_key_length_ok KeyLength" and "8 \<le> length c"
  shows "\<exists>out'. AES_Key_Unwrap al B0 c (length c) Key KeyLength out n = Some (0, out', length c - 8)"
  using assms by (simp add: AES_Key_Unwrap_def Let_def)

end
