(* ===== verification/Aes_Cmac.thy ===== *)
theory Aes_Cmac
  imports Aes_Wrap
begin

text \<open>
  AES-CMAC, \<^verbatim>\<open>common/crypt_aes.c\<close>: \<^verbatim>\<open>AES_CMAC_GenerateSubKey\<close> and \<^verbatim>\<open>AES_CMAC\<close>. The byte loops
  that shift a 128 bit string are proved to double it in the field of RFC 4493, and the
  whole routine to compute the MAC of that RFC. Allocation 0 is the one of the subkey
  encryption.
\<close>

section \<open>Operations\<close>

definition Const_Zero :: bytes where
  "Const_Zero = replicate 16 0"

definition Const_Rb :: bytes where
  "Const_Rb = replicate 15 0 @ [0x87]"

definition cmac_shift_body :: "nat \<Rightarrow> bytes \<Rightarrow> bytes" where
  "cmac_shift_body Index SubKey1 =
     (let Top_Bit = (if SubKey1 ! (Index + 1) AND 0x80 \<noteq> 0 then 1 else 0);
          S = SubKey1[Index := push_bit 1 (SubKey1 ! Index)]
      in S[Index := S ! Index OR Top_Bit])"

definition cmac_shift_to_body :: "bytes \<Rightarrow> nat \<Rightarrow> bytes \<Rightarrow> bytes" where
  "cmac_shift_to_body SubKey1 Index SubKey2 =
     (let Top_Bit = (if SubKey1 ! (Index + 1) AND 0x80 \<noteq> 0 then 1 else 0);
          S = SubKey2[Index := push_bit 1 (SubKey1 ! Index)]
      in S[Index := S ! Index OR Top_Bit])"

definition AES_CMAC_GenerateSubKey :: "(nat \<Rightarrow> bool) \<Rightarrow> bytes \<Rightarrow> nat \<Rightarrow> bytes \<Rightarrow> bytes \<Rightarrow> bytes \<times> bytes" where
  "AES_CMAC_GenerateSubKey al Key KeyLength SubKey1 SubKey2 =
     (if KeyLength \<noteq> 16 then (SubKey1, SubKey2)
      else let L = fst (RT_AES_Encrypt (al 0) Const_Zero 16 Key KeyLength SubKey1 16);
               MSB_L = L ! 0 AND 0x80;
               S1 = fold cmac_shift_body [0..<15] L;
               S1 = S1[15 := push_bit 1 (S1 ! 15)];
               S1 = (if MSB_L > 0 then xor_bytes S1 Const_Rb else S1);
               MSB_K1 = S1 ! 0 AND 0x80;
               S2 = fold (cmac_shift_to_body S1) [0..<15] SubKey2;
               S2 = S2[15 := push_bit 1 (S1 ! 15)];
               S2 = (if MSB_K1 > 0 then xor_bytes S2 Const_Rb else S2)
           in (S1, S2))"

text \<open>The loop of \<^verbatim>\<open>AES_CMAC\<close> over all blocks but the last; \<open>n\<close> numbers the allocations.\<close>

function cmac_loop :: "(nat \<Rightarrow> bool) \<Rightarrow> bytes \<Rightarrow> nat \<Rightarrow> bytes \<Rightarrow> nat \<Rightarrow> nat \<Rightarrow> nat \<Rightarrow> bytes \<Rightarrow> nat \<times> nat \<times> bytes" where
  "cmac_loop al Key KeyLength PlainText PlainTextLength n PlainBlockStart X =
     (if PlainTextLength - PlainBlockStart > 16 then
        cmac_loop al Key KeyLength PlainText PlainTextLength (Suc n) (PlainBlockStart + 16)
          (fst (RT_AES_Encrypt (al n) (xor_bytes (read_at PlainBlockStart 16 PlainText) X) 16 Key KeyLength X 16))
      else (n, PlainBlockStart, X))"
  by pat_completeness auto
termination
  by (relation "measure (\<lambda>(_, _, _, _, l, _, s, _). l - s)") auto

declare cmac_loop.simps [simp del]

definition AES_CMAC :: "(nat \<Rightarrow> bool) \<Rightarrow> bytes \<Rightarrow> nat \<Rightarrow> bytes \<Rightarrow> nat \<Rightarrow> bytes \<Rightarrow> nat \<Rightarrow> bytes \<times> nat" where
  "AES_CMAC al PlainText PlainTextLength Key KeyLength MACText MACTextLength =
     (if MACTextLength < 16 then (MACText, MACTextLength)
      else if KeyLength \<noteq> 16 then (MACText, MACTextLength)
      else let (SubKey1, SubKey2) = AES_CMAC_GenerateSubKey al Key KeyLength (replicate 16 0) (replicate 16 0);
               (n, PlainBlockStart, X) = cmac_loop al Key KeyLength PlainText PlainTextLength 1 0 Const_Zero;
               rest = PlainTextLength - PlainBlockStart;
               Y = (if rest = 16 then xor_bytes (xor_bytes (read_at PlainBlockStart 16 PlainText) X) SubKey1
                    else let Y = write_at (replicate 16 0) 0 (read_at PlainBlockStart rest PlainText)
                         in xor_bytes (xor_bytes (Y[rest := 0x80]) X) SubKey2)
           in RT_AES_Encrypt (al n) Y 16 Key KeyLength MACText MACTextLength)"

section \<open>Reference: RFC 4493\<close>

type_synonym u128 = "128 word"

definition load_be128 :: "bytes \<Rightarrow> u128" where
  "load_be128 b = foldl (\<lambda>w x. push_bit 8 w OR ucast x) 0 b"

definition store_be128 :: "u128 \<Rightarrow> bytes" where
  "store_be128 w = map (\<lambda>i. ucast (drop_bit (8 * (15 - i)) w)) [0..<16]"

text \<open>Doubling in the field: a shift, reduced by the constant Rb when the top bit is lost.\<close>

definition gf128_double :: "bytes \<Rightarrow> bytes" where
  "gf128_double b = store_be128 (push_bit 1 (load_be128 b) XOR (if bit (load_be128 b) 127 then 0x87 else 0))"

definition cbc_mac :: "(bytes \<Rightarrow> bytes) \<Rightarrow> bytes \<Rightarrow> bytes list \<Rightarrow> bytes" where
  "cbc_mac E = foldl (\<lambda>x b. E (xor_bytes b x))"

definition rfc4493_cmac :: "(bytes \<Rightarrow> bytes) \<Rightarrow> bytes \<Rightarrow> bytes" where
  "rfc4493_cmac E m =
     (let K1 = gf128_double (E (replicate 16 0)); K2 = gf128_double K1;
          n = max 1 ((length m + 15) div 16);
          M_last = drop (16 * (n - 1)) m;
          Y = (if length M_last = 16 then xor_bytes M_last K1
               else xor_bytes (M_last @ [0x80] @ replicate (15 - length M_last) 0) K2)
      in E (xor_bytes Y (cbc_mac E (replicate 16 0) (chunks 16 (take (16 * (n - 1)) m)))))"

section \<open>Subkeys\<close>

lemma bit_load_be:
  fixes b :: bytes
  shows "bit (foldl (\<lambda>w x. push_bit 8 w OR ucast x) (0 :: u128) b) k \<longleftrightarrow>
     k < 128 \<and> k < 8 * length b \<and> bit (b ! (length b - 1 - k div 8)) (k mod 8)"
proof (induction b arbitrary: k rule: rev_induct)
  case Nil
  then show ?case by simp
next
  case (snoc x xs)
  let ?w = "foldl (\<lambda>w x. push_bit 8 w OR ucast x) (0 :: u128) xs"
  show ?case
  proof (cases "k < 8")
    case True
    then show ?thesis by (simp add: bit_simps nth_append)
  next
    case False
    have i: "length (xs @ [x]) - 1 - k div 8 = length xs - 1 - (k - 8) div 8" "(k - 8) mod 8 = k mod 8"
      using False by (simp_all add: le_div_geq le_mod_geq)
    have n: "(xs @ [x]) ! (length xs - 1 - (k - 8) div 8) = xs ! (length xs - 1 - (k - 8) div 8)" if "k < 8 * length (xs @ [x])"
      using that False by (auto simp: nth_append)
    have "bit (push_bit 8 ?w OR ucast x) k \<longleftrightarrow> k < 128 \<and> bit ?w (k - 8)"
      using False bit_u8_ge [of k x] by (auto simp: bit_simps)
    then show ?thesis using False n unfolding i snoc by (auto simp: snoc)
  qed
qed

lemma bit_load_be128:
  "length b = 16 \<Longrightarrow> bit (load_be128 b) k \<longleftrightarrow> k < 128 \<and> bit (b ! (15 - k div 8)) (k mod 8)"
  by (auto simp: load_be128_def bit_load_be)

text \<open>The shifted string, byte by byte.\<close>

definition shl1_byte :: "bytes \<Rightarrow> nat \<Rightarrow> u8" where
  "shl1_byte b i = push_bit 1 (b ! i) OR (if i < 15 \<and> bit (b ! (i + 1)) 7 then 1 else 0)"

lemma bit_shl1_byte:
  assumes "j < 8"
  shows "bit (shl1_byte b i) j \<longleftrightarrow> (if j = 0 then i < 15 \<and> bit (b ! (i + 1)) 7 else bit (b ! i) (j - 1))"
proof -
  have "bit (if i < 15 \<and> bit (b ! (i + 1)) 7 then 1 else 0 :: u8) j \<longleftrightarrow> i < 15 \<and> bit (b ! (i + 1)) 7 \<and> j = 0"
    by (auto simp: bit_1_iff)
  then show ?thesis
    using assms unfolding shl1_byte_def bit_or_iff bit_push_bit_iff possible_bit_word by auto
qed

lemma and_80 [simp]: "(x :: u8) AND 0x80 = 0 \<longleftrightarrow> \<not> bit x 7"
  using and_exp_eq_0_iff_not_bit [of x 7] by simp

lemma and_80_pos [simp]: "0 < (x :: u8) AND 0x80 \<longleftrightarrow> bit x 7"
  by (simp add: word_neq_0_conv [symmetric] del: word_neq_0_conv)

lemma cmac_shift_prefix:
  assumes "length b = 16" and "n \<le> 15"
  shows "length (fold cmac_shift_body [0..<n] b) = 16 \<and>
    (\<forall>i < 16. fold cmac_shift_body [0..<n] b ! i = (if i < n then shl1_byte b i else b ! i))"
  using assms(2)
proof (induction n)
  case 0
  then show ?case using assms(1) by simp
next
  case (Suc n)
  then show ?case
    by (auto simp: cmac_shift_body_def Let_def shl1_byte_def nth_list_update less_Suc_eq)
qed

lemma cmac_shift_to_prefix:
  assumes "length s = 16" and "n \<le> 15"
  shows "length (fold (cmac_shift_to_body b) [0..<n] s) = 16 \<and>
    (\<forall>i < n. fold (cmac_shift_to_body b) [0..<n] s ! i = shl1_byte b i)"
  using assms(2)
proof (induction n)
  case 0
  then show ?case using assms(1) by simp
next
  case (Suc n)
  then show ?case
    by (auto simp: cmac_shift_to_body_def Let_def shl1_byte_def nth_list_update less_Suc_eq)
qed

definition shl1 :: "bytes \<Rightarrow> bytes" where
  "shl1 b = map (shl1_byte b) [0..<16]"

lemma cmac_shift:
  assumes "length b = 16"
  shows "(fold cmac_shift_body [0..<15] b)[15 := push_bit 1 (fold cmac_shift_body [0..<15] b ! 15)] = shl1 b"
  using cmac_shift_prefix [OF assms, of 15]
  by (intro nth_equalityI) (auto simp: shl1_def shl1_byte_def nth_list_update)

lemma cmac_shift_to:
  assumes "length s = 16"
  shows "(fold (cmac_shift_to_body b) [0..<15] s)[15 := push_bit 1 (b ! 15)] = shl1 b"
  using cmac_shift_to_prefix [OF assms, of 15 b]
  by (intro nth_equalityI) (auto simp: shl1_def shl1_byte_def nth_list_update)

lemma gf128_double_bytes:
  assumes "length b = 16"
  shows "gf128_double b = (if bit (b ! 0) 7 then xor_bytes (shl1 b) Const_Rb else shl1 b)"
proof (rule nth_equalityI)
  show "length (gf128_double b) = length (if bit (b ! 0) 7 then xor_bytes (shl1 b) Const_Rb else shl1 b)"
    by (simp add: gf128_double_def store_be128_def shl1_def Const_Rb_def)
next
  fix i assume "i < length (gf128_double b)"
  then have i: "i < 16" by (simp add: gf128_double_def store_be128_def)
  let ?W = "push_bit 1 (load_be128 b) XOR (if bit (load_be128 b) 127 then 0x87 else 0)"
  have top: "bit (load_be128 b) 127 \<longleftrightarrow> bit (b ! 0) 7" using assms by (simp add: bit_load_be128)
  have rb: "bit (0x87 :: u128) k \<longleftrightarrow> k < 8 \<and> bit (0x87 :: u8) k" for k
  proof -
    have "(0x87 :: u128) = ucast (0x87 :: u8)" by simp
    then have "bit (0x87 :: u128) k \<longleftrightarrow> k < 128 \<and> bit (0x87 :: u8) k"
      by (simp only: bit_unsigned_iff possible_bit_word len_num1 len_num0 len_bit0) simp
    then show ?thesis using bit_u8_ge [of k "0x87"] by (cases "k < 8") auto
  qed
  show "gf128_double b ! i = (if bit (b ! 0) 7 then xor_bytes (shl1 b) Const_Rb else shl1 b) ! i"
  proof (rule bit_word_eqI)
    fix j assume "j < LENGTH(8)"
    then have j: "j < 8" by simp
    let ?k = "8 * (15 - i) + j"
    have k: "?k < 128" "?k div 8 = 15 - i" "?k mod 8 = j" using i j by simp_all
    have "bit (gf128_double b ! i) j \<longleftrightarrow> bit ?W ?k"
      using i j by (simp add: gf128_double_def store_be128_def bit_simps)
    also have "\<dots> \<longleftrightarrow> (?k > 0 \<and> bit (load_be128 b) (?k - 1)) \<noteq> (bit (b ! 0) 7 \<and> i = 15 \<and> bit (0x87 :: u8) j)"
    proof -
      have "bit (push_bit 1 (load_be128 b)) ?k \<longleftrightarrow> ?k > 0 \<and> bit (load_be128 b) (?k - 1)"
        using k(1) unfolding bit_push_bit_iff possible_bit_word by auto
      moreover have "bit (if bit (load_be128 b) 127 then 0x87 else 0 :: u128) ?k \<longleftrightarrow>
          bit (b ! 0) 7 \<and> i = 15 \<and> bit (0x87 :: u8) j"
      proof -
        have "bit (0x87 :: u128) ?k \<longleftrightarrow> i = 15 \<and> bit (0x87 :: u8) j"
          using rb [of ?k] i j by (cases "i = 15") (simp_all only: diff_self_eq_0 mult_0_right add_0, auto)
        then show ?thesis unfolding top by (cases "bit (b ! 0) 7") (simp_all only: if_True if_False, auto)
      qed
      ultimately show ?thesis unfolding bit_xor_iff by blast
    qed
    also have "(?k > 0 \<and> bit (load_be128 b) (?k - 1)) \<longleftrightarrow> bit (shl1_byte b i) j"
    proof (cases "j = 0")
      case True
      have "8 * (14 - i) < 121" by simp
      moreover have "?k - 1 = 8 * (14 - i) + 7" if "i < 15" using that True by simp
      ultimately have "bit (load_be128 b) (?k - 1) \<longleftrightarrow> bit (b ! (i + 1)) 7" if "i < 15"
        using that assms by (simp add: bit_load_be128)
      then show ?thesis using True i by (auto simp: bit_shl1_byte)
    next
      case False
      then have "?k - 1 = 8 * (15 - i) + (j - 1)" and "j - 1 < 8" using j by simp_all
      then have "(?k - 1) div 8 = 15 - i" "(?k - 1) mod 8 = j - 1" "?k - 1 < 128"
        using k(1) by (simp_all only: div_mult_self4 mod_mult_self4 div_less mod_less)
      then show ?thesis using False i j assms by (auto simp: bit_shl1_byte bit_load_be128)
    qed
    also have "(bit (shl1_byte b i) j \<noteq> (bit (b ! 0) 7 \<and> i = 15 \<and> bit (0x87 :: u8) j)) \<longleftrightarrow>
        bit ((if bit (b ! 0) 7 then xor_bytes (shl1 b) Const_Rb else shl1 b) ! i) j"
      using i j by (auto simp: shl1_def Const_Rb_def nth_xor_bytes bit_simps nth_append)
    finally show "bit (gf128_double b ! i) j = bit ((if bit (b ! 0) 7 then xor_bytes (shl1 b) Const_Rb else shl1 b) ! i) j" .
  qed
qed

lemma length_shl1 [simp]: "length (shl1 b) = 16" by (simp add: shl1_def)

lemma length_gf128_double [simp]: "length (gf128_double b) = 16"
  by (simp add: gf128_double_def store_be128_def)

lemma AES_CMAC_GenerateSubKey_ok:
  assumes "alloc_ok al" and "length S1 = 16" and "length S2 = 16"
  shows "AES_CMAC_GenerateSubKey al Key 16 S1 S2 =
    (gf128_double (aes_E Key 16 (replicate 16 0)), gf128_double (gf128_double (aes_E Key 16 (replicate 16 0))))"
proof -
  let ?L = "aes_E Key 16 (replicate 16 0)"
  have L: "fst (RT_AES_Encrypt (al 0) Const_Zero 16 Key 16 S1 16) = ?L"
    using assms by (simp add: RT_AES_Encrypt_ok aes_key_length_ok_def write_at_whole Const_Zero_def)
  have d1: "(if 0 < ?L ! 0 AND 0x80 then xor_bytes (shl1 ?L) Const_Rb else shl1 ?L) = gf128_double ?L"
    by (simp add: gf128_double_bytes)
  have d2: "(if 0 < gf128_double ?L ! 0 AND 0x80 then xor_bytes (shl1 (gf128_double ?L)) Const_Rb
      else shl1 (gf128_double ?L)) = gf128_double (gf128_double ?L)"
    by (simp only: and_80_pos gf128_double_bytes [of "gf128_double ?L", OF length_gf128_double])
  have c: "(fold cmac_shift_body [0..<15] ?L)[15 := push_bit 1 (fold cmac_shift_body [0..<15] ?L ! 15)] = shl1 ?L"
    by (rule cmac_shift) simp
  show ?thesis
    unfolding AES_CMAC_GenerateSubKey_def Let_def L c d1 cmac_shift_to [OF assms(3)] d2 by simp
qed

section \<open>The MAC\<close>

lemma chunks_take_Suc:
  assumes "16 * Suc q \<le> length xs"
  shows "chunks 16 (take (16 * Suc q) xs) = take 16 xs # chunks 16 (take (16 * q) (drop 16 xs))"
proof -
  have "take (16 * Suc q) xs = take 16 xs @ take (16 * q) (drop 16 xs)"
    using take_add [of 16 "16 * q" xs] by simp
  then show ?thesis using assms chunks_step [of 16 "take 16 xs"] by simp
qed

lemma cmac_loop_cbc:
  assumes "alloc_ok al" and "length X = 16" and "s \<le> length m" and "q = (length m - s - 1) div 16"
  shows "\<exists>n'. cmac_loop al Key 16 m (length m) n s X =
    (n', s + 16 * q, cbc_mac (aes_E Key 16) X (chunks 16 (take (16 * q) (drop s m))))"
  using assms(2-)
proof (induction q arbitrary: n s X)
  case 0
  then have "\<not> length m - s > 16" by auto
  then show ?case by (simp add: cmac_loop.simps cbc_mac_def)
next
  case (Suc q)
  then have gt: "length m - s > 16" by (cases "length m - s > 16") (auto simp: div_eq_0_iff)
  let ?X = "aes_E Key 16 (xor_bytes (read_at s 16 m) X)"
  have q: "q = (length m - (s + 16) - 1) div 16"
    using Suc.prems(3) gt le_div_geq [of 16 "length m - s - 1"] by (simp add: diff_right_commute)
  have len: "16 * Suc q \<le> length (drop s m)" using Suc.prems(3) by simp
  have "cmac_loop al Key 16 m (length m) n s X = cmac_loop al Key 16 m (length m) (Suc n) (s + 16) ?X"
    using gt assms(1) Suc.prems(1)
    by (subst cmac_loop.simps) (simp add: RT_AES_Encrypt_ok aes_key_length_ok_def write_at_whole)
  moreover have "chunks 16 (take (16 * Suc q) (drop s m)) = read_at s 16 m # chunks 16 (take (16 * q) (drop (s + 16) m))"
    unfolding chunks_take_Suc [OF len] by (simp add: read_at_def add.commute)
  ultimately show ?case
    using Suc.IH [of ?X "s + 16" "Suc n"] q gt by (simp add: cbc_mac_def add.assoc)
qed

section \<open>Properties\<close>

text \<open>
  (C22) With a 16 byte key and room for the result, \<^verbatim>\<open>AES_CMAC\<close> stores the AES-CMAC of RFC 4493
  of the message, of any length, and the length 16.
\<close>

theorem AES_CMAC_rfc4493:
  assumes "alloc_ok al" and "16 \<le> n"
  shows "AES_CMAC al m (length m) Key 16 MACText n = (write_at MACText 0 (rfc4493_cmac (aes_E Key 16) m), 16)"
proof -
  let ?E = "aes_E Key 16" and ?q = "(length m - 1) div 16"
  let ?K1 = "gf128_double (?E (replicate 16 0))"
  obtain n' where loop: "cmac_loop al Key 16 m (length m) 1 0 Const_Zero =
      (n', 16 * ?q, cbc_mac ?E (replicate 16 0) (chunks 16 (take (16 * ?q) m)))"
    using cmac_loop_cbc [OF assms(1), of Const_Zero 0 m ?q] by (auto simp: Const_Zero_def)
  have q: "max 1 ((length m + 15) div 16) - 1 = ?q"
  proof (cases "length m")
    case (Suc k)
    have "(16 + k) div 16 = k div 16 + 1" by (rule div_add_self1) simp
    then show ?thesis using Suc by (simp add: max_def)
  qed simp
  have last: "length (drop (16 * ?q) m) = length m - 16 * ?q" "length m - 16 * ?q \<le> 16"
    by (simp, cases "length m") (simp_all add: minus_mult_div_eq_mod [symmetric])
  have full: "read_at (16 * ?q) 16 m = drop (16 * ?q) m" if "length m - 16 * ?q = 16"
    using that by (simp add: read_at_def)
  have part: "(write_at (replicate 16 0) 0 (read_at (16 * ?q) (length m - 16 * ?q) m))[length m - 16 * ?q := 0x80] =
      drop (16 * ?q) m @ [0x80] @ replicate (15 - (length m - 16 * ?q)) 0" if "length m - 16 * ?q \<noteq> 16"
  proof -
    let ?l = "length m - 16 * ?q"
    have "16 - ?l = Suc (15 - ?l)" using that last(2) by linarith
    then have "write_at (replicate 16 0) 0 (drop (16 * ?q) m) = drop (16 * ?q) m @ 0 # replicate (15 - ?l) 0"
      by (simp add: write_at_def)
    then show ?thesis by (simp add: read_at_def list_update_append)
  qed
  have keys: "AES_CMAC_GenerateSubKey al Key 16 (replicate 16 0) (replicate 16 0) = (?K1, gf128_double ?K1)"
    using assms(1) by (simp add: AES_CMAC_GenerateSubKey_ok)
  have enc: "RT_AES_Encrypt (al k) b 16 Key 16 MACText n = (write_at MACText 0 (?E b), 16)" for k b
    using assms by (simp add: RT_AES_Encrypt_ok aes_key_length_ok_def)
  show ?thesis
    unfolding AES_CMAC_def rfc4493_cmac_def Let_def q keys loop prod.case enc last(1)
    using assms(2) full part by (simp add: xor_bytes_right_commute [of _ "cbc_mac _ _ _"])
qed

theorem AES_CMAC_rfc4493_witness:
  "AES_CMAC (\<lambda>n. True) [1, 2, 3] 3 (replicate 16 9) 16 (replicate 16 0) 16 =
    (write_at (replicate 16 0) 0 (rfc4493_cmac (aes_E (replicate 16 9) 16) [1, 2, 3]), 16)"
  using AES_CMAC_rfc4493 [of "\<lambda>n. True" 16 "[1, 2, 3]" "replicate 16 9" "replicate 16 0"]
  by (simp add: numeral_3_eq_3)

end
