(* ===== verification/Tkip_Mic.thy ===== *)
theory Tkip_Mic
  imports Wep
begin

text \<open>
  The Michael message integrity code of TKIP, \<^verbatim>\<open>common/cmm_tkip.c\<close>. The state
  \<^verbatim>\<open>TKIP_KEY_INFO\<close> keeps its 32 bit quantities in \<^verbatim>\<open>ULONG\<close> variables, which have 64 bits on the
  hosts this driver is built for; shifts, sums and sign extensions leave garbage in the upper
  halves. The lemmas show by a simulation along the truncation to 32 bits that the MIC is
  nevertheless the one of the standard.
\<close>

section \<open>Data\<close>

record tkip_key_info =
  tkBytesInM :: u32
  tkIV16 :: u64
  tkIV32 :: u64
  tkK0 :: u64
  tkK1 :: u64
  tkL :: u64
  tkR :: u64
  tkM :: u64
  tkRC4KEY :: bytes
  tkMIC :: bytes

section \<open>Operations\<close>

definition ROL32 :: "u64 \<Rightarrow> nat \<Rightarrow> u64" where
  "ROL32 A n = push_bit n A OR (drop_bit (32 - n) A AND (push_bit n 1 - 1))"

definition ROR32 :: "u64 \<Rightarrow> nat \<Rightarrow> u64" where
  "ROR32 A n = ROL32 A (32 - n)"

text \<open>A byte shifted as \<^verbatim>\<open>int\<close> and converted to \<^verbatim>\<open>ULONG\<close>: the sign bit of the \<^verbatim>\<open>int\<close> is extended.\<close>

definition shift_int :: "u8 \<Rightarrow> nat \<Rightarrow> u64" where
  "shift_int c n = scast (push_bit n (ucast c :: u32))"

definition RTMPTkipGetUInt32 :: "bytes \<Rightarrow> u64" where
  "RTMPTkipGetUInt32 pMICKey = fold (\<lambda>i res. res OR shift_int (pMICKey ! i) (8 * i)) [0..<4] 0"

fun tkip_put_loop :: "nat \<Rightarrow> u64 \<Rightarrow> bytes" where
  "tkip_put_loop 0 val = []"
| "tkip_put_loop (Suc n) val = ucast (val AND 0xff) # tkip_put_loop n (drop_bit 8 val)"

definition RTMPTkipPutUInt32 :: "u64 \<Rightarrow> bytes" where
  "RTMPTkipPutUInt32 val = tkip_put_loop 4 val"

definition RTMPTkipSetMICKey :: "tkip_key_info \<Rightarrow> bytes \<Rightarrow> tkip_key_info" where
  "RTMPTkipSetMICKey pTkip pMICKey =
     (let K0 = RTMPTkipGetUInt32 pMICKey;
          K1 = RTMPTkipGetUInt32 (drop 4 pMICKey)
      in pTkip\<lparr>tkK0 := K0, tkK1 := K1, tkL := K0, tkR := K1, tkBytesInM := 0, tkM := 0\<rparr>)"

definition tkip_swap :: "u64 \<Rightarrow> u64" where
  "tkip_swap L = drop_bit 8 (L AND 0xff00ff00) OR push_bit 8 (L AND 0x00ff00ff)"

text \<open>The statements of \<^verbatim>\<open>RTMPTkipAppendByte\<close> that process a full word.\<close>

definition tkip_block :: "u64 \<Rightarrow> u64 \<Rightarrow> u64 \<Rightarrow> u64 \<times> u64" where
  "tkip_block L R M =
     (let L = L XOR M;
          R = R XOR ROL32 L 17;
          L = L + R;
          R = R XOR tkip_swap L;
          L = L + R;
          R = R XOR ROL32 L 3;
          L = L + R;
          R = R XOR ROR32 L 2;
          L = L + R
      in (L, R))"

definition RTMPTkipAppendByte :: "tkip_key_info \<Rightarrow> u8 \<Rightarrow> tkip_key_info" where
  "RTMPTkipAppendByte pTkip uChar =
     (let M = tkM pTkip OR shift_int uChar (8 * unat (tkBytesInM pTkip));
          nBytesInM = tkBytesInM pTkip + 1
      in if nBytesInM \<ge> 4 then
           let (L, R) = tkip_block (tkL pTkip) (tkR pTkip) M
           in pTkip\<lparr>tkL := L, tkR := R, tkM := 0, tkBytesInM := 0\<rparr>
         else pTkip\<lparr>tkM := M, tkBytesInM := nBytesInM\<rparr>)"

definition RTMPTkipAppend :: "tkip_key_info \<Rightarrow> bytes \<Rightarrow> nat \<Rightarrow> tkip_key_info" where
  "RTMPTkipAppend pTkip pSrc nBytes = foldl RTMPTkipAppendByte pTkip (take nBytes pSrc)"

text \<open>The padding loop of \<^verbatim>\<open>RTMPTkipGetMIC\<close>; \<open>None\<close> would be a loop that does not end.\<close>

partial_function (option) tkip_pad_loop :: "tkip_key_info \<Rightarrow> tkip_key_info option" where
  "tkip_pad_loop pTkip =
     (if tkBytesInM pTkip \<noteq> 0 then tkip_pad_loop (RTMPTkipAppendByte pTkip 0) else Some pTkip)"

definition RTMPTkipGetMIC :: "tkip_key_info \<Rightarrow> tkip_key_info option" where
  "RTMPTkipGetMIC pTkip =
     map_option (\<lambda>t. t\<lparr>tkMIC := RTMPTkipPutUInt32 (tkL t) @ RTMPTkipPutUInt32 (tkR t)\<rparr>)
       (tkip_pad_loop (foldl RTMPTkipAppendByte pTkip [0x5a, 0, 0, 0, 0]))"

abbreviation (input) MAC_ADDR_LEN :: nat where "MAC_ADDR_LEN \<equiv> 6"

text \<open>\<^verbatim>\<open>(PUCHAR)&Priority\<close> are the low bytes of the little endian \<^verbatim>\<open>ULONG\<close>.\<close>

definition RTMPInitMICEngine :: "tkip_key_info \<Rightarrow> bytes \<Rightarrow> bytes \<Rightarrow> u8 \<Rightarrow> bytes \<Rightarrow> tkip_key_info" where
  "RTMPInitMICEngine Tx pDA pSA UserPriority pMICKey =
     (let Priority = ucast UserPriority :: u64;
          Tx = RTMPTkipSetMICKey Tx pMICKey;
          Tx = RTMPTkipAppend Tx pDA MAC_ADDR_LEN;
          Tx = RTMPTkipAppend Tx pSA MAC_ADDR_LEN
      in RTMPTkipAppend Tx (store_le64 Priority) 4)"

text \<open>
  \<^verbatim>\<open>RTMPTkipCompareMICValue\<close>: the returned \<^verbatim>\<open>BOOLEAN\<close> and the receive state; \<open>None\<close> is a read
  behind the frame.
\<close>

definition RTMPTkipCompareMICValue ::
  "tkip_key_info \<Rightarrow> bytes \<Rightarrow> bytes \<Rightarrow> bytes \<Rightarrow> bytes \<Rightarrow> u8 \<Rightarrow> nat \<Rightarrow> (bool \<times> tkip_key_info) option" where
  "RTMPTkipCompareMICValue Rx pSrc pDA pSA pMICKey UserPriority Len =
     (if length pSrc < Len + 8 then None
      else
        let Priority = ucast UserPriority :: u64;
            Rx = RTMPTkipSetMICKey Rx pMICKey;
            Rx = RTMPTkipAppend Rx pDA MAC_ADDR_LEN;
            Rx = RTMPTkipAppend Rx pSA MAC_ADDR_LEN;
            Rx = RTMPTkipAppend Rx (store_le64 Priority) 4;
            Rx = RTMPTkipAppend Rx pSrc Len;
            OldMic = read_at Len 8 pSrc
        in case RTMPTkipGetMIC Rx of
             None \<Rightarrow> None
           | Some Rx \<Rightarrow> Some (tkMIC Rx = OldMic, Rx))"

text \<open>
  \<^verbatim>\<open>RTMPCalculateMICValue\<close> for a packet with the data \<open>pSrc\<close>, as the station builds it. A packet
  shorter than its headers makes the unsigned length wrap around; the following reads are
  outside of the packet, which is \<open>None\<close>.
\<close>

definition RTMPCalculateMICValue ::
  "tkip_key_info \<Rightarrow> bytes \<Rightarrow> u8 \<Rightarrow> bytes option \<Rightarrow> cipher_key \<Rightarrow> tkip_key_info option" where
  "RTMPCalculateMICValue Tx pSrc UserPriority pEncap pKey =
     (if length pSrc < 14 then None
      else
        let SrcBufLen = length pSrc;
            vlan_offset = (if (unat (pSrc ! 12) * 256 + unat (pSrc ! 13)) = 0x8100 then 4 else 0 :: nat);
            Tx = RTMPInitMICEngine Tx pSrc (drop 6 pSrc) UserPriority (ckTxMic pKey)
        in if SrcBufLen < 14 + vlan_offset then None
           else
             let Tx = (case pEncap of
                         None \<Rightarrow> Tx
                       | Some e \<Rightarrow> RTMPTkipAppend (RTMPTkipAppend Tx e 6) (drop (12 + vlan_offset) pSrc) 2);
                 SrcBufLen = SrcBufLen - (14 + vlan_offset);
                 pSrc = drop (14 + vlan_offset) pSrc;
                 Tx = (if SrcBufLen > 0 then RTMPTkipAppend Tx pSrc SrcBufLen else Tx)
             in RTMPTkipGetMIC Tx)"

section \<open>Reference: Michael\<close>

definition michael_swap :: "u32 \<Rightarrow> u32" where
  "michael_swap l = load_le32 (case store_le32 l of [b0, b1, b2, b3] \<Rightarrow> [b1, b0, b3, b2])"

definition michael_block :: "u32 \<times> u32 \<Rightarrow> u32 \<Rightarrow> u32 \<times> u32" where
  "michael_block s w =
     (let (l, r) = s;
          l0 = l XOR w;
          r1 = r XOR word_rotl 17 l0;  l1 = l0 + r1;
          r2 = r1 XOR michael_swap l1; l2 = l1 + r2;
          r3 = r2 XOR word_rotl 3 l2;  l3 = l2 + r3;
          r4 = r3 XOR word_rotr 2 l3;  l4 = l3 + r4
      in (l4, r4))"

definition michael_pad :: "bytes \<Rightarrow> bytes" where
  "michael_pad m = m @ 0x5a # replicate (7 - length m mod 4) 0"

definition michael :: "bytes \<Rightarrow> bytes \<Rightarrow> bytes" where
  "michael key m =
     (let (l, r) = foldl michael_block (load_le32 (take 4 key), load_le32 (take 4 (drop 4 key)))
                     (map load_le32 (chunks 4 (michael_pad m)))
      in store_le32 l @ store_le32 r)"

section \<open>Truncation to 32 bits\<close>

abbreviation lo :: "u64 \<Rightarrow> u32" where
  "lo x \<equiv> ucast x"

lemma lo_bitwise: "lo (x XOR y) = lo x XOR lo y" "lo (x OR y) = lo x OR lo y" "lo 0 = 0"
  by (rule bit_word_eqI; simp add: bit_simps)+

lemma lo_add: "lo (x + y) = lo x + lo y"
  by (rule word_uint_eqI) (simp add: uint_word_ariths unsigned_ucast_eq take_bit_eq_mod mod_simps mod_mod_cancel)

lemma lo_shift_int: "lo (shift_int c n) = push_bit n (ucast c)"
  unfolding shift_int_def by (rule bit_word_eqI) (auto simp: bit_simps)

lemma lo_ROL32: "n < 32 \<Longrightarrow> lo (ROL32 A n) = word_rotl n (lo A)"
proof -
  assume n: "n < 32"
  have m: "(push_bit n 1 - 1 :: u64) = mask n"
    by (simp add: mask_eq_exp_minus_1)
  have "lo (ROL32 A n) = ROTL32 (lo A) n"
    unfolding ROL32_def ROTL32_def m using n by (intro bit_word_eqI) (auto simp: bit_simps)
  then show ?thesis
    using n by (simp add: ROTL32_rotl)
qed

lemma lo_ROR32: "lo (ROR32 A 2) = word_rotr 2 (lo A)"
proof -
  have "lo (ROR32 A 2) = ROTL32 (lo A) 30"
    by (simp add: ROR32_def lo_ROL32 ROTL32_rotl)
  also have "\<dots> = ROTR32 (lo A) 2"
    by (simp add: ROTL32_def ROTR32_def or.commute)
  finally show ?thesis
    by (simp add: ROTR32_rotr)
qed

lemma lo_swap: "lo (tkip_swap L) = michael_swap (lo L)"
proof (rule bit_word_eqI)
  fix n assume "n < LENGTH(32)"
  then have "n < 32"
    by simp
  moreover have masks: "(0xff00ff00 :: u64) = push_bit 8 (mask 8) OR push_bit 24 (mask 8)"
    "(0x00ff00ff :: u64) = mask 8 OR push_bit 16 (mask 8)"
    by (simp_all add: mask_eq_exp_minus_1 push_bit_eq_mult)
  ultimately show "bit (lo (tkip_swap L)) n = bit (michael_swap (lo L)) n"
    unfolding tkip_swap_def masks michael_swap_def store_le32_def load_le32_def
    by (cases rule: byte_of_bit_cases) (auto simp: bit_simps bit_u8_ge)
qed

lemma tkip_block_michael:
  "map_prod lo lo (tkip_block L R M) = michael_block (lo L, lo R) (lo M)"
  unfolding tkip_block_def michael_block_def Let_def
  by (simp add: lo_bitwise lo_add lo_ROL32 lo_ROR32 lo_swap)

lemma ucast_and_ff: "ucast (v AND 0xff :: u64) = (ucast v :: u8)"
proof -
  have "v AND 0xff = take_bit 8 v"
    by (simp add: take_bit_eq_mask mask_eq_exp_minus_1)
  moreover have "ucast (take_bit 8 v) = (ucast v :: u8)"
    by (rule bit_word_eqI) (simp add: bit_simps)
  ultimately show ?thesis
    by (simp only:)
qed

lemma RTMPTkipPutUInt32_store: "RTMPTkipPutUInt32 val = store_le32 (lo val)"
proof -
  have four: "4 = Suc (Suc (Suc (Suc 0)))"
    by simp
  have "ucast (drop_bit k (lo val)) = (ucast (drop_bit k val) :: u8)" if "k \<le> 24" for k
    using that by (intro bit_word_eqI) (auto simp: bit_simps)
  from this [of 0] this [of 8] this [of 16] this [of 24] show ?thesis
    unfolding RTMPTkipPutUInt32_def four tkip_put_loop.simps ucast_and_ff store_le32_def
    by (simp add: drop_bit_drop_bit)
qed

lemma lo_GetUInt32: "lo (RTMPTkipGetUInt32 k) = load_le32 (take 4 k)"
proof -
  have four: "[0..<4] = [0, 1, 2, 3 :: nat]"
    by (simp add: upt_rec)
  show ?thesis
    unfolding RTMPTkipGetUInt32_def four load_le32_def
    by (simp add: lo_bitwise lo_shift_int ac_simps)
qed

section \<open>Simulation of Michael\<close>

text \<open>Michael fed byte by byte: the two words and the bytes of the current word.\<close>

definition michael_feed :: "(u32 \<times> u32) \<times> bytes \<Rightarrow> u8 \<Rightarrow> (u32 \<times> u32) \<times> bytes" where
  "michael_feed s c =
     (if length (snd s) = 3 then (michael_block (fst s) (load_le32 (snd s @ [c])), [])
      else (fst s, snd s @ [c]))"

definition part_word :: "bytes \<Rightarrow> u32" where
  "part_word p = load_le32 (p @ replicate (4 - length p) 0)"

lemma replicate_zero: "replicate 4 (0 :: u8) = [0, 0, 0, 0]" "replicate 3 (0 :: u8) = [0, 0, 0]"
    "replicate 2 (0 :: u8) = [0, 0]"
  by (simp_all add: numeral_eq_Suc)

lemma part_word_Nil [simp]: "part_word [] = 0"
  by (simp add: part_word_def load_le32_def replicate_zero)

lemma part_word_full: "length p = 4 \<Longrightarrow> part_word p = load_le32 p"
  by (simp add: part_word_def)

lemma part_word_snoc:
  assumes "length p < 4"
  shows "part_word p OR push_bit (8 * length p) (ucast c) = part_word (p @ [c])"
proof -
  consider "p = []" | a where "p = [a]" | a b where "p = [a, b]" | a b d where "p = [a, b, d]"
    using assms by (cases p rule: list.exhaust; cases "tl p"; cases "tl (tl p)"; cases "tl (tl (tl p))") auto
  then show ?thesis
    by cases (simp_all add: part_word_def load_le32_def replicate_zero ac_simps)
qed

definition tkip_sim :: "tkip_key_info \<Rightarrow> (u32 \<times> u32) \<times> bytes \<Rightarrow> bool" where
  "tkip_sim t s \<longleftrightarrow> (lo (tkL t), lo (tkR t)) = fst s \<and> length (snd s) < 4
     \<and> unat (tkBytesInM t) = length (snd s) \<and> lo (tkM t) = part_word (snd s)"

lemma tkip_sim_count:
  assumes "tkip_sim t s"
  shows "unat (tkBytesInM t + 1) = length (snd s) + 1"
    and "tkBytesInM t + 1 \<ge> 4 \<longleftrightarrow> length (snd s) = 3"
proof -
  have n: "unat (tkBytesInM t) = length (snd s)" "length (snd s) < 4"
    using assms by (simp_all add: tkip_sim_def)
  then show c: "unat (tkBytesInM t + 1) = length (snd s) + 1"
    by (simp add: unat_word_ariths)
  show "tkBytesInM t + 1 \<ge> 4 \<longleftrightarrow> length (snd s) = 3"
    unfolding word_le_nat_alt c using n(2) by auto
qed

lemma RTMPTkipAppendByte_sim:
  assumes "tkip_sim t s"
  shows "tkip_sim (RTMPTkipAppendByte t c) (michael_feed s c)"
proof -
  define M where "M = tkM t OR shift_int c (8 * unat (tkBytesInM t))"
  have M: "lo M = part_word (snd s @ [c])"
    using assms part_word_snoc [of "snd s" c] by (simp add: M_def lo_bitwise lo_shift_int tkip_sim_def)
  note count = tkip_sim_count [OF assms]
  show ?thesis
  proof (cases "length (snd s) = 3")
    case True
    have "lo M = load_le32 (snd s @ [c])"
      unfolding M using True by (simp add: part_word_full)
    then show ?thesis
      using assms True count(2) tkip_block_michael [of "tkL t" "tkR t" M]
      unfolding tkip_sim_def RTMPTkipAppendByte_def michael_feed_def M_def [symmetric]
      by (simp add: Let_def split_beta prod_eq_iff)
  next
    case False
    then show ?thesis
      using assms count M
      unfolding tkip_sim_def RTMPTkipAppendByte_def michael_feed_def M_def [symmetric]
      by (simp add: Let_def)
  qed
qed

lemma RTMPTkipAppend_sim:
  assumes "tkip_sim t s"
  shows "tkip_sim (foldl RTMPTkipAppendByte t xs) (foldl michael_feed s xs)"
  using assms by (induction xs arbitrary: t s) (simp_all add: RTMPTkipAppendByte_sim)

section \<open>The message integrity code\<close>

abbreviation michael_key :: "bytes \<Rightarrow> (u32 \<times> u32) \<times> bytes" where
  "michael_key key \<equiv> ((load_le32 (take 4 key), load_le32 (take 4 (drop 4 key))), [])"

lemma length_michael_feed:
  "length (snd s) < 4 \<Longrightarrow> length (snd (foldl michael_feed s xs)) = (length (snd s) + length xs) mod 4"
proof (induction xs arbitrary: s)
  case (Cons x xs)
  then have "length (snd (michael_feed s x)) = (length (snd s) + 1) mod 4"
    by (auto simp: michael_feed_def)
  with Cons show ?case
    by (simp add: mod_simps)
qed simp

lemma michael_feed_word:
  "length b = 4 \<Longrightarrow> foldl michael_feed (s, []) b = (michael_block s (load_le32 b), [])"
  by (erule length_4_cases) (simp add: michael_feed_def)

lemma michael_feed_chunks:
  "4 dvd length xs \<Longrightarrow> foldl michael_feed (s, []) xs = (foldl michael_block s (map load_le32 (chunks 4 xs)), [])"
proof (induction "length xs" arbitrary: xs s rule: less_induct)
  case less
  show ?case
  proof (cases "xs = []")
    case False
    then have len: "4 \<le> length xs"
      using less.prems by (auto dest: dvd_imp_le)
    have "xs = take 4 xs @ drop 4 xs"
      by simp
    moreover have "chunks 4 (take 4 xs @ drop 4 xs) = take 4 xs # chunks 4 (drop 4 xs)"
      using len by (intro chunks_step) auto
    moreover have "foldl michael_feed (s, []) (take 4 xs @ drop 4 xs)
        = foldl michael_feed (michael_block s (load_le32 (take 4 xs)), []) (drop 4 xs)"
      using len unfolding foldl_append by (simp add: michael_feed_word)
    ultimately show ?thesis
      using less.hyps [of "drop 4 xs"] less.prems len by (simp add: dvd_minus_self)
  qed simp
qed

lemma tkip_pad_loop_sim:
  assumes "tkip_sim t s"
  shows "\<exists>t'. tkip_pad_loop t = Some t'
    \<and> tkip_sim t' (foldl michael_feed s (replicate ((4 - length (snd s)) mod 4) 0))"
  using assms
proof (induction "(4 - length (snd s)) mod 4" arbitrary: t s)
  case 0
  then have "length (snd s) = 0"
    by (cases "length (snd s)") (auto simp: tkip_sim_def)
  with 0 have "tkip_pad_loop t = Some t"
    by (subst tkip_pad_loop.simps) (simp add: tkip_sim_def unat_eq_0)
  with 0 show ?case
    by simp
next
  case (Suc k)
  let ?s = "michael_feed s 0"
  have len: "length (snd s) \<noteq> 0" "length (snd s) < 4"
    using Suc.hyps(2) Suc.prems by (auto simp: tkip_sim_def)
  then have ne: "tkBytesInM t \<noteq> 0"
    using Suc.prems by (auto simp: tkip_sim_def)
  have k: "k = (4 - length (snd ?s)) mod 4"
    using Suc.hyps(2) len by (auto simp: michael_feed_def)
  obtain t' where "tkip_pad_loop (RTMPTkipAppendByte t 0) = Some t'"
      and "tkip_sim t' (foldl michael_feed ?s (replicate k 0))"
    using Suc.hyps(1) [OF k RTMPTkipAppendByte_sim [OF Suc.prems, of 0]] k by auto
  then show ?case
    unfolding Suc.hyps(2) [symmetric] using ne by (subst tkip_pad_loop.simps) simp
qed

lemma michael_pad_count: "4 + (4 - (n + 5) mod 4) mod 4 = 7 - n mod (4 :: nat)"
proof -
  have "(n + 5) mod 4 = ((n + 1) + 4) mod 4"
    by (simp add: add.commute)
  then have eq: "(n + 5) mod 4 = (n mod 4 + 1) mod 4"
    by (simp only: mod_add_self2 mod_add_left_eq)
  have "n mod 4 < 4"
    by simp
  then consider "n mod 4 = 0" | "n mod 4 = 1" | "n mod 4 = 2" | "n mod 4 = 3"
    by linarith
  then show ?thesis
    unfolding eq by cases simp_all
qed

lemma michael_pad_split: "[0x5a, 0, 0, 0, 0] @ replicate ((4 - (length m + 5) mod 4) mod 4) 0
    = 0x5a # replicate (7 - length m mod 4) (0 :: u8)"
  unfolding michael_pad_count [symmetric] by (simp add: replicate_add replicate_zero)

lemma length_michael_pad: "4 dvd length (michael_pad m)"
proof -
  have "n + Suc (7 - n mod 4) = 4 * (n div 4) + 8" for n :: nat
    using div_mult_mod_eq [of n 4] mod_less_divisor [of 4 n] by linarith
  then show ?thesis
    unfolding michael_pad_def by simp
qed

lemma RTMPTkipGetMIC_michael:
  assumes "tkip_sim t (foldl michael_feed (michael_key key) m)"
  obtains t' where "RTMPTkipGetMIC t = Some t'" and "tkMIC t' = michael key m"
proof -
  let ?s = "foldl michael_feed (michael_key key) (m @ [0x5a, 0, 0, 0, 0])"
  have "tkip_sim (foldl RTMPTkipAppendByte t [0x5a, 0, 0, 0, 0]) ?s"
    using RTMPTkipAppend_sim [OF assms, of "[0x5a, 0, 0, 0, 0]"] by simp
  from tkip_pad_loop_sim [OF this] obtain t1
    where t1: "tkip_pad_loop (foldl RTMPTkipAppendByte t [0x5a, 0, 0, 0, 0]) = Some t1"
      and sim: "tkip_sim t1 (foldl michael_feed ?s (replicate ((4 - length (snd ?s)) mod 4) 0))"
    by blast
  have len: "length (snd ?s) = (length m + 5) mod 4"
    by (subst length_michael_feed) (simp_all add: add.commute)
  have "foldl michael_feed ?s (replicate ((4 - length (snd ?s)) mod 4) 0)
      = foldl michael_feed (michael_key key) (m @ [0x5a, 0, 0, 0, 0] @ replicate ((4 - length (snd ?s)) mod 4) 0)"
    by simp
  also have "\<dots> = foldl michael_feed (michael_key key) (michael_pad m)"
    unfolding michael_pad_def len michael_pad_split ..
  finally have sim1: "tkip_sim t1 (foldl michael_block (fst (michael_key key)) (map load_le32 (chunks 4 (michael_pad m))), [])"
    using sim michael_feed_chunks [OF length_michael_pad] by simp
  obtain l r where lr: "foldl michael_block (fst (michael_key key)) (map load_le32 (chunks 4 (michael_pad m))) = (l, r)"
    by (cases "foldl michael_block (fst (michael_key key)) (map load_le32 (chunks 4 (michael_pad m)))")
  have "store_le32 (lo (tkL t1)) @ store_le32 (lo (tkR t1)) = michael key m"
    using sim1 lr unfolding tkip_sim_def michael_def by simp
  then show thesis
    using that t1 unfolding RTMPTkipGetMIC_def by (simp add: RTMPTkipPutUInt32_store)
qed

text \<open>The message the MIC protects: addresses, priority and the data.\<close>

definition mic_message :: "bytes \<Rightarrow> bytes \<Rightarrow> u8 \<Rightarrow> bytes \<Rightarrow> bytes" where
  "mic_message da sa prio d = take 6 da @ take 6 sa @ [prio, 0, 0, 0] @ d"

lemma priority_bytes: "take 4 (store_le64 (ucast prio)) = [prio, 0, 0, 0]"
proof -
  have "ucast (drop_bit k (ucast prio :: u64)) = (0 :: u8)" if "8 \<le> k" for k
    using that by (intro bit_word_eqI) (auto simp: bit_simps bit_u8_ge)
  moreover have "ucast (ucast prio :: u64) = prio"
    by (rule bit_word_eqI) (simp add: bit_simps)
  ultimately show ?thesis
    by (simp add: store_le64_def)
qed

lemma RTMPTkipSetMICKey_sim: "tkip_sim (RTMPTkipSetMICKey t key) (michael_key key)"
  by (simp add: tkip_sim_def RTMPTkipSetMICKey_def Let_def lo_GetUInt32 lo_bitwise)

lemma RTMPInitMICEngine_sim:
  "tkip_sim (RTMPInitMICEngine t da sa prio key) (foldl michael_feed (michael_key key) (mic_message da sa prio []))"
  using RTMPTkipAppend_sim [OF RTMPTkipSetMICKey_sim [of t key], of "mic_message da sa prio []"]
  by (simp add: RTMPInitMICEngine_def RTMPTkipAppend_def mic_message_def Let_def priority_bytes)

lemma mic_engine_michael:
  obtains t' where "RTMPTkipGetMIC (foldl RTMPTkipAppendByte (RTMPInitMICEngine t da sa prio key) d) = Some t'"
    and "tkMIC t' = michael key (mic_message da sa prio d)"
proof -
  have "tkip_sim (foldl RTMPTkipAppendByte (RTMPInitMICEngine t da sa prio key) d)
      (foldl michael_feed (michael_key key) (mic_message da sa prio d))"
    using RTMPTkipAppend_sim [OF RTMPInitMICEngine_sim [of t da sa prio key], of d]
    by (simp add: mic_message_def)
  then show thesis
    by (rule RTMPTkipGetMIC_michael) (rule that)
qed

text \<open>
  (C29) On a host with 64 bit \<^verbatim>\<open>ULONG\<close>, the MIC check terminates and accepts a frame exactly when
  the eight bytes behind the data are the Michael code of the addresses, the priority and the
  data under the receive key.
\<close>

theorem RTMPTkipCompareMICValue_michael:
  assumes "Len + 8 \<le> length pSrc"
  shows "\<exists>Rx'. RTMPTkipCompareMICValue Rx pSrc pDA pSA pMICKey prio Len
    = Some (michael pMICKey (mic_message pDA pSA prio (take Len pSrc)) = read_at Len 8 pSrc, Rx')"
proof -
  obtain t' where "RTMPTkipGetMIC (foldl RTMPTkipAppendByte (RTMPInitMICEngine Rx pDA pSA prio pMICKey) (take Len pSrc))
        = Some t'"
      and "tkMIC t' = michael pMICKey (mic_message pDA pSA prio (take Len pSrc))"
    by (rule mic_engine_michael)
  then show ?thesis
    using assms
    by (simp add: RTMPTkipCompareMICValue_def RTMPInitMICEngine_def RTMPTkipAppend_def Let_def)
qed

definition tkip_key_example :: tkip_key_info where
  "tkip_key_example = \<lparr>tkBytesInM = 1, tkIV16 = 0, tkIV32 = 0, tkK0 = 5, tkK1 = 6, tkL = 7, tkR = 8, tkM = 9,
     tkRC4KEY = replicate 16 0, tkMIC = replicate 8 0\<rparr>"

theorem RTMPTkipCompareMICValue_michael_witness:
  "\<exists>Rx'. RTMPTkipCompareMICValue tkip_key_example ([1, 2, 3] @ replicate 8 0) (replicate 6 1) (replicate 6 2) (replicate 8 3) 0 3
    = Some (michael (replicate 8 3) (mic_message (replicate 6 1) (replicate 6 2) 0 [1, 2, 3]) = replicate 8 0, Rx')"
  using RTMPTkipCompareMICValue_michael [of 3 "[1, 2, 3] @ replicate 8 0" tkip_key_example "replicate 6 1" "replicate 6 2"
      "replicate 8 3" 0]
  by (simp add: read_at_def)

section \<open>Sender and receiver\<close>

text \<open>The data unit the sender protects: the LLC header and type, then the payload behind the Ethernet header.\<close>

definition vlan_offset :: "bytes \<Rightarrow> nat" where
  "vlan_offset pSrc = (if pSrc ! 12 = 0x81 \<and> pSrc ! 13 = 0 then 4 else 0)"

definition tkip_msdu :: "bytes \<Rightarrow> bytes option \<Rightarrow> bytes" where
  "tkip_msdu pSrc pEncap =
     (case pEncap of None \<Rightarrow> [] | Some e \<Rightarrow> take 6 e @ take 2 (drop (12 + vlan_offset pSrc) pSrc))
     @ drop (14 + vlan_offset pSrc) pSrc"

lemma vlan_offset_code:
  "(if unat a * 256 + unat b = 0x8100 then 4 else 0 :: nat) = (if a = 0x81 \<and> b = (0 :: u8) then 4 else 0)" for a :: u8
proof -
  have "unat a < 256" "unat b < 256"
    using unsigned_less [of a] unsigned_less [of b] by simp_all
  then have "unat a * 256 + unat b = 0x8100 \<longleftrightarrow> unat a = 0x81 \<and> unat b = 0"
    by presburger
  then show ?thesis
    by (simp add: word_unat_eq_iff)
qed

lemma RTMPCalculateMICValue_michael:
  assumes "14 + vlan_offset pSrc \<le> length pSrc"
  obtains Tx' where "RTMPCalculateMICValue Tx pSrc prio pEncap k = Some Tx'"
    and "tkMIC Tx' = michael (ckTxMic k) (mic_message pSrc (drop 6 pSrc) prio (tkip_msdu pSrc pEncap))"
proof -
  have foldl_take: "foldl RTMPTkipAppendByte t [] = t" "(if 0 < length xs then foldl RTMPTkipAppendByte t xs else t)
      = foldl RTMPTkipAppendByte t xs" for t xs
    by auto
  have "RTMPCalculateMICValue Tx pSrc prio pEncap k
      = RTMPTkipGetMIC (foldl RTMPTkipAppendByte (RTMPInitMICEngine Tx pSrc (drop 6 pSrc) prio (ckTxMic k))
          (tkip_msdu pSrc pEncap))"
    using assms foldl_take(2) [of "drop (14 + vlan_offset pSrc) pSrc"]
    unfolding RTMPCalculateMICValue_def Let_def vlan_offset_code vlan_offset_def [symmetric]
    by (simp add: RTMPTkipAppend_def tkip_msdu_def split: option.split)
  then show thesis
    using mic_engine_michael [of Tx pSrc "drop 6 pSrc" prio "ckTxMic k" "tkip_msdu pSrc pEncap"] that by metis
qed

lemma length_michael [simp]: "length (michael key m) = 8"
  by (simp add: michael_def split_beta)

text \<open>
  (C30) Sender and receiver agree: for every Ethernet packet, tagged with a VLAN or not, the MIC
  that \<open>RTMPCalculateMICValue\<close> leaves in the transmit state is accepted by
  \<open>RTMPTkipCompareMICValue\<close> behind the data unit it was computed for, with the same key, addresses and priority.
\<close>

theorem TKIP_MIC_agreement:
  assumes "14 + vlan_offset pSrc \<le> length pSrc"
  shows "\<exists>Tx' Rx'. RTMPCalculateMICValue Tx pSrc prio pEncap k = Some Tx'
    \<and> RTMPTkipCompareMICValue Rx (tkip_msdu pSrc pEncap @ tkMIC Tx') (take 6 pSrc) (take 6 (drop 6 pSrc))
        (ckTxMic k) prio (length (tkip_msdu pSrc pEncap)) = Some (True, Rx')"
proof -
  obtain Tx' where tx: "RTMPCalculateMICValue Tx pSrc prio pEncap k = Some Tx'"
      and mic: "tkMIC Tx' = michael (ckTxMic k) (mic_message pSrc (drop 6 pSrc) prio (tkip_msdu pSrc pEncap))"
    using RTMPCalculateMICValue_michael [OF assms] .
  have "mic_message (take 6 pSrc) (take 6 (drop 6 pSrc)) prio d = mic_message pSrc (drop 6 pSrc) prio d" for d
    by (simp add: mic_message_def)
  moreover obtain t' where "RTMPTkipGetMIC (foldl RTMPTkipAppendByte
        (RTMPInitMICEngine Rx (take 6 pSrc) (take 6 (drop 6 pSrc)) prio (ckTxMic k)) (tkip_msdu pSrc pEncap)) = Some t'"
      and "tkMIC t' = michael (ckTxMic k) (mic_message (take 6 pSrc) (take 6 (drop 6 pSrc)) prio (tkip_msdu pSrc pEncap))"
    by (rule mic_engine_michael)
  ultimately have "RTMPTkipCompareMICValue Rx (tkip_msdu pSrc pEncap @ tkMIC Tx') (take 6 pSrc) (take 6 (drop 6 pSrc))
        (ckTxMic k) prio (length (tkip_msdu pSrc pEncap)) = Some (True, t')"
    using mic by (simp add: RTMPTkipCompareMICValue_def RTMPInitMICEngine_def RTMPTkipAppend_def Let_def read_at_def)
  with tx show ?thesis
    by blast
qed

theorem TKIP_MIC_agreement_witness:
  "\<exists>Tx' Rx'. RTMPCalculateMICValue tkip_key_example (replicate 12 1 @ [8, 0] @ [9, 9]) 3
        (Some [0xaa, 0xaa, 3, 0, 0, 0]) wep_key_example = Some Tx'
    \<and> RTMPTkipCompareMICValue tkip_key_example (tkip_msdu (replicate 12 1 @ [8, 0] @ [9, 9]) (Some [0xaa, 0xaa, 3, 0, 0, 0]) @ tkMIC Tx')
        (replicate 6 1) (replicate 6 1) (ckTxMic wep_key_example) 3
        (length (tkip_msdu (replicate 12 1 @ [8, 0] @ [9, 9]) (Some [0xaa, 0xaa, 3, 0, 0, 0]))) = Some (True, Rx')"
  using TKIP_MIC_agreement [of "replicate 12 1 @ [8, 0] @ [9, 9]" tkip_key_example 3
      "Some [0xaa, 0xaa, 3, 0, 0, 0]" wep_key_example tkip_key_example]
  by (simp add: vlan_offset_def nth_append)

end
