(* ===== verification/Tkip_Mix.thy ===== *)
theory Tkip_Mix
  imports Aes_Tables
begin

text \<open>
  The TKIP key mixing of \<^verbatim>\<open>common/cmm_tkip.c\<close>: the tables \<^verbatim>\<open>Tkip_Sbox_Lower\<close> and
  \<^verbatim>\<open>Tkip_Sbox_Upper\<close>, \<^verbatim>\<open>tkip_sbox\<close>, \<^verbatim>\<open>rotr1\<close> and \<^verbatim>\<open>RTMPTkipMixKey\<close>. The code computes with 32 bit
  variables that it reduces only in some places; the lemmas show that the RC4 key is
  the one of the 16 bit definition of IEEE 802.11, with the S-box derived from the AES S-box.
\<close>

section \<open>Operations\<close>

definition Tkip_Sbox_Lower :: "u32 list" where
  "Tkip_Sbox_Lower = concat
    [[0xA5, 0x84, 0x99, 0x8D, 0x0D, 0xBD, 0xB1, 0x54],
     [0x50, 0x03, 0xA9, 0x7D, 0x19, 0x62, 0xE6, 0x9A],
     [0x45, 0x9D, 0x40, 0x87, 0x15, 0xEB, 0xC9, 0x0B],
     [0xEC, 0x67, 0xFD, 0xEA, 0xBF, 0xF7, 0x96, 0x5B],
     [0xC2, 0x1C, 0xAE, 0x6A, 0x5A, 0x41, 0x02, 0x4F],
     [0x5C, 0xF4, 0x34, 0x08, 0x93, 0x73, 0x53, 0x3F],
     [0x0C, 0x52, 0x65, 0x5E, 0x28, 0xA1, 0x0F, 0xB5],
     [0x09, 0x36, 0x9B, 0x3D, 0x26, 0x69, 0xCD, 0x9F],
     [0x1B, 0x9E, 0x74, 0x2E, 0x2D, 0xB2, 0xEE, 0xFB],
     [0xF6, 0x4D, 0x61, 0xCE, 0x7B, 0x3E, 0x71, 0x97],
     [0xF5, 0x68, 0x00, 0x2C, 0x60, 0x1F, 0xC8, 0xED],
     [0xBE, 0x46, 0xD9, 0x4B, 0xDE, 0xD4, 0xE8, 0x4A],
     [0x6B, 0x2A, 0xE5, 0x16, 0xC5, 0xD7, 0x55, 0x94],
     [0xCF, 0x10, 0x06, 0x81, 0xF0, 0x44, 0xBA, 0xE3],
     [0xF3, 0xFE, 0xC0, 0x8A, 0xAD, 0xBC, 0x48, 0x04],
     [0xDF, 0xC1, 0x75, 0x63, 0x30, 0x1A, 0x0E, 0x6D],
     [0x4C, 0x14, 0x35, 0x2F, 0xE1, 0xA2, 0xCC, 0x39],
     [0x57, 0xF2, 0x82, 0x47, 0xAC, 0xE7, 0x2B, 0x95],
     [0xA0, 0x98, 0xD1, 0x7F, 0x66, 0x7E, 0xAB, 0x83],
     [0xCA, 0x29, 0xD3, 0x3C, 0x79, 0xE2, 0x1D, 0x76],
     [0x3B, 0x56, 0x4E, 0x1E, 0xDB, 0x0A, 0x6C, 0xE4],
     [0x5D, 0x6E, 0xEF, 0xA6, 0xA8, 0xA4, 0x37, 0x8B],
     [0x32, 0x43, 0x59, 0xB7, 0x8C, 0x64, 0xD2, 0xE0],
     [0xB4, 0xFA, 0x07, 0x25, 0xAF, 0x8E, 0xE9, 0x18],
     [0xD5, 0x88, 0x6F, 0x72, 0x24, 0xF1, 0xC7, 0x51],
     [0x23, 0x7C, 0x9C, 0x21, 0xDD, 0xDC, 0x86, 0x85],
     [0x90, 0x42, 0xC4, 0xAA, 0xD8, 0x05, 0x01, 0x12],
     [0xA3, 0x5F, 0xF9, 0xD0, 0x91, 0x58, 0x27, 0xB9],
     [0x38, 0x13, 0xB3, 0x33, 0xBB, 0x70, 0x89, 0xA7],
     [0xB6, 0x22, 0x92, 0x20, 0x49, 0xFF, 0x78, 0x7A],
     [0x8F, 0xF8, 0x80, 0x17, 0xDA, 0x31, 0xC6, 0xB8],
     [0xC3, 0xB0, 0x77, 0x11, 0xCB, 0xFC, 0xD6, 0x3A]]"

definition Tkip_Sbox_Upper :: "u32 list" where
  "Tkip_Sbox_Upper = concat
    [[0xC6, 0xF8, 0xEE, 0xF6, 0xFF, 0xD6, 0xDE, 0x91],
     [0x60, 0x02, 0xCE, 0x56, 0xE7, 0xB5, 0x4D, 0xEC],
     [0x8F, 0x1F, 0x89, 0xFA, 0xEF, 0xB2, 0x8E, 0xFB],
     [0x41, 0xB3, 0x5F, 0x45, 0x23, 0x53, 0xE4, 0x9B],
     [0x75, 0xE1, 0x3D, 0x4C, 0x6C, 0x7E, 0xF5, 0x83],
     [0x68, 0x51, 0xD1, 0xF9, 0xE2, 0xAB, 0x62, 0x2A],
     [0x08, 0x95, 0x46, 0x9D, 0x30, 0x37, 0x0A, 0x2F],
     [0x0E, 0x24, 0x1B, 0xDF, 0xCD, 0x4E, 0x7F, 0xEA],
     [0x12, 0x1D, 0x58, 0x34, 0x36, 0xDC, 0xB4, 0x5B],
     [0xA4, 0x76, 0xB7, 0x7D, 0x52, 0xDD, 0x5E, 0x13],
     [0xA6, 0xB9, 0x00, 0xC1, 0x40, 0xE3, 0x79, 0xB6],
     [0xD4, 0x8D, 0x67, 0x72, 0x94, 0x98, 0xB0, 0x85],
     [0xBB, 0xC5, 0x4F, 0xED, 0x86, 0x9A, 0x66, 0x11],
     [0x8A, 0xE9, 0x04, 0xFE, 0xA0, 0x78, 0x25, 0x4B],
     [0xA2, 0x5D, 0x80, 0x05, 0x3F, 0x21, 0x70, 0xF1],
     [0x63, 0x77, 0xAF, 0x42, 0x20, 0xE5, 0xFD, 0xBF],
     [0x81, 0x18, 0x26, 0xC3, 0xBE, 0x35, 0x88, 0x2E],
     [0x93, 0x55, 0xFC, 0x7A, 0xC8, 0xBA, 0x32, 0xE6],
     [0xC0, 0x19, 0x9E, 0xA3, 0x44, 0x54, 0x3B, 0x0B],
     [0x8C, 0xC7, 0x6B, 0x28, 0xA7, 0xBC, 0x16, 0xAD],
     [0xDB, 0x64, 0x74, 0x14, 0x92, 0x0C, 0x48, 0xB8],
     [0x9F, 0xBD, 0x43, 0xC4, 0x39, 0x31, 0xD3, 0xF2],
     [0xD5, 0x8B, 0x6E, 0xDA, 0x01, 0xB1, 0x9C, 0x49],
     [0xD8, 0xAC, 0xF3, 0xCF, 0xCA, 0xF4, 0x47, 0x10],
     [0x6F, 0xF0, 0x4A, 0x5C, 0x38, 0x57, 0x73, 0x97],
     [0xCB, 0xA1, 0xE8, 0x3E, 0x96, 0x61, 0x0D, 0x0F],
     [0xE0, 0x7C, 0x71, 0xCC, 0x90, 0x06, 0xF7, 0x1C],
     [0xC2, 0x6A, 0xAE, 0x69, 0x17, 0x99, 0x3A, 0x27],
     [0xD9, 0xEB, 0x2B, 0x22, 0xD2, 0xA9, 0x07, 0x33],
     [0x2D, 0x3C, 0x15, 0xC9, 0x87, 0xAA, 0x50, 0xA5],
     [0x03, 0x59, 0x09, 0x1A, 0x65, 0xD7, 0x84, 0xD0],
     [0x82, 0x29, 0x5A, 0x1E, 0x7B, 0xA8, 0x6D, 0x2C]]"

definition tkip_sbox :: "u32 \<Rightarrow> u32" where
  "tkip_sbox index =
     (let index_low = index mod 256;
          index_high = drop_bit 8 index mod 256;
          left = Tkip_Sbox_Lower ! unat index_low + (Tkip_Sbox_Upper ! unat index_low * 256);
          right = Tkip_Sbox_Upper ! unat index_high + (Tkip_Sbox_Lower ! unat index_high * 256)
      in left XOR right)"

definition rotr1 :: "u32 \<Rightarrow> u32" where
  "rotr1 a =
     (let b = (if a AND 0x01 = 0x01 then drop_bit 1 a OR 0x8000 else drop_bit 1 a AND 0x7fff)
      in b mod 65536)"

text \<open>The 16 bit little endian word of the key at an index, as the code spells it out.\<close>

definition key_word :: "bytes \<Rightarrow> nat \<Rightarrow> u32" where
  "key_word key j = 256 * ucast (key ! (1 + j)) + ucast (key ! j)"

definition tkip_phase1_step :: "bytes \<Rightarrow> nat \<Rightarrow> u32 \<times> u32 \<times> u32 \<times> u32 \<times> u32 \<Rightarrow> u32 \<times> u32 \<times> u32 \<times> u32 \<times> u32" where
  "tkip_phase1_step key i p1k =
     (case p1k of (p0, p1, p2, p3, p4) \<Rightarrow>
      let j = 2 * (i mod 2) in
      let p0 = (p0 + tkip_sbox ((p4 XOR key_word key j) mod 65536)) mod 65536 in
      let p1 = (p1 + tkip_sbox ((p0 XOR key_word key (4 + j)) mod 65536)) mod 65536 in
      let p2 = (p2 + tkip_sbox ((p1 XOR key_word key (8 + j)) mod 65536)) mod 65536 in
      let p3 = (p3 + tkip_sbox ((p2 XOR key_word key (12 + j)) mod 65536)) mod 65536 in
      let p4 = (p4 + tkip_sbox ((p3 XOR key_word key j) mod 65536)) mod 65536 in
      let p4 = (p4 + of_nat i) mod 65536
      in (p0, p1, p2, p3, p4))"

text \<open>Phase 2 of \<^verbatim>\<open>RTMPTkipMixKey\<close>: the RC4 key from the phase 1 key and the low counter word.\<close>

definition tkip_phase2 :: "bytes \<Rightarrow> u32 \<times> u32 \<times> u32 \<times> u32 \<times> u32 \<Rightarrow> u32 \<Rightarrow> bytes" where
  "tkip_phase2 key p1k tsc2 =
     (case p1k of (ppk0, ppk1, ppk2, ppk3, ppk4) \<Rightarrow>
      let ppk5 = (ppk4 + tsc2) mod 65536 in
      let ppk0 = ppk0 + tkip_sbox ((ppk5 XOR key_word key 0) mod 65536) in
      let ppk1 = ppk1 + tkip_sbox ((ppk0 XOR key_word key 2) mod 65536) in
      let ppk2 = ppk2 + tkip_sbox ((ppk1 XOR key_word key 4) mod 65536) in
      let ppk3 = ppk3 + tkip_sbox ((ppk2 XOR key_word key 6) mod 65536) in
      let ppk4 = ppk4 + tkip_sbox ((ppk3 XOR key_word key 8) mod 65536) in
      let ppk5 = ppk5 + tkip_sbox ((ppk4 XOR key_word key 10) mod 65536) in
      let ppk0 = ppk0 + rotr1 (ppk5 XOR key_word key 12) in
      let ppk1 = ppk1 + rotr1 (ppk0 XOR key_word key 14) in
      let ppk2 = ppk2 + rotr1 ppk1 in
      let ppk3 = ppk3 + rotr1 ppk2 in
      let ppk4 = ppk4 + rotr1 ppk3 in
      let ppk5 = ppk5 + rotr1 ppk4
      in [ucast (drop_bit 8 tsc2 mod 256),
          ucast ((drop_bit 8 tsc2 mod 256 OR 0x20) AND 0x7f),
          ucast (tsc2 mod 256),
          ucast (drop_bit 1 (ppk5 XOR key_word key 0) mod 256),
          ucast (ppk0 mod 256), ucast (drop_bit 8 ppk0 mod 256),
          ucast (ppk1 mod 256), ucast (drop_bit 8 ppk1 mod 256),
          ucast (ppk2 mod 256), ucast (drop_bit 8 ppk2 mod 256),
          ucast (ppk3 mod 256), ucast (drop_bit 8 ppk3 mod 256),
          ucast (ppk4 mod 256), ucast (drop_bit 8 ppk4 mod 256),
          ucast (ppk5 mod 256), ucast (drop_bit 8 ppk5 mod 256)])"

text \<open>\<^verbatim>\<open>RTMPTkipMixKey\<close>: the RC4 key and the phase 1 key it leaves in \<^verbatim>\<open>p1k\<close>.\<close>

definition RTMPTkipMixKey ::
  "bytes \<Rightarrow> bytes \<Rightarrow> u64 \<Rightarrow> u64 \<Rightarrow> bytes \<times> (u32 \<times> u32 \<times> u32 \<times> u32 \<times> u32)" where
  "RTMPTkipMixKey key ta pnl pnh =
     (let tsc0 = ucast (drop_bit 16 pnh mod 65536);
          tsc1 = ucast (pnh mod 65536);
          tsc2 = ucast (pnl mod 65536);
          p1k = (tsc1, tsc0, ucast (ta ! 0) + ucast (ta ! 1) * 256,
                 ucast (ta ! 2) + ucast (ta ! 3) * 256, ucast (ta ! 4) + ucast (ta ! 5) * 256);
          p1k = fold (tkip_phase1_step key) [0..<8] p1k
      in (tkip_phase2 key p1k tsc2, p1k))"

section \<open>Reference: key mixing of IEEE 802.11\<close>

text \<open>The S-box entry for a byte: twice and three times the AES S-box in the field of AES.\<close>

definition sbox_entry :: "u8 \<Rightarrow> u16" where
  "sbox_entry x = (let s = aes_sbox_enc ! unat x in word_cat (gf_mul 2 s) (gf_mul 3 s))"

definition S16 :: "u16 \<Rightarrow> u16" where
  "S16 v = sbox_entry (ucast v) XOR word_rotl 8 (sbox_entry (ucast (drop_bit 8 v)))"

definition Mk16 :: "u8 \<Rightarrow> u8 \<Rightarrow> u16" where
  "Mk16 hi lo = word_cat hi lo"

definition TK16 :: "bytes \<Rightarrow> nat \<Rightarrow> u16" where
  "TK16 key n = Mk16 (key ! (2 * n + 1)) (key ! (2 * n))"

definition phase1_round :: "bytes \<Rightarrow> nat \<Rightarrow> u16 \<times> u16 \<times> u16 \<times> u16 \<times> u16 \<Rightarrow> u16 \<times> u16 \<times> u16 \<times> u16 \<times> u16" where
  "phase1_round key i t =
     (case t of (t0, t1, t2, t3, t4) \<Rightarrow>
      let j = i mod 2 in
      let t0 = t0 + S16 (t4 XOR TK16 key (0 + j)) in
      let t1 = t1 + S16 (t0 XOR TK16 key (2 + j)) in
      let t2 = t2 + S16 (t1 XOR TK16 key (4 + j)) in
      let t3 = t3 + S16 (t2 XOR TK16 key (6 + j)) in
      let t4 = t4 + S16 (t3 XOR TK16 key (0 + j)) in
      let t4 = t4 + of_nat i
      in (t0, t1, t2, t3, t4))"

definition phase1 :: "bytes \<Rightarrow> bytes \<Rightarrow> u32 \<Rightarrow> u16 \<times> u16 \<times> u16 \<times> u16 \<times> u16" where
  "phase1 key ta iv32 = fold (phase1_round key) [0..<8]
     (ucast iv32, ucast (drop_bit 16 iv32), Mk16 (ta ! 1) (ta ! 0), Mk16 (ta ! 3) (ta ! 2), Mk16 (ta ! 5) (ta ! 4))"

definition phase2 :: "bytes \<Rightarrow> u16 \<times> u16 \<times> u16 \<times> u16 \<times> u16 \<Rightarrow> u16 \<Rightarrow> bytes" where
  "phase2 key t iv16 =
     (case t of (t0, t1, t2, t3, t4) \<Rightarrow>
      let t5 = t4 + iv16 in
      let t0 = t0 + S16 (t5 XOR TK16 key 0) in
      let t1 = t1 + S16 (t0 XOR TK16 key 1) in
      let t2 = t2 + S16 (t1 XOR TK16 key 2) in
      let t3 = t3 + S16 (t2 XOR TK16 key 3) in
      let t4 = t4 + S16 (t3 XOR TK16 key 4) in
      let t5 = t5 + S16 (t4 XOR TK16 key 5) in
      let t0 = t0 + word_rotr 1 (t5 XOR TK16 key 6) in
      let t1 = t1 + word_rotr 1 (t0 XOR TK16 key 7) in
      let t2 = t2 + word_rotr 1 t1 in
      let t3 = t3 + word_rotr 1 t2 in
      let t4 = t4 + word_rotr 1 t3 in
      let t5 = t5 + word_rotr 1 t4 in
      let hi = (ucast (drop_bit 8 iv16) :: u8)
      in [hi, (hi OR 0x20) AND 0x7f, ucast iv16, ucast (drop_bit 1 (t5 XOR TK16 key 0))]
         @ concat (map (\<lambda>t. [ucast t, ucast (drop_bit 8 t)]) [t0, t1, t2, t3, t4, t5]))"

section \<open>The S-box\<close>

lemma Tkip_Sbox_tables:
  "Tkip_Sbox_Lower = map (\<lambda>z. ucast (gf_3 z)) aes_sbox_enc"
  "Tkip_Sbox_Upper = map (\<lambda>z. ucast (gf_2 z)) aes_sbox_enc"
  by code_simp+

lemma Tkip_Sbox_nth:
  "Tkip_Sbox_Lower ! unat (x :: u8) = ucast (gf_mul 3 (aes_sbox_enc ! unat x))"
  "Tkip_Sbox_Upper ! unat x = ucast (gf_mul 2 (aes_sbox_enc ! unat x))"
proof -
  have "unat x < length aes_sbox_enc"
    using unsigned_less [of x] by (simp add: length_aes_sbox_enc)
  then show "Tkip_Sbox_Lower ! unat x = ucast (gf_mul 3 (aes_sbox_enc ! unat x))"
    and "Tkip_Sbox_Upper ! unat x = ucast (gf_mul 2 (aes_sbox_enc ! unat x))"
    by (simp_all add: Tkip_Sbox_tables gf_mul_consts)
qed

text \<open>Truncation to 16 bits, the values the standard computes with.\<close>

abbreviation w16 :: "u32 \<Rightarrow> u16" where
  "w16 x \<equiv> ucast x"

lemma mod_take_bit:
  "(x :: u32) mod 256 = take_bit 8 x" "x mod 65536 = take_bit 16 x" "(y :: u64) mod 65536 = take_bit 16 y"
  by (simp_all add: take_bit_eq_mod)

lemma w16_bitwise:
  "w16 (x XOR y) = w16 x XOR w16 y" "w16 (x mod 65536) = w16 x" "w16 (x + y) = w16 x + w16 y"
proof -
  show "w16 (x XOR y) = w16 x XOR w16 y"
    by (rule bit_word_eqI) (simp add: bit_simps)
  show "w16 (x mod 65536) = w16 x"
    unfolding mod_take_bit by (rule bit_word_eqI) (simp add: bit_simps)
  show "w16 (x + y) = w16 x + w16 y"
    by (rule word_uint_eqI)
      (simp add: uint_word_ariths unsigned_ucast_eq take_bit_eq_mod mod_simps mod_mod_cancel)
qed

lemma unat_low_byte:
  "unat (x mod 256) = unat (ucast x :: u8)" "unat (drop_bit 8 x mod 256) = unat (ucast (drop_bit 8 x) :: u8)" for x :: u32
  unfolding mod_take_bit by (simp_all add: unsigned_take_bit_eq unsigned_ucast_eq)

lemma w16_bytes:
  "w16 (ucast b + ucast a * 256) = word_cat a (b :: u8)" "w16 (256 * ucast a + ucast b) = word_cat (a :: u8) b"
proof -
  have sum: "ucast b + ucast a * 256 = (ucast b OR push_bit 8 (ucast a) :: u32)"
  proof -
    have "(ucast b AND push_bit 8 (ucast a) :: u32) = 0"
      by (rule bit_word_eqI) (auto simp: bit_simps bit_u8_ge)
    then show ?thesis
      by (simp add: disjunctive_add_eq_or push_bit_eq_mult)
  qed
  then show "w16 (ucast b + ucast a * 256) = word_cat a b"
    unfolding sum by (intro bit_word_eqI) (auto simp: bit_simps bit_u8_ge bit_word_cat_iff)
  then show "w16 (256 * ucast a + ucast b) = word_cat a b"
    by (simp add: ac_simps)
qed

lemma word_rotl_cat: "word_rotl 8 (word_cat a b :: u16) = word_cat b (a :: u8)" for b :: u8
  by (rule bit_word_eqI) (auto simp: bit_word_rotl_iff bit_word_cat_iff mod_if)

lemma w16_tkip_sbox: "w16 (tkip_sbox (x mod 65536)) = S16 (w16 x)"
proof -
  have low: "(ucast (x mod 65536) :: u8) = ucast (w16 x)"
    unfolding mod_take_bit by (rule bit_word_eqI) (simp add: bit_simps)
  have high: "(ucast (drop_bit 8 (x mod 65536)) :: u8) = ucast (drop_bit 8 (w16 x))"
    unfolding mod_take_bit by (rule bit_word_eqI) (simp add: bit_simps)
  show ?thesis
    unfolding tkip_sbox_def Let_def unat_low_byte low high Tkip_Sbox_nth w16_bitwise(1) w16_bytes
      S16_def sbox_entry_def word_rotl_cat ..
qed

lemma w16_rotr1: "w16 (rotr1 a) = word_rotr 1 (w16 a)"
proof -
  have odd: "a AND 0x01 = 0x01 \<longleftrightarrow> bit a 0"
    by (simp add: and_one_eq bit_0 odd_iff_mod_2_eq_one)
  define h m :: u32 where "h = 0x8000" and "m = 0x7fff"
  have top: "bit h n \<longleftrightarrow> n = 15" for n
    using bit_exp_iff [of 15 n, where 'a = u32] by (auto simp: h_def)
  have low: "bit m n \<longleftrightarrow> n < 15" for n
    using bit_mask_iff [of 15 n, where 'a = u32] by (auto simp: m_def mask_eq_exp_minus_1)
  have "Suc n mod 16 = (if n = 15 then 0 else Suc n)" if "n < 16" for n
    using that by auto
  then show ?thesis
    unfolding rotr1_def Let_def w16_bitwise(2) odd h_def [symmetric] m_def [symmetric]
    by (intro bit_word_eqI) (auto simp: bit_word_rotr_iff bit_simps top low)
qed

lemma w16_key_word: "w16 (key_word key (2 * n)) = TK16 key n"
  unfolding key_word_def TK16_def Mk16_def w16_bytes by simp

text \<open>A computation that is bound by \<open>let\<close> is simulated step by step along the truncation.\<close>

lemma Let_w16: "w16 x = y \<Longrightarrow> (\<And>x y. w16 x = y \<Longrightarrow> P (f x) (g y)) \<Longrightarrow> P (Let x f) (Let y g)"
  unfolding Let_def by blast

lemmas w16_simps = w16_bitwise w16_tkip_sbox w16_rotr1

lemma byte_w16:
  "(ucast (x mod 256) :: u8) = ucast (w16 x)" "(ucast (drop_bit 8 x mod 256) :: u8) = ucast (drop_bit 8 (w16 x))"
  "(ucast (drop_bit 1 x mod 256) :: u8) = ucast (drop_bit 1 (w16 x))"
  unfolding mod_take_bit by (rule bit_word_eqI; simp add: bit_simps)+

section \<open>The mixing function\<close>

abbreviation w16_keys :: "u32 \<times> u32 \<times> u32 \<times> u32 \<times> u32 \<Rightarrow> u16 \<times> u16 \<times> u16 \<times> u16 \<times> u16" where
  "w16_keys p \<equiv> map_prod w16 (map_prod w16 (map_prod w16 (map_prod w16 w16))) p"

lemma w16_key_words:
  "w16 (key_word key (2 * k)) = TK16 key (0 + k)" "w16 (key_word key (4 + 2 * k)) = TK16 key (2 + k)"
  "w16 (key_word key (8 + 2 * k)) = TK16 key (4 + k)" "w16 (key_word key (12 + 2 * k)) = TK16 key (6 + k)"
proof -
  have "4 + 2 * k = 2 * (2 + k)" "8 + 2 * k = 2 * (4 + k)" "12 + 2 * k = 2 * (6 + k)"
    by simp_all
  then show "w16 (key_word key (2 * k)) = TK16 key (0 + k)" "w16 (key_word key (4 + 2 * k)) = TK16 key (2 + k)"
    "w16 (key_word key (8 + 2 * k)) = TK16 key (4 + k)" "w16 (key_word key (12 + 2 * k)) = TK16 key (6 + k)"
    by (simp_all only: w16_key_word add_0)
qed

lemma w16_key_words_const:
  "w16 (key_word key 0) = TK16 key 0" "w16 (key_word key 2) = TK16 key 1" "w16 (key_word key 4) = TK16 key 2"
  "w16 (key_word key 6) = TK16 key 3" "w16 (key_word key 8) = TK16 key 4" "w16 (key_word key 10) = TK16 key 5"
  "w16 (key_word key 12) = TK16 key 6" "w16 (key_word key 14) = TK16 key 7"
  using w16_key_word [of key 0] w16_key_word [of key 1] w16_key_word [of key 2] w16_key_word [of key 3]
    w16_key_word [of key 4] w16_key_word [of key 5] w16_key_word [of key 6] w16_key_word [of key 7]
  by simp_all

lemma w16_of_nat: "w16 (of_nat i) = of_nat i"
  by (rule word_uint_eqI) (simp add: unsigned_ucast_eq unsigned_of_nat take_bit_eq_mod of_nat_mod mod_mod_cancel)

lemma tkip_phase1_step_w16: "w16_keys (tkip_phase1_step key i p) = phase1_round key i (w16_keys p)"
proof -
  obtain p0 p1 p2 p3 p4 where p: "p = (p0, p1, p2, p3, p4)"
    by (cases p)
  show ?thesis
    unfolding tkip_phase1_step_def phase1_round_def p map_prod_simp prod.case Let_def [of "2 * (i mod 2)"]
      Let_def [of "i mod 2"]
    by (rule Let_w16 [where P = "\<lambda>a b. w16_keys a = b"],
        simp only: w16_simps w16_key_words w16_of_nat)+ simp
qed

lemma fold_phase1_w16:
  "w16_keys (fold (tkip_phase1_step key) is p) = fold (phase1_round key) is (w16_keys p)"
  by (induction "is" arbitrary: p) (simp_all add: tkip_phase1_step_w16)

lemma tsc2_bytes:
  "(ucast ((drop_bit 8 x mod 256 OR 0x20) AND 0x7f) :: u8) = (ucast (drop_bit 8 (w16 x)) OR 0x20) AND 0x7f"
proof -
  define h m :: u32 where "h = 0x20" and "m = 0x7f"
  have "ucast ((z OR h) AND m) = ((ucast z :: u8) OR ucast h) AND ucast m" for z :: u32
    by (rule bit_word_eqI) (auto simp: bit_simps)
  moreover have "ucast h = (0x20 :: u8)" "ucast m = (0x7f :: u8)"
    by (simp_all add: h_def m_def)
  ultimately show ?thesis
    unfolding h_def [symmetric] m_def [symmetric] by (simp only: byte_w16(2))
qed

lemma tkip_phase2_w16:
  "tkip_phase2 key p tsc2 = phase2 key (w16_keys p) (w16 tsc2)"
proof -
  obtain p0 p1 p2 p3 p4 where p: "p = (p0, p1, p2, p3, p4)"
    by (cases p)
  show ?thesis
    unfolding tkip_phase2_def phase2_def p map_prod_simp prod.case tsc2_bytes byte_w16(2,3)
      Let_def [of "ucast (drop_bit 8 (w16 tsc2))"]
    unfolding byte_w16(1)
    by (rule Let_w16 [where P = "(=)"], simp only: w16_simps w16_key_words_const)+
      (simp add: w16_simps w16_key_words_const)
qed

text \<open>
  (C18) \<open>RTMPTkipMixKey\<close> computes the TKIP key mixing of IEEE 802.11 for every key, transmitter address
  and sequence counter: the RC4 key is the one of phase 2, and the phase 1 key is returned. The
  S-box is the one derived from AES, although the code reduces its 32 bit sums to 16 bits only in
  some places.
\<close>

theorem RTMPTkipMixKey_802_11:
  "fst (RTMPTkipMixKey key ta pnl pnh) = phase2 key (phase1 key ta (ucast pnh)) (ucast pnl)
   \<and> w16_keys (snd (RTMPTkipMixKey key ta pnl pnh)) = phase1 key ta (ucast pnh)"
proof -
  have c: "w16 (ucast (pnh mod 65536)) = ucast (ucast pnh :: u32)"
      "w16 (ucast (drop_bit 16 pnh mod 65536)) = ucast (drop_bit 16 (ucast pnh :: u32))"
      "w16 (ucast (pnl mod 65536)) = ucast pnl"
    unfolding mod_take_bit by (rule bit_word_eqI; auto simp: bit_simps)+
  show ?thesis
    unfolding RTMPTkipMixKey_def Let_def fst_conv snd_conv tkip_phase2_w16 fold_phase1_w16
      map_prod_simp c w16_bytes phase1_def Mk16_def
    by simp
qed

end
