(* ===== verification/Tkip.thy ===== *)
theory Tkip
  imports Tkip_Mic Tkip_Mix
begin

text \<open>
  TKIP decryption (\<^verbatim>\<open>RTMPSoftDecryptTKIP\<close>) and the RC4 protection of EAPoL key data
  (\<^verbatim>\<open>TKIP_GTK_KEY_WRAP\<close>) of \<^verbatim>\<open>common/cmm_tkip.c\<close>, with the MIC failure report
  \<^verbatim>\<open>RTMPReportMicError\<close> of \<^verbatim>\<open>sta/wpa.c\<close> that the decryption calls. Messages, timers and
  events that leave the component are recorded in the state, in the order in which they are issued.
\<close>

section \<open>MIC failure reports\<close>

datatype mic_event =
  CounterMeasuresEvent
| MicFailureReport u8
| WpaDisassocTimer nat
| SupplicantMicFailure bytes bool

record mic_state =
  MicErrCnt :: u64
  LastMicErrorTime :: u64
  StaReplayCounter :: bytes
  WpaSupplicantUP :: bool
  mic_events :: "mic_event list"

abbreviation (input) PAIRWISE_KEY :: u8 where "PAIRWISE_KEY \<equiv> 1"

definition mic_emit :: "mic_event \<Rightarrow> mic_state \<Rightarrow> mic_state" where
  "mic_emit e s = s\<lparr>mic_events := mic_events s @ [e]\<rparr>"

text \<open>\<^verbatim>\<open>RTMPReportMicError\<close> at the time \<open>Now\<close>; \<open>hz\<close> is \<^verbatim>\<open>OS_HZ\<close>, the tick rate of the kernel.\<close>

definition RTMPReportMicError :: "u64 \<Rightarrow> u64 \<Rightarrow> cipher_key \<Rightarrow> mic_state \<Rightarrow> mic_state" where
  "RTMPReportMicError hz Now pWpaKey s =
     (let unicastKey = (if ckType pWpaKey = PAIRWISE_KEY then 1 else 0);
          s = (if MicErrCnt s = 0 then
                 s\<lparr>MicErrCnt := MicErrCnt s + 1, LastMicErrorTime := Now, StaReplayCounter := replicate 8 0\<rparr>
               else if MicErrCnt s = 1 then
                 (if LastMicErrorTime s + 60 * hz < Now then s\<lparr>LastMicErrorTime := Now\<rparr>
                  else (mic_emit CounterMeasuresEvent s)
                         \<lparr>LastMicErrorTime := Now, MicErrCnt := MicErrCnt s + 1\<rparr>)
               else s);
          s = mic_emit (MicFailureReport unicastKey) s
      in if MicErrCnt s = 2 then mic_emit (WpaDisassocTimer 100) s else s)"

section \<open>Decryption\<close>

datatype ndis_status = NDIS_STATUS_SUCCESS | NDIS_STATUS_FAILURE | NDIS_STATUS_MICERROR

abbreviation (input) LEN_TKIP_IV_HDR :: nat where "LEN_TKIP_IV_HDR \<equiv> 8"
abbreviation (input) LEN_TKIP_MIC :: nat where "LEN_TKIP_MIC \<equiv> 8"

text \<open>The addresses of the 802.11 header: \<^verbatim>\<open>Addr1\<close> to \<^verbatim>\<open>Addr3\<close>, and \<^verbatim>\<open>Octet\<close> behind the sequence number.\<close>

definition tkip_addresses :: "bytes \<Rightarrow> bytes \<times> bytes \<times> bytes" where
  "tkip_addresses pHdr =
     (let from_ds = drop_bit 1 (pHdr ! 1 AND 0x2);
          to_ds = pHdr ! 1 AND 0x1;
          Addr1 = read_at 4 6 pHdr; Addr2 = read_at 10 6 pHdr; Addr3 = read_at 16 6 pHdr;
          Octet = read_at 24 6 pHdr
      in if to_ds = 0 \<and> from_ds = 1 then (Addr2, Addr1, Addr3)
         else if to_ds = 0 \<and> from_ds = 0 then (Addr2, Addr1, Addr2)
         else if to_ds = 1 \<and> from_ds = 0 then (Addr2, Addr3, Addr2)
         else (Addr2, Addr3, Octet))"

text \<open>
  \<^verbatim>\<open>RTMPSoftDecryptTKIP\<close>. The results are the status, the memory, \<^verbatim>\<open>*DataByteCnt\<close>, the MIC state
  \<^verbatim>\<open>PrivateInfo.Tx\<close> and the state of the failure reports. \<^verbatim>\<open>PULONG\<close> makes the code
  read eight bytes of the extended IV. The 32 bit lengths wrap around; a read outside of the memory is \<open>None\<close>.
\<close>

definition RTMPSoftDecryptTKIP ::
  "u64 \<Rightarrow> u64 \<Rightarrow> bytes \<Rightarrow> u8 \<Rightarrow> cipher_key \<Rightarrow> bytes \<Rightarrow> nat \<Rightarrow> u16 \<Rightarrow> tkip_key_info \<Rightarrow> mic_state
     \<Rightarrow> (ndis_status \<times> bytes \<times> u16 \<times> tkip_key_info \<times> mic_state) option" where
  "RTMPSoftDecryptTKIP hz Now pHdr UserPriority pKey mem pData DataByteCnt Tx sta =
     (if ckKeyLen pKey = 0 then Some (NDIS_STATUS_FAILURE, mem, DataByteCnt, Tx, sta)
      else if length pHdr < 24 \<or> (pHdr ! 1 AND 0x3 = 0x3 \<and> length pHdr < 30) \<or> length mem < pData + 12 then None
      else
        let (TA, DA, SA) = tkip_addresses pHdr;
            pnl = push_bit 8 (ucast (mem ! pData)) OR ucast (mem ! (pData + 2)) :: u64;
            pnh = ucast (load_le32 (read_at (pData + 4) 4 mem)) :: u64;
            RC4Key = fst (RTMPTkipMixKey (ckKey pKey) TA pnl pnh);
            ciphertext_ptr = pData + LEN_TKIP_IV_HDR;
            ciphertext_len = (ucast DataByteCnt :: u32) - of_nat LEN_TKIP_IV_HDR
        in if unat DataByteCnt \<le> LEN_TKIP_IV_HDR then Some (NDIS_STATUS_FAILURE, mem, DataByteCnt, Tx, sta)
           else if length mem < ciphertext_ptr + unat ciphertext_len then None
           else case ARC4_INIT RC4Key 16 of None \<Rightarrow> None | Some ARC4_CTX \<Rightarrow>
             let mem = snd (ARC4_Compute ARC4_CTX mem ciphertext_ptr (unat ciphertext_len) pData);
                 plaintext_len = ciphertext_len - of_nat LEN_ICV
             in if length mem < pData + unat plaintext_len + LEN_ICV then None
                else
                  let trailfcs = load_le32 (read_at (pData + unat plaintext_len) LEN_ICV mem);
                      crc32 = RTMP_CALC_FCS32 PPPINITFCS32 (drop pData mem) (unat plaintext_len) XOR 0xffffffff
                  in if crc32 \<noteq> trailfcs then Some (NDIS_STATUS_FAILURE, mem, DataByteCnt, Tx, sta)
                     else
                       let plaintext_len = plaintext_len - of_nat LEN_TKIP_MIC
                       in if length mem < pData + unat plaintext_len + LEN_TKIP_MIC then None
                          else
                            let TrailMIC = read_at (pData + unat plaintext_len) LEN_TKIP_MIC mem;
                                Tx = RTMPInitMICEngine Tx DA SA UserPriority (ckRxMic pKey);
                                Tx = RTMPTkipAppend Tx (drop pData mem) (unat plaintext_len)
                            in case RTMPTkipGetMIC Tx of None \<Rightarrow> None | Some Tx \<Rightarrow>
                                 if tkMIC Tx \<noteq> TrailMIC then
                                   Some (NDIS_STATUS_MICERROR, mem, DataByteCnt, Tx,
                                     if WpaSupplicantUP sta
                                     then mic_emit (SupplicantMicFailure (read_at 10 6 pHdr) (ckType pKey = PAIRWISE_KEY)) sta
                                     else RTMPReportMicError hz Now pKey sta)
                                 else Some (NDIS_STATUS_SUCCESS, mem, ucast plaintext_len, Tx, sta))"

section \<open>Protection of EAPoL key data\<close>

text \<open>\<^verbatim>\<open>TKIP_GTK_KEY_WRAP\<close>: the memory after the call; nothing is written when no context can be allocated.\<close>

definition TKIP_GTK_KEY_WRAP :: "bool \<Rightarrow> bytes \<Rightarrow> bytes \<Rightarrow> bytes \<Rightarrow> nat \<Rightarrow> nat \<Rightarrow> nat \<Rightarrow> bytes option" where
  "TKIP_GTK_KEY_WRAP al key iv mem input_text input_len output_text =
     (if \<not> al then Some mem
      else
        let ekey = take 16 iv @ take 16 key
        in case ARC4_INIT ekey 32 of None \<Rightarrow> None | Some ctx \<Rightarrow>
             Some (snd (ARC4_Compute (ARC4_Discard_KeyLength ctx 256) mem input_text input_len output_text)))"

definition TKIP_GTK_KEY_UNWRAP :: "bool \<Rightarrow> bytes \<Rightarrow> bytes \<Rightarrow> bytes \<Rightarrow> nat \<Rightarrow> nat \<Rightarrow> nat \<Rightarrow> bytes option" where
  "TKIP_GTK_KEY_UNWRAP al key iv mem input_text input_len output_text =
     TKIP_GTK_KEY_WRAP al key iv mem input_text input_len output_text"

section \<open>Functional behaviour of the decryption\<close>

text \<open>The RC4 context for a key, a transmitter address and the 8 byte IV header of a frame.\<close>

definition tkip_ctx :: "bytes \<Rightarrow> bytes \<Rightarrow> bytes \<Rightarrow> arc4_ctx" where
  "tkip_ctx key ta iv =
     the (ARC4_INIT (phase2 key (phase1 key ta (load_le32 (read_at 4 4 iv))) (word_cat (iv ! 0) (iv ! 2))) 16)"

lemma tkip_ctx_mix:
  assumes "pData + 8 \<le> length mem"
  shows "ARC4_INIT (fst (RTMPTkipMixKey key ta
        (push_bit 8 (ucast (mem ! pData)) OR ucast (mem ! (pData + 2))) (ucast (load_le32 (read_at (pData + 4) 4 mem))))) 16
      = Some (tkip_ctx key ta (read_at pData 8 mem))"
proof -
  have lo: "(ucast (push_bit 8 (ucast a) OR ucast b :: u64) :: u16) = word_cat a b" for a b :: u8
    by (rule bit_word_eqI) (auto simp: bit_simps bit_word_cat_iff bit_u8_ge)
  have hi: "ucast (ucast x :: u64) = x" for x :: u32
    by (rule bit_word_eqI) (simp add: bit_simps)
  have iv: "read_at 4 4 (read_at pData 8 mem) = read_at (pData + 4) 4 mem"
    by (simp add: read_at_def drop_take add.commute)
  have b: "read_at pData 8 mem ! 0 = mem ! pData" "read_at pData 8 mem ! 2 = mem ! (pData + 2)"
    using assms by (simp_all add: nth_read_at)
  show ?thesis
    unfolding tkip_ctx_def RTMPTkipMixKey_802_11 [THEN conjunct1] lo hi iv b by (simp add: ARC4_INIT_def)
qed

lemma unat_u16_minus:
  "n \<le> unat (d :: u16) \<Longrightarrow> n < 2 ^ 16 \<Longrightarrow> unat ((ucast d :: u32) - of_nat n) = unat d - n"
proof -
  have "unat d < 2 ^ 16"
    using unsigned_less [of d] by simp
  then have "unat (ucast d :: u32) = unat d"
    by (simp add: unsigned_ucast_eq take_bit_nat_eq_self)
  then show "n \<le> unat d \<Longrightarrow> n < 2 ^ 16 \<Longrightarrow> unat ((ucast d :: u32) - of_nat n) = unat d - n"
    by (simp add: unat_sub word_le_nat_alt unat_of_nat)
qed

text \<open>What a decrypted text \<open>X\<close> has to satisfy behind the ICV check: its MIC is the Michael code of the frame.\<close>

definition tkip_mic_ok :: "cipher_key \<Rightarrow> bytes \<Rightarrow> bytes \<Rightarrow> u8 \<Rightarrow> bytes \<Rightarrow> bool" where
  "tkip_mic_ok k da sa prio X \<longleftrightarrow>
     michael (ckRxMic k) (mic_message da sa prio (take (length X - 12) X)) = read_at (length X - 12) 8 X"

lemma mic_check:
  assumes "length X = n + 12" and "off + n + 12 \<le> length mem"
  obtains Tx' where "RTMPTkipGetMIC (RTMPTkipAppend (RTMPInitMICEngine Tx da sa prio (ckRxMic k))
      (drop off (write_at mem off X)) n) = Some Tx'"
    and "tkMIC Tx' = read_at (off + n) 8 (write_at mem off X) \<longleftrightarrow> tkip_mic_ok k da sa prio X"
proof -
  define m where "m = write_at mem off X"
  have rd: "read_at off (n + 12) m = X"
    using assms by (simp add: m_def)
  have plain: "take n (drop off m) = take n X"
    unfolding rd [symmetric] read_at_def by (simp add: min_def)
  have mic: "read_at (off + n) 8 m = read_at n 8 X"
    unfolding rd [symmetric] read_at_def by (simp add: drop_take add.commute)
  obtain Tx' where "RTMPTkipGetMIC (foldl RTMPTkipAppendByte (RTMPInitMICEngine Tx da sa prio (ckRxMic k)) (take n X)) = Some Tx'"
      and "tkMIC Tx' = michael (ckRxMic k) (mic_message da sa prio (take n X))"
    by (rule mic_engine_michael)
  then show thesis
    using that [of Tx'] unfolding m_def [symmetric] mic RTMPTkipAppend_def plain tkip_mic_ok_def assms(1) by simp
qed

lemma RTMPSoftDecryptTKIP_ok:
  assumes key: "ckKeyLen k \<noteq> 0" and hdr: "30 \<le> length pHdr"
    and d: "20 \<le> unat d" "pData + unat d \<le> length mem"
    and addr: "tkip_addresses pHdr = (ta, da, sa)"
    and X: "X = xor_bytes (read_at (pData + 8) (unat d - 8) mem)
      (keystream arc4_next (tkip_ctx (ckKey k) ta (read_at pData 8 mem)) (unat d - 8))"
  obtains Tx' where "RTMPSoftDecryptTKIP hz now pHdr prio k mem pData d Tx sta = Some
    (if \<not> icv_ok X then (NDIS_STATUS_FAILURE, write_at mem pData X, d, Tx, sta)
     else if \<not> tkip_mic_ok k da sa prio X then
       (NDIS_STATUS_MICERROR, write_at mem pData X, d, Tx',
         if WpaSupplicantUP sta then mic_emit (SupplicantMicFailure (read_at 10 6 pHdr) (ckType k = 1)) sta
         else RTMPReportMicError hz now k sta)
     else (NDIS_STATUS_SUCCESS, write_at mem pData X, d - 20, Tx', sta))"
proof -
  let ?d = "ucast d :: u32"
  have n: "unat (?d - 8) = unat d - 8" "unat (?d - 8 - 4) = unat d - 12" "unat (?d - 8 - 4 - 8) = unat d - 20"
    using unat_u16_minus [of 8 d] unat_u16_minus [of 12 d] unat_u16_minus [of 20 d] d(1) by simp_all
  have "unat d < 2 ^ 16"
    using unsigned_less [of d] by simp
  then have back_d: "ucast (?d - 8 - 4 - 8) = d - 20"
    using n(3) d(1) unat_sub [of 20 d]
    by (simp add: word_unat_eq_iff unsigned_ucast_eq word_le_nat_alt take_bit_nat_eq_self)
  have lenX: "length X = (unat d - 20) + 12" "length X = (unat d - 12) + 4"
    using d unfolding X by simp_all
  define m where "m = write_at mem pData X"
  have m: "snd (ARC4_Compute (tkip_ctx (ckKey k) ta (read_at pData 8 mem)) mem (pData + 8) (unat d - 8) pData) = m"
    using d unfolding X m_def by (simp add: arc4.compute_write_at)
  have lenm: "length m = length mem"
    using d lenX by (simp add: m_def)
  have icv: "RTMP_CALC_FCS32 PPPINITFCS32 (drop pData m) (unat d - 12) XOR 0xffffffff
      = load_le32 (read_at (pData + (unat d - 12)) 4 m) \<longleftrightarrow> icv_ok X"
    using icv_check [OF lenX(2), of pData mem] d unfolding m_def by simp
  have "pData + (unat d - 20) + 12 \<le> length mem"
    using d by linarith
  then obtain Tx' where mic: "RTMPTkipGetMIC (RTMPTkipAppend (RTMPInitMICEngine Tx da sa prio (ckRxMic k))
        (drop pData m) (unat d - 20)) = Some Tx'"
      "tkMIC Tx' = read_at (pData + (unat d - 20)) 8 m \<longleftrightarrow> tkip_mic_ok k da sa prio X"
    unfolding m_def by (rule mic_check [OF lenX(1)])
  have b: "\<not> length pHdr < 24" "\<not> length pHdr < 30" "\<not> length mem < pData + 12" "\<not> unat d \<le> 8"
      "\<not> length mem < pData + 8 + (unat d - 8)" "\<not> length m < pData + (unat d - 12) + 4"
      "\<not> length m < pData + (unat d - 20) + 8" "pData + 8 \<le> length mem"
    using hdr d lenm by linarith+
  have "RTMPSoftDecryptTKIP hz now pHdr prio k mem pData d Tx sta = Some
    (if \<not> icv_ok X then (NDIS_STATUS_FAILURE, m, d, Tx, sta)
     else if \<not> tkip_mic_ok k da sa prio X then
       (NDIS_STATUS_MICERROR, m, d, Tx',
         if WpaSupplicantUP sta then mic_emit (SupplicantMicFailure (read_at 10 6 pHdr) (ckType k = 1)) sta
         else RTMPReportMicError hz now k sta)
     else (NDIS_STATUS_SUCCESS, m, d - 20, Tx', sta))"
    unfolding RTMPSoftDecryptTKIP_def Let_def addr prod.case of_nat_numeral tkip_ctx_mix [OF b(8)] option.case n m
      icv mic back_d
    by (simp only: key b simp_thms if_False if_True not_not option.case mic(2) HOL.if_cancel cong: if_cong) simp
  then show thesis
    using that unfolding m_def by blast
qed

section \<open>Properties\<close>

text \<open>TKIP encapsulation of IEEE 802.11: the IV header, then data, MIC and ICV under the RC4 key stream.\<close>

definition tkip_encapsulate :: "cipher_key \<Rightarrow> bytes \<Rightarrow> u8 \<Rightarrow> bytes \<Rightarrow> bytes \<Rightarrow> bytes" where
  "tkip_encapsulate k pHdr prio iv P =
     (case tkip_addresses pHdr of (ta, da, sa) \<Rightarrow>
      let M = P @ michael (ckRxMic k) (mic_message da sa prio P);
          X = M @ store_le32 (crc32 M)
      in iv @ xor_bytes X (keystream arc4_next (tkip_ctx (ckKey k) ta iv) (length X)))"


definition tkip_header_example :: bytes where
  "tkip_header_example = [0x08, 0x42] @ replicate 28 7"

definition mic_state_example :: mic_state where
  "mic_state_example = \<lparr>MicErrCnt = 0, LastMicErrorTime = 0, StaReplayCounter = replicate 8 0,
     WpaSupplicantUP = False, mic_events = []\<rparr>"


section \<open>Countermeasures\<close>

text \<open>The times of a sequence of MIC failures contain two consecutive ones at most 60 seconds apart.\<close>

fun close_errors :: "u64 \<Rightarrow> u64 \<Rightarrow> u64 list \<Rightarrow> bool" where
  "close_errors hz t [] = False"
| "close_errors hz t (u # us) = (u \<le> t + 60 * hz \<or> close_errors hz u us)"

definition counter_measures :: "mic_state \<Rightarrow> nat" where
  "counter_measures s = length (filter (\<lambda>e. e = CounterMeasuresEvent) (mic_events s))"

lemma counter_measures_emit:
  "counter_measures (mic_emit e s) = counter_measures s + (if e = CounterMeasuresEvent then 1 else 0)"
  by (simp add: counter_measures_def mic_emit_def)

lemma mic_emit_simps [simp]:
  "MicErrCnt (mic_emit e s) = MicErrCnt s" "LastMicErrorTime (mic_emit e s) = LastMicErrorTime s"
  by (simp_all add: mic_emit_def)

lemma counter_measures_update [simp]:
  "counter_measures (s\<lparr>MicErrCnt := a\<rparr>) = counter_measures s"
  "counter_measures (s\<lparr>LastMicErrorTime := b\<rparr>) = counter_measures s"
  "counter_measures (s\<lparr>StaReplayCounter := c\<rparr>) = counter_measures s"
  by (simp_all add: counter_measures_def)

lemma RTMPReportMicError_0:
  assumes "MicErrCnt s = 0"
  shows "MicErrCnt (RTMPReportMicError hz t k s) = 1" "LastMicErrorTime (RTMPReportMicError hz t k s) = t"
    "counter_measures (RTMPReportMicError hz t k s) = counter_measures s"
  using assms by (simp_all add: RTMPReportMicError_def Let_def counter_measures_emit)

lemma RTMPReportMicError_1:
  assumes "MicErrCnt s = 1"
  shows "MicErrCnt (RTMPReportMicError hz t k s) = (if t \<le> LastMicErrorTime s + 60 * hz then 2 else 1)"
    "LastMicErrorTime (RTMPReportMicError hz t k s) = t"
    "counter_measures (RTMPReportMicError hz t k s)
       = counter_measures s + (if t \<le> LastMicErrorTime s + 60 * hz then 1 else 0)"
  using assms by (simp_all add: RTMPReportMicError_def Let_def counter_measures_emit not_le)

lemma RTMPReportMicError_2:
  assumes "MicErrCnt s = 2"
  shows "MicErrCnt (RTMPReportMicError hz t k s) = 2"
    "counter_measures (RTMPReportMicError hz t k s) = counter_measures s"
  using assms by (simp_all add: RTMPReportMicError_def Let_def counter_measures_emit)

lemma mic_errors_2:
  "MicErrCnt s = 2 \<Longrightarrow> MicErrCnt (fold (\<lambda>t. RTMPReportMicError hz t k) ts s) = 2
     \<and> counter_measures (fold (\<lambda>t. RTMPReportMicError hz t k) ts s) = counter_measures s"
  by (induction ts arbitrary: s) (simp_all add: RTMPReportMicError_2)

lemma mic_errors_1:
  assumes "MicErrCnt s = 1"
  shows "MicErrCnt (fold (\<lambda>t. RTMPReportMicError hz t k) ts s)
      = (if close_errors hz (LastMicErrorTime s) ts then 2 else 1)
    \<and> counter_measures (fold (\<lambda>t. RTMPReportMicError hz t k) ts s)
      = counter_measures s + (if close_errors hz (LastMicErrorTime s) ts then 1 else 0)"
  using assms
proof (induction ts arbitrary: s)
  case (Cons t ts)
  note step = RTMPReportMicError_1 [OF Cons.prems, of hz t k]
  show ?case
  proof (cases "t \<le> LastMicErrorTime s + 60 * hz")
    case True
    then show ?thesis
      using step mic_errors_2 [of "RTMPReportMicError hz t k s" hz k ts] by simp
  next
    case False
    then show ?thesis
      using step Cons.IH [of "RTMPReportMicError hz t k s"] by simp
  qed
qed simp

text \<open>
  (C31) MIC countermeasures: over any sequence of MIC failures after an association, the failure
  count is never more than two, it is two exactly when two consecutive failures were at most 60 seconds apart, and the
  countermeasure event is then raised exactly once.
\<close>

theorem RTMPReportMicError_countermeasures:
  assumes "MicErrCnt s = 0" and "counter_measures s = 0"
  shows "MicErrCnt (fold (\<lambda>t. RTMPReportMicError hz t k) (t # ts) s) = (if close_errors hz t ts then 2 else 1)
    \<and> counter_measures (fold (\<lambda>t. RTMPReportMicError hz t k) (t # ts) s) = (if close_errors hz t ts then 1 else 0)"
  using mic_errors_1 [of "RTMPReportMicError hz t k s" hz k ts] RTMPReportMicError_0 [OF assms(1), of hz t k] assms(2)
  by simp

theorem RTMPReportMicError_countermeasures_witness:
  "MicErrCnt (fold (\<lambda>t. RTMPReportMicError 100 t wep_key_example) [1000, 9000, 10000] mic_state_example) = 2
   \<and> counter_measures (fold (\<lambda>t. RTMPReportMicError 100 t wep_key_example) [1000, 9000, 10000] mic_state_example) = 1"
  using RTMPReportMicError_countermeasures [of mic_state_example 100 wep_key_example 1000 "[9000, 10000]"]
  by (simp add: mic_state_example_def counter_measures_def)

section \<open>EAPoL key data\<close>

lemma gtk_key_unwrap_wrap:
  assumes "src + n \<le> length mem" and "dst + n \<le> length mem" and "src = dst \<or> src + n \<le> dst \<or> dst + n \<le> src"
  shows "\<exists>mem'. TKIP_GTK_KEY_WRAP True key iv mem src n dst = Some mem'
    \<and> length mem' = length mem
    \<and> TKIP_GTK_KEY_UNWRAP True key iv mem' dst n dst = Some (write_at mem dst (read_at src n mem))
    \<and> TKIP_GTK_KEY_UNWRAP False key iv mem' dst n dst = Some mem'"
proof -
  define c where "c = ARC4_Discard_KeyLength (the (ARC4_INIT (take 16 iv @ take 16 key) 32)) 256"
  define ks where "ks = keystream arc4_next c n"
  have wrap: "TKIP_GTK_KEY_WRAP True key iv m s n t = Some (snd (ARC4_Compute c m s n t))" for m s t
    by (simp add: TKIP_GTK_KEY_WRAP_def c_def ARC4_INIT_def)
  define mem' where "mem' = write_at mem dst (xor_bytes (read_at src n mem) ks)"
  have m: "snd (ARC4_Compute c mem src n dst) = mem'"
    using assms by (auto simp: arc4.compute_write_at mem'_def ks_def)
  have len: "length (xor_bytes (read_at src n mem) ks) = n" "length mem' = length mem"
    using assms by (simp_all add: mem'_def ks_def)
  have "read_at dst n mem' = xor_bytes (read_at src n mem) ks"
    using assms(2) len(1) by (simp add: mem'_def)
  moreover have "length (read_at src n mem) \<le> length ks"
    using assms(1) by (simp add: ks_def)
  ultimately have "xor_bytes (read_at dst n mem') ks = read_at src n mem"
    by simp
  then have "snd (ARC4_Compute c mem' dst n dst) = write_at mem' dst (read_at src n mem)"
    using assms(2) len(2) by (simp add: arc4.compute_write_at ks_def)
  also have "\<dots> = write_at mem dst (read_at src n mem)"
    using assms(1,2) len(1) by (simp add: mem'_def)
  finally show ?thesis
    using wrap m len(2) by (simp add: TKIP_GTK_KEY_UNWRAP_def) (simp add: TKIP_GTK_KEY_WRAP_def)
qed

text \<open>
  The RC4 protection of EAPoL key data is undone by \<open>TKIP_GTK_KEY_UNWRAP\<close> with the same KEK
  and IV, for every length, also when it is done in place or between buffers that do not overlap; when the
  context cannot be allocated the output buffer is left as it was and the call still returns.
\<close>

theorem TKIP_GTK_KEY_UNWRAP_WRAP:
  assumes "src + n \<le> length mem" and "dst + n \<le> length mem" and "src = dst \<or> src + n \<le> dst \<or> dst + n \<le> src"
  shows "\<exists>mem'. TKIP_GTK_KEY_WRAP True key iv mem src n dst = Some mem'
    \<and> length mem' = length mem
    \<and> TKIP_GTK_KEY_UNWRAP True key iv mem' dst n dst = Some (write_at mem dst (read_at src n mem))
    \<and> TKIP_GTK_KEY_UNWRAP False key iv mem' dst n dst = Some mem'"
  by (rule gtk_key_unwrap_wrap [OF assms])

theorem TKIP_GTK_KEY_UNWRAP_WRAP_witness:
  "\<exists>mem'. TKIP_GTK_KEY_WRAP True (replicate 16 1) (replicate 16 2) [1, 2, 3, 4, 5, 6] 0 3 3 = Some mem'
    \<and> length mem' = length [1 :: u8, 2, 3, 4, 5, 6]
    \<and> TKIP_GTK_KEY_UNWRAP True (replicate 16 1) (replicate 16 2) mem' 3 3 3 = Some [1, 2, 3, 1, 2, 3]
    \<and> TKIP_GTK_KEY_UNWRAP False (replicate 16 1) (replicate 16 2) mem' 3 3 3 = Some mem'"
  using TKIP_GTK_KEY_UNWRAP_WRAP [of 0 3 "[1, 2, 3, 4, 5, 6]" 3 "replicate 16 1" "replicate 16 2"]
  by (simp add: write_at_def)

end
