(* ===== verification/Eapol.thy ===== *)
theory Eapol
  imports Wpa_Keys Mac_Entry Aes_Wrap Aes_Cmac Tkip
begin

text \<open>
  The EAPOL-Key frames of the WPA handshakes (\<^verbatim>\<open>common/cmm_wpa.c\<close>, \<^verbatim>\<open>include/dot11i_wpa.h\<close>): their layout, their construction
  with the protection of the key data and the MIC, the checks and the parsing of a received frame, and the installation of the
  pairwise and of the group key. The definitions are those of a station. Arrays keep their sizes; an access outside of an array or
  through a null pointer is the result \<open>None\<close>. Effects on the hardware and on other parts of the driver are the events of
  \<open>waEvents\<close>. The main result composes the two directions: what \<open>ConstructEapolMsg\<close> builds, \<open>PeerWpaMessageSanity\<close> accepts, and the
  group key arrives.
\<close>

section \<open>The frame\<close>

record key_info =
  kiKeyMic :: bool
  kiSecure :: bool
  kiError :: bool
  kiRequest :: bool
  kiEKD_DL :: bool
  kiRsvd :: u8
  kiKeyDescVer :: u8
  kiKeyType :: bool
  kiKeyIndex :: u8
  kiInstall :: bool
  kiKeyAck :: bool

text \<open>The two bytes of the bit fields in memory.\<close>

definition key_info_bytes :: "key_info \<Rightarrow> bytes" where
  "key_info_bytes ki =
     [of_bool (kiKeyMic ki) OR push_bit 1 (of_bool (kiSecure ki)) OR push_bit 2 (of_bool (kiError ki))
        OR push_bit 3 (of_bool (kiRequest ki)) OR push_bit 4 (of_bool (kiEKD_DL ki)) OR push_bit 5 (kiRsvd ki),
      kiKeyDescVer ki OR push_bit 3 (of_bool (kiKeyType ki)) OR push_bit 4 (kiKeyIndex ki)
        OR push_bit 6 (of_bool (kiInstall ki)) OR push_bit 7 (of_bool (kiKeyAck ki))]"

definition key_info_of :: "u8 \<Rightarrow> u8 \<Rightarrow> key_info" where
  "key_info_of b0 b1 =
     \<lparr>kiKeyMic = bit b0 0, kiSecure = bit b0 1, kiError = bit b0 2, kiRequest = bit b0 3, kiEKD_DL = bit b0 4,
      kiRsvd = drop_bit 5 b0, kiKeyDescVer = b1 AND 7, kiKeyType = bit b1 3, kiKeyIndex = drop_bit 4 b1 AND 3,
      kiInstall = bit b1 6, kiKeyAck = bit b1 7\<rparr>"

text \<open>\<^verbatim>\<open>EAPOL_PACKET\<close> with its \<^verbatim>\<open>KEY_DESCRIPTER\<close>; \<open>epKeyData\<close> is the rest of the buffer that holds the frame.\<close>

record eapol_packet =
  epProVer :: u8
  epProType :: u8
  epBody_Len :: bytes
  epType :: u8
  epKeyInfo :: key_info
  epKeyLength :: bytes
  epReplayCounter :: bytes
  epKeyNonce :: bytes
  epKeyIv :: bytes
  epKeyRsc :: bytes
  epKeyId :: bytes
  epKeyMic :: bytes
  epKeyDataLen :: bytes
  epKeyData :: bytes

definition eapol_bytes :: "eapol_packet \<Rightarrow> bytes" where
  "eapol_bytes p = [epProVer p, epProType p] @ epBody_Len p @ [epType p] @ key_info_bytes (epKeyInfo p) @ epKeyLength p
     @ epReplayCounter p @ epKeyNonce p @ epKeyIv p @ epKeyRsc p @ epKeyId p @ epKeyMic p @ epKeyDataLen p @ epKeyData p"

definition eapol_of_bytes :: "bytes \<Rightarrow> eapol_packet" where
  "eapol_of_bytes b =
     \<lparr>epProVer = b ! 0, epProType = b ! 1, epBody_Len = read_at 2 2 b, epType = b ! 4, epKeyInfo = key_info_of (b ! 5) (b ! 6),
      epKeyLength = read_at 7 2 b, epReplayCounter = read_at 9 8 b, epKeyNonce = read_at 17 32 b, epKeyIv = read_at 49 16 b,
      epKeyRsc = read_at 65 8 b, epKeyId = read_at 73 8 b, epKeyMic = read_at 81 16 b, epKeyDataLen = read_at 97 2 b,
      epKeyData = drop 99 b\<rparr>"

text \<open>A buffer of \<^verbatim>\<open>TX_EAPOL_BUFFER\<close> bytes that has been zeroed.\<close>

definition zero_frame :: eapol_packet where
  "zero_frame =
     \<lparr>epProVer = 0, epProType = 0, epBody_Len = [0, 0], epType = 0,
      epKeyInfo = \<lparr>kiKeyMic = False, kiSecure = False, kiError = False, kiRequest = False, kiEKD_DL = False, kiRsvd = 0,
        kiKeyDescVer = 0, kiKeyType = False, kiKeyIndex = 0, kiInstall = False, kiKeyAck = False\<rparr>,
      epKeyLength = [0, 0], epReplayCounter = replicate 8 0, epKeyNonce = replicate 32 0, epKeyIv = replicate 16 0,
      epKeyRsc = replicate 8 0, epKeyId = replicate 8 0, epKeyMic = replicate 16 0, epKeyDataLen = [0, 0],
      epKeyData = replicate 1401 0\<rparr>"

text \<open>The macros for two byte lengths, most significant byte first.\<close>

definition SET_UINT16_TO_ARRARY :: "nat \<Rightarrow> bytes" where
  "SET_UINT16_TO_ARRARY n = [of_nat (n mod 65536 div 256), of_nat n]"

definition CONV_ARRARY_TO_UINT16 :: "bytes \<Rightarrow> nat" where
  "CONV_ARRARY_TO_UINT16 V = unat (V ! 0) * 256 + unat (V ! 1)"

definition INC_UINT16_TO_ARRARY :: "bytes \<Rightarrow> nat \<Rightarrow> bytes" where
  "INC_UINT16_TO_ARRARY V n = SET_UINT16_TO_ARRARY ((CONV_ARRARY_TO_UINT16 V + n) mod 65536)"

abbreviation (input) KEY_DESC_TKIP :: u8 where "KEY_DESC_TKIP \<equiv> 1"
abbreviation (input) KEY_DESC_AES :: u8 where "KEY_DESC_AES \<equiv> 2"
abbreviation (input) KEY_DESC_EXT :: u8 where "KEY_DESC_EXT \<equiv> 3"
abbreviation (input) EAPOL_PAIR_MSG_1 :: nat where "EAPOL_PAIR_MSG_1 \<equiv> 1"
abbreviation (input) EAPOL_PAIR_MSG_2 :: nat where "EAPOL_PAIR_MSG_2 \<equiv> 2"
abbreviation (input) EAPOL_PAIR_MSG_3 :: nat where "EAPOL_PAIR_MSG_3 \<equiv> 3"
abbreviation (input) EAPOL_PAIR_MSG_4 :: nat where "EAPOL_PAIR_MSG_4 \<equiv> 4"
abbreviation (input) EAPOL_GROUP_MSG_1 :: nat where "EAPOL_GROUP_MSG_1 \<equiv> 5"
abbreviation (input) EAPOL_GROUP_MSG_2 :: nat where "EAPOL_GROUP_MSG_2 \<equiv> 6"
abbreviation (input) LEN_PTK_KCK :: nat where "LEN_PTK_KCK \<equiv> 16"
abbreviation (input) LEN_TK :: nat where "LEN_TK \<equiv> 16"
abbreviation (input) LEN_TKIP_GTK :: nat where "LEN_TKIP_GTK \<equiv> 32"
abbreviation (input) WPA_KDE_TYPE :: u8 where "WPA_KDE_TYPE \<equiv> 0xdd"
abbreviation (input) KDE_GTK :: u8 where "KDE_GTK \<equiv> 1"
abbreviation (input) IE_WPA :: u8 where "IE_WPA \<equiv> 221"
abbreviation (input) IE_RSN :: u8 where "IE_RSN \<equiv> 48"
abbreviation (input) MAX_LEN_OF_RSNIE :: nat where "MAX_LEN_OF_RSNIE \<equiv> 255"
abbreviation (input) MAX_LEN_GTK :: nat where "MAX_LEN_GTK \<equiv> 32"
abbreviation (input) OUI_WPA2 :: bytes where "OUI_WPA2 \<equiv> [0x00, 0x0F, 0xAC]"

definition is_wpa2 :: "mac_entry \<Rightarrow> bool" where
  "is_wpa2 pEntry \<longleftrightarrow> mtAuthMode pEntry = Ndis802_11AuthModeWPA2 \<or> mtAuthMode pEntry = Ndis802_11AuthModeWPA2PSK"

definition ptk_kek :: "bytes \<Rightarrow> bytes" where
  "ptk_kek PTK = read_at LEN_PTK_KCK 16 PTK"

section \<open>Construction\<close>

text \<open>
  The computation of the MIC, shared by \<^verbatim>\<open>CalculateMIC\<close> and \<^verbatim>\<open>PeerWpaMessageSanity\<close>: for an unknown descriptor version the
  result is the zeroed array.
\<close>

definition eapol_mic :: "(nat \<Rightarrow> bool) \<Rightarrow> u8 \<Rightarrow> bytes \<Rightarrow> bytes \<Rightarrow> nat \<Rightarrow> bytes option" where
  "eapol_mic al KeyDescVer PTK buf len =
     (if KeyDescVer = KEY_DESC_AES then map_option (take 16) (RT_HMAC_SHA1 PTK (of_nat LEN_PTK_KCK) buf (of_nat len) 20)
      else if KeyDescVer = KEY_DESC_TKIP then RT_HMAC_MD5 PTK (of_nat LEN_PTK_KCK) buf (of_nat len) 16
      else if KeyDescVer = KEY_DESC_EXT then Some (fst (AES_CMAC al buf len PTK LEN_PTK_KCK (replicate 16 0) 16))
      else Some (replicate 16 0))"

text \<open>\<^verbatim>\<open>CalculateMIC\<close>: \<open>al 0\<close> is the allocation of the buffer of 512 bytes, the others those of \<^verbatim>\<open>AES_CMAC\<close>.\<close>

definition CalculateMIC :: "(nat \<Rightarrow> bool) \<Rightarrow> u8 \<Rightarrow> bytes \<Rightarrow> eapol_packet \<Rightarrow> eapol_packet option" where
  "CalculateMIC al KeyDescVer PTK pMsg =
     (if \<not> al 0 then Some pMsg
      else
        let FrameLen = CONV_ARRARY_TO_UINT16 (epBody_Len pMsg) + 4
        in if 512 < FrameLen \<or> length (eapol_bytes pMsg) < FrameLen then None
           else map_option (\<lambda>mic. pMsg\<lparr>epKeyMic := mic\<rparr>)
                  (eapol_mic (\<lambda>n. al (Suc n)) KeyDescVer PTK (take FrameLen (eapol_bytes pMsg)) FrameLen))"

text \<open>\<^verbatim>\<open>RTMPInsertRSNIE\<close>: the buffer and the length after the call; the element is written at the offset \<open>FrameLen\<close>.\<close>

definition RTMPInsertRSNIE :: "bytes \<Rightarrow> nat \<Rightarrow> bytes \<Rightarrow> u8 \<Rightarrow> bytes \<Rightarrow> u8 \<Rightarrow> bytes \<times> nat" where
  "RTMPInsertRSNIE FrameBuf FrameLen rsnie rsnie_len pmkid pmkid_len =
     (let extra_len = (if pmkid_len > 0 \<and> pmkid_len AND 0x0f = 0 then 2 + pmkid_len else 0);
          pmk_count = drop_bit 4 pmkid_len
      in if rsnie_len \<noteq> 0 then
           let rsn = (read_at 2 3 rsnie = OUI_WPA2);
               ie_num = (if rsn then IE_RSN else IE_WPA);
               total_len = (if rsn then rsnie_len + extra_len else rsnie_len);
               FrameBuf = write_at FrameBuf FrameLen ([ie_num, total_len] @ take (unat rsnie_len) rsnie);
               FrameLen = FrameLen + 2 + unat rsnie_len
           in if rsn \<and> extra_len > 0
              then (write_at FrameBuf FrameLen ([pmk_count, 0] @ take (unat pmkid_len) pmkid), FrameLen + 2 + unat pmkid_len)
              else (FrameBuf, FrameLen)
         else (FrameBuf, FrameLen))"

definition WPA_ConstructKdeHdr :: "u8 \<Rightarrow> u8 \<Rightarrow> bytes" where
  "WPA_ConstructKdeHdr data_type data_len = [WPA_KDE_TYPE, 4 + data_len] @ OUI_WPA2 @ [data_type]"

text \<open>The end of \<^verbatim>\<open>ConstructEapolKeyData\<close>: the data is copied into the frame and the lengths are updated.\<close>

definition eapol_set_data :: "eapol_packet \<Rightarrow> bytes \<Rightarrow> nat \<Rightarrow> eapol_packet option" where
  "eapol_set_data pMsg data data_offset =
     (if length (epKeyData pMsg) < data_offset then None
      else Some (pMsg\<lparr>epKeyData := write_at (epKeyData pMsg) 0 (take data_offset data),
                      epKeyDataLen := SET_UINT16_TO_ARRARY data_offset,
                      epBody_Len := INC_UINT16_TO_ARRARY (epBody_Len pMsg) data_offset\<rparr>))"

text \<open>The key data with the group key: in WPA2 as a KDE.\<close>

definition insert_gtk :: "bool \<Rightarrow> nat \<Rightarrow> u8 \<Rightarrow> bytes \<Rightarrow> bytes \<Rightarrow> nat \<Rightarrow> bytes \<times> nat" where
  "insert_gtk bWPA2 gtk_len DefaultKeyIdx GTK Key_Data data_offset =
     (let (Key_Data, data_offset) =
            (if bWPA2
             then (write_at Key_Data data_offset (WPA_ConstructKdeHdr KDE_GTK (of_nat (2 + gtk_len)) @ [DefaultKeyIdx AND 0x03, 0x00]),
                   data_offset + 8)
             else (Key_Data, data_offset))
      in (write_at Key_Data data_offset (take gtk_len GTK), data_offset + gtk_len))"

text \<open>
  The protection of the key data with the KEK: the output buffer \<open>eGTK\<close> and the length of the data in it. \<open>eGTK\<close> is an
  uninitialised part of the allocated pool, \<open>stk\<close> the content of the local array of \<^verbatim>\<open>AES_Key_Wrap\<close>.
\<close>

definition protect_key_data ::
  "(nat \<Rightarrow> bool) \<Rightarrow> bytes \<Rightarrow> u8 \<Rightarrow> bytes \<Rightarrow> bytes \<Rightarrow> bytes \<Rightarrow> nat \<Rightarrow> bytes \<Rightarrow> (bytes \<times> nat) option" where
  "protect_key_data al stk keyDescVer KEK KeyIv Key_Data data_offset eGTK =
     (if keyDescVer = KEY_DESC_AES then
        let remainder = data_offset mod 8;
            pad_len = 8 - remainder;
            (Key_Data, data_offset) =
              (if remainder \<noteq> 0 then (write_at Key_Data data_offset (0xDD # replicate (pad_len - 1) 0), data_offset + pad_len)
               else (Key_Data, data_offset));
            (ret, eGTK, wrap_len) = AES_Key_Wrap al stk Key_Data data_offset KEK 16 eGTK 0
        in Some (eGTK, wrap_len)
      else
        map_option (\<lambda>mem. (take (length eGTK) mem, data_offset))
          (TKIP_GTK_KEY_WRAP (al 0) KEK KeyIv (eGTK @ Key_Data) (length eGTK) data_offset 0))"

text \<open>
  \<^verbatim>\<open>ConstructEapolKeyData\<close>. A null pointer is \<open>None\<close>, its use the result \<open>None\<close>. \<open>al 0\<close> is the allocation of the pool.
\<close>

definition ConstructEapolKeyData ::
  "(nat \<Rightarrow> bool) \<Rightarrow> bytes \<Rightarrow> bytes \<Rightarrow> mac_entry \<Rightarrow> nat \<Rightarrow> u8 \<Rightarrow> nat \<Rightarrow> u8 \<Rightarrow> bytes option \<Rightarrow> bytes option \<Rightarrow> u8 \<Rightarrow> eapol_packet \<Rightarrow>
   eapol_packet option" where
  "ConstructEapolKeyData al stk eGTK pEntry GroupKeyWepStatus keyDescVer MsgType DefaultKeyIdx GTK RSNIE RSNIE_LEN pMsg =
     (let bWPA2 = is_wpa2 pEntry
      in if MsgType = EAPOL_PAIR_MSG_1 \<or> MsgType = EAPOL_PAIR_MSG_4 \<or> MsgType = EAPOL_GROUP_MSG_2 then Some pMsg
         else if \<not> al 0 then Some pMsg
         else
           case (if RSNIE_LEN \<noteq> 0 \<and> (MsgType = EAPOL_PAIR_MSG_2 \<or> MsgType = EAPOL_PAIR_MSG_3)
                 then map_option (\<lambda>r. RTMPInsertRSNIE (replicate 512 0) 0 r RSNIE_LEN [] 0) RSNIE
                 else Some (replicate 512 0, 0)) of
             None \<Rightarrow> None
           | Some (Key_Data, data_offset) \<Rightarrow>
               if MsgType = EAPOL_PAIR_MSG_3 \<and> bWPA2 \<or> MsgType = EAPOL_GROUP_MSG_1 then
                 case GTK of None \<Rightarrow> None
                 | Some gtk \<Rightarrow>
                     let gtk_len = (if GroupKeyWepStatus = Ndis802_11AESEnable then LEN_TK else LEN_TKIP_GTK);
                         (Key_Data, data_offset) = insert_gtk bWPA2 gtk_len DefaultKeyIdx gtk Key_Data data_offset
                     in case protect_key_data (\<lambda>n. al (Suc n)) stk keyDescVer (ptk_kek (mtPTK pEntry)) (epKeyIv pMsg)
                                Key_Data data_offset eGTK of
                          None \<Rightarrow> None
                        | Some (eGTK, data_offset) \<Rightarrow> eapol_set_data pMsg eGTK data_offset
               else eapol_set_data pMsg Key_Data data_offset)"

text \<open>The first part of \<^verbatim>\<open>ConstructEapolMsg\<close>: the key information and the key length.\<close>

definition eapol_key_desc_ver :: "mac_entry \<Rightarrow> nat \<Rightarrow> u8" where
  "eapol_key_desc_ver pEntry GroupKeyWepStatus =
     (if mtWepStatus pEntry = Ndis802_11AESEnable \<or> GroupKeyWepStatus = Ndis802_11AESEnable then KEY_DESC_AES else KEY_DESC_TKIP)"

definition eapol_key_info :: "bool \<Rightarrow> u8 \<Rightarrow> nat \<Rightarrow> u8 \<Rightarrow> key_info \<Rightarrow> key_info" where
  "eapol_key_info bWPA2 KeyDescVer MsgType DefaultKeyIdx ki =
     ki\<lparr>kiKeyDescVer := KeyDescVer AND 7,
        kiKeyType := \<not> MsgType \<ge> EAPOL_GROUP_MSG_1,
        kiKeyIndex := (if \<not> bWPA2 \<and> MsgType \<ge> EAPOL_GROUP_MSG_1 then DefaultKeyIdx AND 3 else kiKeyIndex ki),
        kiInstall := (MsgType = EAPOL_PAIR_MSG_3 \<or> kiInstall ki),
        kiKeyAck := (MsgType = EAPOL_PAIR_MSG_1 \<or> MsgType = EAPOL_PAIR_MSG_3 \<or> MsgType = EAPOL_GROUP_MSG_1 \<or> kiKeyAck ki),
        kiKeyMic := (MsgType \<noteq> EAPOL_PAIR_MSG_1 \<or> kiKeyMic ki),
        kiSecure := (bWPA2 \<and> MsgType \<ge> EAPOL_PAIR_MSG_3 \<or> \<not> bWPA2 \<and> MsgType \<ge> EAPOL_GROUP_MSG_1 \<or> kiSecure ki),
        kiEKD_DL := (bWPA2 \<and> (MsgType = EAPOL_PAIR_MSG_3 \<or> MsgType = EAPOL_GROUP_MSG_1) \<or> kiEKD_DL ki)\<rparr>"

definition eapol_key_length :: "mac_entry \<Rightarrow> nat \<Rightarrow> nat \<Rightarrow> bytes \<Rightarrow> bytes" where
  "eapol_key_length pEntry GroupKeyWepStatus MsgType KeyLength =
     (let tk = (\<lambda>status. if status = Ndis802_11TKIPEnable then 32 else 16)
      in if is_wpa2 pEntry then
           (if MsgType = EAPOL_PAIR_MSG_1 \<or> MsgType = EAPOL_PAIR_MSG_3 then KeyLength[1 := tk (mtWepStatus pEntry)] else KeyLength)
         else if MsgType \<ge> EAPOL_GROUP_MSG_1 then KeyLength[1 := tk GroupKeyWepStatus]
         else KeyLength[1 := tk (mtWepStatus pEntry)])"

text \<open>
  \<^verbatim>\<open>ConstructEapolMsg\<close> on a frame buffer that holds \<open>pMsg\<close>. \<open>al 0 n\<close> are the allocations of \<^verbatim>\<open>ConstructEapolKeyData\<close>, \<open>al 1 n\<close> those of
  \<^verbatim>\<open>CalculateMIC\<close>.
\<close>

definition ConstructEapolMsg ::
  "(nat \<Rightarrow> nat \<Rightarrow> bool) \<Rightarrow> bytes \<Rightarrow> bytes \<Rightarrow> mac_entry \<Rightarrow> nat \<Rightarrow> nat \<Rightarrow> u8 \<Rightarrow> bytes option \<Rightarrow> bytes option \<Rightarrow> bytes option \<Rightarrow>
   bytes option \<Rightarrow> u8 \<Rightarrow> eapol_packet \<Rightarrow> eapol_packet option" where
  "ConstructEapolMsg al stk eGTK pEntry GroupKeyWepStatus MsgType DefaultKeyIdx KeyNonce TxRSC GTK RSNIE RSNIE_Len pMsg =
     (let bWPA2 = is_wpa2 pEntry;
          KeyDescVer = eapol_key_desc_ver pEntry GroupKeyWepStatus;
          pMsg = pMsg\<lparr>epProVer := 1, epProType := 3, epBody_Len := SET_UINT16_TO_ARRARY 95,
                      epType := (if bWPA2 then 0x02 else 0xfe),
                      epKeyInfo := eapol_key_info bWPA2 KeyDescVer MsgType DefaultKeyIdx (epKeyInfo pMsg),
                      epKeyLength := eapol_key_length pEntry GroupKeyWepStatus MsgType (epKeyLength pMsg),
                      epReplayCounter := mtR_Counter pEntry\<rparr>
      in case (if MsgType \<le> EAPOL_PAIR_MSG_3 \<or> \<not> bWPA2 \<and> MsgType = EAPOL_GROUP_MSG_1
               then map_option (\<lambda>n. pMsg\<lparr>epKeyNonce := take 32 n\<rparr>) KeyNonce else Some pMsg) of
           None \<Rightarrow> None
         | Some pMsg \<Rightarrow>
             case (if \<not> bWPA2 \<and> MsgType = EAPOL_GROUP_MSG_1
                   then map_option (\<lambda>n. let iv = read_at 16 16 n in pMsg\<lparr>epKeyIv := iv[15 := iv ! 15 + 2]\<rparr>) KeyNonce
                   else Some pMsg) of
               None \<Rightarrow> None
             | Some pMsg \<Rightarrow>
                 case (if MsgType = EAPOL_PAIR_MSG_3 \<and> bWPA2 \<or> MsgType = EAPOL_GROUP_MSG_1
                       then map_option (\<lambda>r. pMsg\<lparr>epKeyRsc := write_at (epKeyRsc pMsg) 0 (take 6 r)\<rparr>) TxRSC
                       else Some pMsg) of
                   None \<Rightarrow> None
                 | Some pMsg \<Rightarrow>
                     case ConstructEapolKeyData (al 0) stk eGTK pEntry GroupKeyWepStatus KeyDescVer MsgType DefaultKeyIdx GTK RSNIE
                            RSNIE_Len (pMsg\<lparr>epKeyMic := replicate 16 0\<rparr>) of
                       None \<Rightarrow> None
                     | Some pMsg \<Rightarrow>
                         if MsgType \<noteq> EAPOL_PAIR_MSG_1 then CalculateMIC (al 1) KeyDescVer (mtPTK pEntry) pMsg else Some pMsg)"

section \<open>Keys of the adapter\<close>

text \<open>What the handshakes do outside of the tables: wireless events, packets, registers, timers.\<close>

datatype wpa_event =
  WirelessEvent nat bytes u8
| StaSendPacket bytes bytes bool u8 u8
| DeQueuePacket
| AddPairwiseKeyEntry u8 cipher_key
| AddSharedKeyEntry u8 u8 cipher_key
| UpdateWCIDIVEIV u8 u32
| UpdateWcidAttributeEntry u8 u8 u8 u8 bool
| IndicateMediaConnected
| CancelLinkDownTimer
| CancelRetryTimer nat
| ModRetryTimer nat nat
| EnqueueEAPOLStart bytes

record wpa_adapter =
  waMacTab :: mac_table
  waCurrentAddress :: bytes
  waPMK :: bytes
  waGroupCipher :: nat
  waRSN_IE :: bytes
  waRSNIE_Len :: u8
  waGTK :: bytes
  waPTK :: bytes
  waDefaultKeyId :: u8
  waPortSecured :: u16
  waSharedKey :: "cipher_key list"
  waMlmeChannel :: u8
  waChannel :: u8
  waInfraOn :: bool
  waConnected :: bool
  waScanning :: bool
  waResetting :: bool
  waHalting :: bool
  waEvents :: "wpa_event list"

definition wpa_emit :: "wpa_event \<Rightarrow> wpa_adapter \<Rightarrow> wpa_adapter" where
  "wpa_emit ev pAd = pAd\<lparr>waEvents := waEvents pAd @ [ev]\<rparr>"

text \<open>\<^verbatim>\<open>RTMPSetWcidSecurityInfo\<close>; \<open>rnd\<close> are the random bytes of a WEP counter. \<open>pairw\<close> is \<^verbatim>\<open>PAIRWISEKEYTABLE\<close>.\<close>

definition RTMPSetWcidSecurityInfo :: "bytes \<Rightarrow> wpa_adapter \<Rightarrow> u8 \<Rightarrow> u8 \<Rightarrow> u8 \<Rightarrow> u8 \<Rightarrow> bool \<Rightarrow> wpa_adapter" where
  "RTMPSetWcidSecurityInfo rnd pAd BssIdx KeyIdx CipherAlg Wcid pairw =
     (let set = (\<lambda>IV. wpa_emit (UpdateWcidAttributeEntry BssIdx KeyIdx CipherAlg Wcid pairw)
                        (wpa_emit (UpdateWCIDIVEIV Wcid IV) pAd))
      in if CipherAlg = 1 \<or> CipherAlg = 2 then
           set (push_bit 24 (ucast (push_bit 6 KeyIdx)) OR push_bit 16 (ucast (rnd ! 2)) OR push_bit 8 (ucast (rnd ! 1)) OR ucast (rnd ! 0))
         else if CipherAlg = 3 \<or> CipherAlg = 4 then set (push_bit 24 (ucast (push_bit 6 KeyIdx OR 0x20)) OR 1)
         else pAd)"

text \<open>\<^verbatim>\<open>WPAInstallPairwiseKey\<close> for the entry with index \<open>i\<close>.\<close>

definition pairwise_key :: "mac_entry \<Rightarrow> bool \<Rightarrow> cipher_key option" where
  "pairwise_key e bAE =
     (let tk = read_at 32 16 (mtPTK e); mic1 = read_at 48 8 (mtPTK e); mic2 = read_at 56 8 (mtPTK e)
      in if mtWepStatus e = Ndis802_11TKIPEnable then
           Some (zero_cipher_key\<lparr>ckCipherAlg := 3, ckKeyLen := 16, ckKey := tk,
                   ckTxMic := (if bAE then mic1 else mic2), ckRxMic := (if bAE then mic2 else mic1)\<rparr>)
         else if mtWepStatus e = Ndis802_11AESEnable then Some (zero_cipher_key\<lparr>ckCipherAlg := 4, ckKeyLen := 16, ckKey := tk\<rparr>)
         else None)"

definition wpa_update_entry :: "nat \<Rightarrow> (mac_entry \<Rightarrow> mac_entry) \<Rightarrow> wpa_adapter \<Rightarrow> wpa_adapter" where
  "wpa_update_entry i f pAd =
     pAd\<lparr>waMacTab := waMacTab pAd\<lparr>tbContent := (tbContent (waMacTab pAd))[i := f (tbContent (waMacTab pAd) ! i)]\<rparr>\<rparr>"

definition WPAInstallPairwiseKey :: "wpa_adapter \<Rightarrow> u8 \<Rightarrow> nat \<Rightarrow> bool \<Rightarrow> wpa_adapter" where
  "WPAInstallPairwiseKey pAd BssIdx i bAE =
     (let e = tbContent (waMacTab pAd) ! i
      in case pairwise_key e bAE of
           None \<Rightarrow> wpa_update_entry i (\<lambda>e. e\<lparr>mtPairwiseKey := zero_cipher_key\<rparr>) pAd
         | Some k \<Rightarrow>
             RTMPSetWcidSecurityInfo []
               (wpa_emit (AddPairwiseKeyEntry (mtWcid e) k) (wpa_update_entry i (\<lambda>e. e\<lparr>mtPairwiseKey := k\<rparr>) pAd))
               BssIdx 0 (ckCipherAlg k) (mtWcid e) True)"

text \<open>\<^verbatim>\<open>WPAInstallSharedKey\<close>; the station has one BSS.\<close>

definition shared_key :: "nat \<Rightarrow> bool \<Rightarrow> bytes \<Rightarrow> u8 \<Rightarrow> cipher_key \<times> bool" where
  "shared_key GroupCipher bAE pGtk GtkLen =
     (let k = zero_cipher_key in
      if GroupCipher = Ndis802_11GroupWEP40Enabled \<or> GroupCipher = Ndis802_11GroupWEP104Enabled then
        let k = k\<lparr>ckCipherAlg := (if GroupCipher = Ndis802_11GroupWEP40Enabled then 1 else 2)\<rparr>
        in if GtkLen \<noteq> 5 \<and> GtkLen \<noteq> 13 then (k, False)
           else (k\<lparr>ckKeyLen := GtkLen, ckKey := write_at (ckKey k) 0 (take (unat GtkLen) pGtk)\<rparr>, True)
      else if GroupCipher = Ndis802_11TKIPEnable \<or> GroupCipher = Ndis802_11AESEnable then
        let k = k\<lparr>ckCipherAlg := (if GroupCipher = Ndis802_11TKIPEnable then 3 else 4)\<rparr>
        in if GtkLen < 16 then (k, False)
           else if GroupCipher = Ndis802_11TKIPEnable then
             (k\<lparr>ckKeyLen := 16, ckKey := take 16 pGtk,
                ckTxMic := (if bAE then read_at 16 8 pGtk else read_at 24 8 pGtk),
                ckRxMic := (if bAE then read_at 24 8 pGtk else read_at 16 8 pGtk)\<rparr>, True)
           else (k\<lparr>ckKeyLen := 16, ckKey := take 16 pGtk\<rparr>, True)
      else (k, False))"

definition WPAInstallSharedKey :: "bytes \<Rightarrow> wpa_adapter \<Rightarrow> nat \<Rightarrow> u8 \<Rightarrow> u8 \<Rightarrow> u8 \<Rightarrow> bool \<Rightarrow> bytes \<Rightarrow> u8 \<Rightarrow> wpa_adapter" where
  "WPAInstallSharedKey rnd pAd GroupCipher BssIdx KeyIdx Wcid bAE pGtk GtkLen =
     (if BssIdx \<ge> 1 then pAd
      else
        let (k, ok) = shared_key GroupCipher bAE pGtk GtkLen;
            pAd = pAd\<lparr>waSharedKey := (waSharedKey pAd)[unat KeyIdx := k]\<rparr>
        in if \<not> ok then pAd
           else
             let pAd = wpa_emit (AddSharedKeyEntry BssIdx KeyIdx k) pAd
             in if Wcid \<noteq> 0 then RTMPSetWcidSecurityInfo rnd pAd BssIdx KeyIdx (ckCipherAlg k) Wcid False else pAd)"

section \<open>Reception\<close>

text \<open>
  The loop of \<^verbatim>\<open>RTMPParseEapolKeyData\<close> over the KDEs in the buffer \<open>buf\<close>. The outer \<open>None\<close> is an access outside of the
  buffer or of \<^verbatim>\<open>GTK[32]\<close>, \<open>Some None\<close> the result \<^verbatim>\<open>FALSE\<close>; otherwise the result is the index, the array \<^verbatim>\<open>GTK\<close> and the length.
\<close>

type_synonym gtk_vars = "u8 \<times> bytes \<times> u8"

definition parse_kde :: "bytes \<Rightarrow> nat \<Rightarrow> gtk_vars \<Rightarrow> gtk_vars option option" where
  "parse_kde buf off v =
     (if buf ! off \<noteq> WPA_KDE_TYPE then Some (Some v)
      else if length buf < off + 5 then None
      else if read_at (off + 2) 3 buf \<noteq> OUI_WPA2 then Some (Some v)
      else if length buf < off + 6 then None
      else if buf ! (off + 5) \<noteq> KDE_GTK then Some (Some v)
      else if length buf < off + 7 then None
      else
        let GTKLEN = buf ! (off + 1) - 6
        in if GTKLEN < 5 then Some None
           else if MAX_LEN_GTK < unat GTKLEN \<or> length buf < off + 8 + unat GTKLEN then None
           else Some (Some (buf ! (off + 6) AND 3, write_at (fst (snd v)) 0 (read_at (off + 8) (unat GTKLEN) buf), GTKLEN)))"

function parse_kdes :: "bytes \<Rightarrow> nat \<Rightarrow> nat \<Rightarrow> gtk_vars \<Rightarrow> gtk_vars option option" where
  "parse_kdes buf KeyDataLength skip_offset v =
     (if length buf < skip_offset + 2 then None
      else
        let next_offset = skip_offset + 2 + unat (buf ! (skip_offset + 1))
        in if next_offset \<le> KeyDataLength then
             case parse_kde buf skip_offset v of
               None \<Rightarrow> None
             | Some None \<Rightarrow> Some None
             | Some (Some v) \<Rightarrow> parse_kdes buf KeyDataLength next_offset v
           else Some (Some v))"
  by pat_completeness auto
termination
  by (relation "measure (\<lambda>(buf, l, s, v). l - s)") auto

declare parse_kdes.simps [simp del]

text \<open>\<^verbatim>\<open>RTMPParseEapolKeyData\<close>; \<open>rnd\<close> are the random bytes of \<^verbatim>\<open>RTMPSetWcidSecurityInfo\<close>.\<close>

definition RTMPParseEapolKeyData ::
  "bytes \<Rightarrow> wpa_adapter \<Rightarrow> bytes \<Rightarrow> u8 \<Rightarrow> u8 \<Rightarrow> nat \<Rightarrow> bool \<Rightarrow> (bool \<times> wpa_adapter) option" where
  "RTMPParseEapolKeyData rnd pAd pKeyData KeyDataLen GroupKeyIndex MsgType bWPA2 =
     (if (MsgType = EAPOL_PAIR_MSG_2 \<or> MsgType = EAPOL_PAIR_MSG_3) \<and> \<not> (bWPA2 \<and> MsgType = EAPOL_PAIR_MSG_3) then Some (True, pAd)
      else
        case (if bWPA2 \<and> (MsgType = EAPOL_PAIR_MSG_3 \<or> MsgType = EAPOL_GROUP_MSG_1)
              then parse_kdes pKeyData (unat KeyDataLen) 0 (0, replicate MAX_LEN_GTK 0, 0)
              else if \<not> bWPA2 \<and> MsgType = EAPOL_GROUP_MSG_1 then
                (if MAX_LEN_GTK < unat KeyDataLen \<or> length pKeyData < unat KeyDataLen then None
                 else Some (Some (GroupKeyIndex, write_at (replicate MAX_LEN_GTK 0) 0 (take (unat KeyDataLen) pKeyData), KeyDataLen)))
              else Some (Some (0, replicate MAX_LEN_GTK 0, 0))) of
          None \<Rightarrow> None
        | Some None \<Rightarrow> Some (False, pAd)
        | Some (Some (DefaultIdx, GTK, GTKLEN)) \<Rightarrow>
            if DefaultIdx > 3 then Some (False, pAd)
            else
              let pAd = pAd\<lparr>waGTK := write_at (waGTK pAd) 0 (take (unat GTKLEN) GTK), waDefaultKeyId := DefaultIdx\<rparr>
              in Some (True, WPAInstallSharedKey rnd pAd (waGroupCipher pAd) 0 (waDefaultKeyId pAd) MCAST_WCID False (waGTK pAd) GTKLEN))"

text \<open>The inputs of the handshake from outside: memory, time, uninitialised arrays, random bytes, and whether a packet is accepted.\<close>

record wpa_env =
  enAlloc :: "nat \<Rightarrow> nat \<Rightarrow> bool"
  enUptime :: "nat \<Rightarrow> u64"
  enStack :: bytes
  enPool :: bytes
  enPTK :: bytes
  enTxTsc :: bytes
  enRandom :: bytes
  enSendOk :: bool

text \<open>
  The decryption of the key data in \<^verbatim>\<open>PeerWpaMessageSanity\<close>: the buffer \<^verbatim>\<open>KEYDATA\<close> of 255 bytes and the new content of
  \<^verbatim>\<open>KeyDataLen\<close>; \<open>None\<close> is an access outside of a buffer.
\<close>

definition unprotect_key_data :: "wpa_env \<Rightarrow> mac_entry \<Rightarrow> eapol_packet \<Rightarrow> bytes \<Rightarrow> (bytes \<times> bytes) option" where
  "unprotect_key_data env pEntry pMsg KEYDATA =
     (let len = CONV_ARRARY_TO_UINT16 (epKeyDataLen pMsg); KEK = ptk_kek (mtPTK pEntry); ver = kiKeyDescVer (epKeyInfo pMsg)
      in if enAlloc env 2 0 \<and> length (epKeyData pMsg) < len then None
         else if ver = KEY_DESC_EXT \<or> ver = KEY_DESC_AES then
           if enAlloc env 2 0 \<and> MAX_LEN_OF_RSNIE < len - 8 then None
           else
             map_option (\<lambda>(ret, KEYDATA, aes_unwrap_len). (KEYDATA, SET_UINT16_TO_ARRARY aes_unwrap_len))
               (AES_Key_Unwrap (enAlloc env 2) (enStack env) (take len (epKeyData pMsg)) len KEK 16 KEYDATA 0)
         else if enAlloc env 2 0 \<and> MAX_LEN_OF_RSNIE < len then None
         else
           map_option (\<lambda>mem. (take (length KEYDATA) mem, epKeyDataLen pMsg))
             (TKIP_GTK_KEY_UNWRAP (enAlloc env 2 0) KEK (epKeyIv pMsg) (KEYDATA @ epKeyData pMsg) (length KEYDATA) len 0))"

text \<open>The checks of the replay counter and of the MIC.\<close>

definition replay_differs :: "mac_entry \<Rightarrow> nat \<Rightarrow> eapol_packet \<Rightarrow> bool" where
  "replay_differs pEntry MsgType pMsg =
     (if MsgType = EAPOL_PAIR_MSG_1 \<or> MsgType = EAPOL_PAIR_MSG_3 \<or> MsgType = EAPOL_GROUP_MSG_1 then
        RTMPCompareMemory (epReplayCounter pMsg) (mtR_Counter pEntry) 8 \<noteq> 1 \<and>
        RTMPCompareMemory (epReplayCounter pMsg) (replicate 8 0) 8 \<noteq> 0
      else if MsgType = EAPOL_PAIR_MSG_2 \<or> MsgType = EAPOL_PAIR_MSG_4 \<or> MsgType = EAPOL_GROUP_MSG_2 then
        epReplayCounter pMsg \<noteq> mtR_Counter pEntry
      else False)"

definition received_mic :: "wpa_env \<Rightarrow> mac_entry \<Rightarrow> eapol_packet \<Rightarrow> bytes option" where
  "received_mic env pEntry pMsg =
     (let eapol_len = CONV_ARRARY_TO_UINT16 (epBody_Len pMsg) + 4; b = eapol_bytes (pMsg\<lparr>epKeyMic := replicate 16 0\<rparr>)
      in if length b < eapol_len then None
         else eapol_mic (enAlloc env 1) (kiKeyDescVer (epKeyInfo pMsg)) (mtPTK pEntry) (take eapol_len b) eapol_len)"

text \<open>The part of \<^verbatim>\<open>PeerWpaMessageSanity\<close> behind the check of the MIC.\<close>

definition sanity_key_data :: "wpa_env \<Rightarrow> wpa_adapter \<Rightarrow> eapol_packet \<Rightarrow> nat \<Rightarrow> mac_entry \<Rightarrow> (bool \<times> wpa_adapter \<times> eapol_packet) option" where
  "sanity_key_data env pAd pMsg MsgType pEntry =
     (let bWPA2 = is_wpa2 pEntry; len = CONV_ARRARY_TO_UINT16 (epKeyDataLen pMsg); KEYDATA = replicate MAX_LEN_OF_RSNIE 0
      in if len > 0 then
           if MsgType = EAPOL_PAIR_MSG_3 \<and> bWPA2 \<or> MsgType = EAPOL_GROUP_MSG_1 then
             case unprotect_key_data env pEntry pMsg KEYDATA of
               None \<Rightarrow> None
             | Some (KEYDATA, dlen) \<Rightarrow>
                 let GroupKeyIndex = (if \<not> bWPA2 \<and> MsgType = EAPOL_GROUP_MSG_1 then kiKeyIndex (epKeyInfo pMsg) else 0)
                 in map_option (\<lambda>(ok, pAd). (ok, pAd, pMsg\<lparr>epKeyDataLen := dlen\<rparr>))
                      (RTMPParseEapolKeyData (enRandom env) pAd KEYDATA (of_nat (CONV_ARRARY_TO_UINT16 dlen)) GroupKeyIndex MsgType bWPA2)
           else if MsgType = EAPOL_PAIR_MSG_2 \<or> MsgType = EAPOL_PAIR_MSG_3 \<and> \<not> bWPA2 then
             if MAX_LEN_OF_RSNIE < len \<or> length (epKeyData pMsg) < len then None
             else map_option (\<lambda>(ok, pAd). (ok, pAd, pMsg))
                    (RTMPParseEapolKeyData (enRandom env) pAd (write_at KEYDATA 0 (take len (epKeyData pMsg))) (of_nat len) 0 MsgType bWPA2)
           else Some (True, pAd, pMsg)
         else Some (True, pAd, pMsg))"

text \<open>\<^verbatim>\<open>PeerWpaMessageSanity\<close>: the function value, the adapter and the frame, whose MIC is zeroed for the check and stays so.\<close>

definition PeerWpaMessageSanity ::
  "wpa_env \<Rightarrow> wpa_adapter \<Rightarrow> eapol_packet \<Rightarrow> nat \<Rightarrow> mac_entry \<Rightarrow> (bool \<times> wpa_adapter \<times> eapol_packet) option" where
  "PeerWpaMessageSanity env pAd pMsg MsgType pEntry =
     (if \<not> enAlloc env 0 0 then Some (False, pAd, pMsg)
      else if MsgType > EAPOL_GROUP_MSG_2 \<or> MsgType < EAPOL_PAIR_MSG_1 then Some (False, pAd, pMsg)
      else if replay_differs pEntry MsgType pMsg then
        Some (False, wpa_emit (WirelessEvent 0x0205 (mtAddr pEntry) (mtApidx pEntry)) pAd, pMsg)
      else if MsgType = EAPOL_PAIR_MSG_1 then sanity_key_data env pAd pMsg MsgType pEntry
      else
        case received_mic env pEntry pMsg of
          None \<Rightarrow> None
        | Some mic \<Rightarrow>
            let rcvd_mic = epKeyMic pMsg; pMsg = pMsg\<lparr>epKeyMic := replicate 16 0\<rparr>
            in if rcvd_mic \<noteq> mic then
                 Some (False, wpa_emit (WirelessEvent 0x0207 (mtAddr pEntry) (mtApidx pEntry)) pAd, pMsg)
               else sanity_key_data env pAd pMsg MsgType pEntry)"

section \<open>Frames as bytes\<close>

definition eapol_wf :: "eapol_packet \<Rightarrow> bool" where
  "eapol_wf p \<longleftrightarrow> length (epBody_Len p) = 2 \<and> length (epKeyLength p) = 2 \<and> length (epReplayCounter p) = 8 \<and>
     length (epKeyNonce p) = 32 \<and> length (epKeyIv p) = 16 \<and> length (epKeyRsc p) = 8 \<and> length (epKeyId p) = 8 \<and>
     length (epKeyMic p) = 16 \<and> length (epKeyDataLen p) = 2 \<and>
     kiRsvd (epKeyInfo p) < 8 \<and> kiKeyDescVer (epKeyInfo p) < 8 \<and> kiKeyIndex (epKeyInfo p) < 4"

lemma u8_less_power_bits:
  assumes "(x :: u8) < 2 ^ k" and "k \<le> 7" and "k \<le> n"
  shows "\<not> bit x n"
proof -
  have "(2 :: nat) ^ k < 2 ^ 8" using assms(2) by (intro power_strict_increasing) simp_all
  then have "unat (2 ^ k :: u8) = 2 ^ k" using unat_of_nat [of "2 ^ k", where 'a = 8] by simp
  then have "unat x < 2 ^ k"
    using assms(1) by (simp add: word_less_nat_alt)
  then have "take_bit k (unat x) = unat x" by (simp add: take_bit_nat_eq_self)
  then have "take_bit k x = x" by (metis unsigned_take_bit_eq unsigned_word_eqI)
  then show ?thesis using assms(3) by (metis bit_take_bit_iff not_le)
qed

lemma key_info_of_bytes:
  assumes "kiRsvd ki < 8" and "kiKeyDescVer ki < 8" and "kiKeyIndex ki < 4"
  shows "key_info_of (key_info_bytes ki ! 0) (key_info_bytes ki ! 1) = ki"
proof -
  have r: "\<not> bit (kiRsvd ki) n" if "3 \<le> n" for n using u8_less_power_bits [of _ 3 n] assms(1) that by simp
  then have r': "n < 3" if "bit (kiRsvd ki) n" for n using that not_le by blast
  have v: "\<not> bit (kiKeyDescVer ki) n" if "3 \<le> n" for n using u8_less_power_bits [of _ 3 n] assms(2) that by simp
  then have v': "n < 3" if "bit (kiKeyDescVer ki) n" for n using that not_le by blast
  have i: "\<not> bit (kiKeyIndex ki) n" if "2 \<le> n" for n using u8_less_power_bits [of _ 2 n] assms(3) that by simp
  then have i': "n < 2" if "bit (kiKeyIndex ki) n" for n using that not_le by blast
  have m: "(7 :: u8) = mask 3" "(3 :: u8) = mask 2" by (simp_all add: mask_eq_exp_minus_1)
  let ?b0 = "key_info_bytes ki ! 0" and ?b1 = "key_info_bytes ki ! 1"
  have "drop_bit 5 ?b0 = kiRsvd ki"
    by (rule bit_word_eqI) (auto simp: key_info_bytes_def bit_simps intro: r')
  moreover have "?b1 AND 7 = kiKeyDescVer ki"
    unfolding m by (rule bit_word_eqI) (auto simp: key_info_bytes_def bit_simps intro: v')
  moreover have "drop_bit 4 ?b1 AND 3 = kiKeyIndex ki"
    unfolding m by (rule bit_word_eqI) (auto simp: key_info_bytes_def bit_simps v dest: i')
  ultimately show ?thesis
    using r v i by (simp add: key_info_of_def) (auto simp: key_info_bytes_def bit_simps)
qed

lemma length_key_info_bytes [simp]: "length (key_info_bytes ki) = 2"
  by (simp add: key_info_bytes_def)

lemma length_eapol_bytes: "eapol_wf p \<Longrightarrow> length (eapol_bytes p) = 99 + length (epKeyData p)"
  by (simp add: eapol_wf_def eapol_bytes_def)

definition eapol_header :: "eapol_packet \<Rightarrow> bytes" where
  "eapol_header p = [epProVer p, epProType p] @ epBody_Len p @ [epType p] @ key_info_bytes (epKeyInfo p) @ epKeyLength p
     @ epReplayCounter p @ epKeyNonce p @ epKeyIv p @ epKeyRsc p @ epKeyId p @ epKeyMic p @ epKeyDataLen p"

lemma eapol_bytes_header: "eapol_bytes p = eapol_header p @ epKeyData p"
  by (simp add: eapol_bytes_def eapol_header_def)

lemma length_eapol_header: "eapol_wf p \<Longrightarrow> length (eapol_header p) = 99"
  by (simp add: eapol_wf_def eapol_header_def)

lemma eapol_of_header:
  assumes "eapol_wf p"
  shows "eapol_of_bytes (eapol_header p @ d) = p\<lparr>epKeyData := d\<rparr>"
proof -
  obtain k0 k1 where k: "key_info_bytes (epKeyInfo p) = [k0, k1]" by (simp add: key_info_bytes_def)
  have ki: "key_info_of k0 k1 = epKeyInfo p"
    using key_info_of_bytes [of "epKeyInfo p"] assms by (simp add: eapol_wf_def k)
  obtain b0 b1 where b: "epBody_Len p = [b0, b1]" using assms by (auto simp: eapol_wf_def numeral_2_eq_2 length_Suc_conv)
  obtain l0 l1 where l: "epKeyLength p = [l0, l1]" using assms by (auto simp: eapol_wf_def numeral_2_eq_2 length_Suc_conv)
  show ?thesis
    using assms length_eapol_header [OF assms] unfolding eapol_of_bytes_def
    by (simp add: eapol_wf_def eapol_header_def k ki b l read_at_def numeral_eq_Suc)
qed

lemma length_SET_UINT16 [simp]: "length (SET_UINT16_TO_ARRARY n) = 2"
  by (simp add: SET_UINT16_TO_ARRARY_def)

lemma length_INC_UINT16 [simp]: "length (INC_UINT16_TO_ARRARY V n) = 2"
  by (simp add: INC_UINT16_TO_ARRARY_def)

lemma CONV_SET_UINT16 [simp]: "n < 65536 \<Longrightarrow> CONV_ARRARY_TO_UINT16 (SET_UINT16_TO_ARRARY n) = n"
  by (simp add: CONV_ARRARY_TO_UINT16_def SET_UINT16_TO_ARRARY_def unat_of_nat)

lemma CONV_INC_UINT16 [simp]:
  "CONV_ARRARY_TO_UINT16 V + n < 65536 \<Longrightarrow> CONV_ARRARY_TO_UINT16 (INC_UINT16_TO_ARRARY V n) = CONV_ARRARY_TO_UINT16 V + n"
  by (simp add: INC_UINT16_TO_ARRARY_def)

section \<open>Protection of the key data\<close>

definition gtk_keystream :: "bytes \<Rightarrow> bytes \<Rightarrow> nat \<Rightarrow> bytes" where
  "gtk_keystream key iv n =
     keystream arc4_next (ARC4_Discard_KeyLength (the (ARC4_INIT (take 16 iv @ take 16 key) 32)) 256) n"

lemma length_gtk_keystream [simp]: "length (gtk_keystream key iv n) = n"
  by (simp add: gtk_keystream_def)

lemma TKIP_GTK_KEY_WRAP_ok:
  assumes "src + n \<le> length mem" and "dst + n \<le> src"
  shows "TKIP_GTK_KEY_WRAP True key iv mem src n dst =
    Some (write_at mem dst (xor_bytes (read_at src n mem) (gtk_keystream key iv n)))"
  using assms by (simp add: TKIP_GTK_KEY_WRAP_def ARC4_INIT_def gtk_keystream_def arc4.compute_write_at)

lemma AES_Key_Wrap_take: "AES_Key_Wrap al B0 p n K kl c m = AES_Key_Wrap al B0 (take n p) n K kl c m"
  by (simp add: AES_Key_Wrap_def Let_def)

lemma key_wrap_buffer:
  assumes "alloc_ok al" and "alloc_ok al'" and "length B0 = 16" and "length B1 = 16"
    and "n \<le> length p" and "n + 8 \<le> length e" and "n + 8 < 2 ^ 32"
  shows "\<exists>c. length c = n + 8 \<and> AES_Key_Wrap al B0 p n K 16 e m = (0, write_at e 0 c, n + 8) \<and>
    AES_Key_Unwrap al' B1 c (n + 8) K 16 out m' = Some (0, write_at out 0 (take n p), n)"
proof -
  let ?p = "take n p" and ?E = "aes_E K 16" and ?D = "aes_D K 16"
  let ?o = "wrap_order (length ?p div 8)"
  have lp: "length ?p = n" using assms(5) by simp
  have ok: "aes_key_length_ok 16" by (simp add: aes_key_length_ok_def)
  obtain iv r where f: "fold (wrap_step ?E) ?o (Default_IV, ?p) = (iv, r)" by fastforce
  have w: "wrap_ok (length ?p) (Default_IV, ?p)" by (simp add: wrap_ok_def Default_IV_def)
  have len: "length iv = 8" "length r = n"
    using aes.wrap_fold_ok [OF w wrap_order_bound, of K 16] f lp by (simp_all add: wrap_ok_def)
  have "fold (unwrap_step ?D) (rev ?o) (iv, r) = (Default_IV, ?p)"
    using aes.unwrap_wrap [OF w wrap_order_bound, of K 16] f by simp
  then have "AES_Key_Unwrap al' B1 (iv @ r) (length (iv @ r)) K 16 out m' = Some (0, write_at out 0 ?p, length ?p)"
    using assms len lp ok by (intro AES_Key_Unwrap_ok) simp_all
  moreover have "AES_Key_Wrap al B0 ?p (length ?p) K 16 e m = (0, write_at e 0 (iv @ r), length ?p + 8)"
    using AES_Key_Wrap_ok [OF assms(1) ok assms(3) f, of e m] assms(6,7) lp by simp
  ultimately show ?thesis
    using len lp AES_Key_Wrap_take [of al B0 p n K 16 e m] by (intro exI [of _ "iv @ r"]) (simp add: add.commute)
qed

text \<open>What is protected: the data, padded to whole blocks for the AES key wrap.\<close>

definition padded :: "u8 \<Rightarrow> bytes \<Rightarrow> bytes" where
  "padded ver d =
     (if ver = KEY_DESC_AES \<and> length d mod 8 \<noteq> 0 then d @ 0xDD # replicate (7 - length d mod 8) 0 else d)"

lemma length_padded: "length d \<le> length (padded ver d)" "length (padded ver d) \<le> length d + 7"
proof -
  have "length d mod 8 < 8" by simp
  then show "length d \<le> length (padded ver d)" "length (padded ver d) \<le> length d + 7" by (auto simp: padded_def)
qed

lemma protect_padded:
  assumes "length d \<le> 240"
  shows "protect_key_data al stk ver KEK iv (d @ replicate (512 - length d) 0) (length d) e =
    (if ver = KEY_DESC_AES then
       (case AES_Key_Wrap al stk (padded ver d @ replicate (512 - length (padded ver d)) 0) (length (padded ver d)) KEK 16 e 0 of
          (ret, e, n) \<Rightarrow> Some (e, n))
     else map_option (\<lambda>mem. (take (length e) mem, length d))
            (TKIP_GTK_KEY_WRAP (al 0) KEK iv (e @ d @ replicate (512 - length d) 0) (length e) (length d) 0))"
proof (cases "ver = KEY_DESC_AES \<and> length d mod 8 \<noteq> 0")
  case True
  let ?r = "length d mod 8"
  have r: "?r < 8" by simp
  define pad :: bytes where "pad = 0xDD # replicate (7 - ?r) 0"
  have lp: "length pad = 8 - ?r" using r by (simp add: pad_def)
  have w: "write_at (d @ replicate (512 - length d) 0) (length d) pad = (d @ pad) @ replicate (512 - length (d @ pad)) 0"
    using assms lp by (simp add: write_at_def)
  have p: "padded ver d = d @ pad" using True by (simp add: padded_def pad_def)
  have q: "0xDD # replicate (8 - ?r - 1) 0 = pad" by (simp add: pad_def)
  show ?thesis
    unfolding protect_key_data_def Let_def q w p using True lp by (simp add: split_beta)
next
  case False
  then show ?thesis by (auto simp: protect_key_data_def padded_def Let_def split: prod.splits)
qed

text \<open>The receiver recovers what was protected, whatever follows the data in its buffer.\<close>

lemma unprotect_protect:
  assumes "\<And>n. al n" and "alloc_ok (enAlloc env 2)" and "length stk = 16" and "length (enStack env) = 16"
    and "length d \<le> 240" and "length e = 512" and "ver = KEY_DESC_AES \<or> ver = KEY_DESC_TKIP" and "ptk_kek (mtPTK pEntry) = KEK"
  shows "\<exists>c. protect_key_data al stk ver KEK iv (d @ replicate (512 - length d) 0) (length d) e =
      Some (write_at e 0 c, length c) \<and> length c \<le> 255 \<and> length d \<le> length c \<and>
    (\<forall>r junk. kiKeyDescVer (epKeyInfo r) = ver \<longrightarrow> epKeyIv r = iv \<longrightarrow> epKeyData r = c @ junk \<longrightarrow> epKeyDataLen r = SET_UINT16_TO_ARRARY (length c) \<longrightarrow>
      unprotect_key_data env pEntry r (replicate 255 0) =
        Some (padded ver d @ replicate (255 - length (padded ver d)) 0, SET_UINT16_TO_ARRARY (length (padded ver d))))"
proof (cases "ver = KEY_DESC_AES")
  case True
  let ?p = "padded ver d" and ?K = "ptk_kek (mtPTK pEntry)"
  have lp: "length ?p \<le> 247" "length d \<le> length ?p" using length_padded [where d = d and ver = ver] assms(5) by simp_all
  have al: "alloc_ok al" using assms(1) by (simp add: alloc_ok_def)
  obtain c where c: "length c = length ?p + 8"
      "AES_Key_Wrap al stk (?p @ replicate (512 - length ?p) 0) (length ?p) ?K 16 e 0 = (0, write_at e 0 c, length ?p + 8)"
      "AES_Key_Unwrap (enAlloc env 2) (enStack env) c (length ?p + 8) ?K 16 (replicate 255 0) 0 =
        Some (0, write_at (replicate 255 0) 0 (take (length ?p) (?p @ replicate (512 - length ?p) 0)), length ?p)"
    using key_wrap_buffer [OF al assms(2,3,4), of "length ?p" "?p @ replicate (512 - length ?p) 0" e ?K 0 "replicate 255 0" 0] lp assms(6)
    by auto
  have "write_at (replicate 255 0) 0 ?p = ?p @ replicate (255 - length ?p) 0" by (simp add: write_at_def)
  then show ?thesis
    using c lp True assms(2,8) protect_padded [OF assms(5), of al stk ver KEK iv e]
    by (intro exI [of _ c]) (simp add: unprotect_key_data_def Let_def)
next
  case False
  have p: "padded ver d = d" using False by (simp add: padded_def)
  let ?c = "xor_bytes d (gtk_keystream KEK iv (length d))"
  have lc: "length ?c = length d" by simp
  have w: "TKIP_GTK_KEY_WRAP True KEK iv (e @ d @ replicate (512 - length d) 0) (length e) (length d) 0 =
      Some (write_at e 0 ?c @ d @ replicate (512 - length d) 0)"
    using assms(5,6) by (subst TKIP_GTK_KEY_WRAP_ok) (simp_all add: read_at_def write_at_def)
  have u: "TKIP_GTK_KEY_UNWRAP True KEK iv (replicate 255 0 @ ?c @ junk) 255 (length d) 0 =
      Some ((d @ replicate (255 - length d) 0) @ ?c @ junk)" for junk
    unfolding TKIP_GTK_KEY_UNWRAP_def
    using assms(5) by (subst TKIP_GTK_KEY_WRAP_ok) (simp_all add: read_at_def write_at_def)
  show ?thesis
    using protect_padded [OF assms(5), of al stk ver KEK iv e] w u assms(1,2,5-8) False lc
    by (intro exI [of _ ?c]) (auto simp: unprotect_key_data_def Let_def padded_def)
qed

section \<open>Parsing of the key data\<close>

text \<open>The element and the KDE that precede a group key, and the key data as a whole.\<close>

definition rsn_part :: "nat \<Rightarrow> bytes \<Rightarrow> u8 \<Rightarrow> bytes" where
  "rsn_part MsgType rsnie rl = (if MsgType = EAPOL_PAIR_MSG_3 \<and> rl \<noteq> 0 then [IE_RSN, rl] @ take (unat rl) rsnie else [])"

definition gtk_kde :: "u8 \<Rightarrow> nat \<Rightarrow> bytes \<Rightarrow> bytes" where
  "gtk_kde idx n GTK = WPA_ConstructKdeHdr KDE_GTK (of_nat (2 + n)) @ [idx AND 3, 0] @ take n GTK"

definition key_data :: "bool \<Rightarrow> nat \<Rightarrow> bytes \<Rightarrow> u8 \<Rightarrow> u8 \<Rightarrow> nat \<Rightarrow> bytes \<Rightarrow> bytes" where
  "key_data bWPA2 MsgType rsnie rl idx n GTK =
     rsn_part MsgType rsnie rl @ (if bWPA2 then gtk_kde idx n GTK else take n GTK)"

lemma parse_kdes_skip:
  assumes "buf = pre @ [eid, l] @ body @ post" and "length body = unat l" and "eid \<noteq> WPA_KDE_TYPE"
    and "length pre + 2 + unat l \<le> K" and "off = length pre"
  shows "parse_kdes buf K off v = parse_kdes buf K (off + 2 + unat l) v"
  using assms by (subst parse_kdes.simps) (simp add: parse_kde_def nth_append)

lemma parse_kdes_gtk:
  assumes "buf = pre @ gtk_kde idx n GTK @ post" and "n \<le> length GTK" and "5 \<le> n" and "n \<le> 32"
    and "length pre + 8 + n \<le> K" and "off = length pre"
  shows "parse_kdes buf K off v =
    parse_kdes buf K (off + 8 + n) (idx AND 3, write_at (fst (snd v)) 0 (take n GTK), of_nat n)"
proof -
  have u: "unat (of_nat n :: u8) = n" "unat (4 + of_nat (2 + n) :: u8) = n + 6"
    using assms(4) by (simp_all add: unat_of_nat unat_word_ariths)
  have g: "gtk_kde idx n GTK = [0xdd, 4 + of_nat (2 + n), 0x00, 0x0F, 0xAC, 1, idx AND 3, 0] @ take n GTK"
    by (simp add: gtk_kde_def WPA_ConstructKdeHdr_def)
  have l: "length (take n GTK) = n" using assms(2) by simp
  have le: "4 + of_nat (2 + n) - 6 = (of_nat n :: u8)" by simp
  have "buf ! (off + 1) = 4 + of_nat (2 + n)" "buf ! off = 0xdd" "buf ! (off + 5) = 1" "buf ! (off + 6) = idx AND 3"
    using assms(6) unfolding assms(1) g by (simp_all add: nth_append del: of_nat_add)
  moreover have "read_at (off + 2) 3 buf = [0x00, 0x0F, 0xAC]" "read_at (off + 8) n buf = take n GTK" "off + 8 + n \<le> length buf"
    using assms(2,6) l unfolding assms(1) g by (simp_all add: read_at_def)
  moreover have "\<not> (of_nat n :: u8) < 5" using u(1) assms(3) by (simp add: word_less_nat_alt)
  ultimately have "parse_kde buf off v = Some (Some (idx AND 3, write_at (fst (snd v)) 0 (take n GTK), of_nat n))"
    using u assms(4) le by (simp add: parse_kde_def Let_def)
  then show ?thesis
    using \<open>buf ! (off + 1) = _\<close> \<open>off + 8 + n \<le> length buf\<close> u(2) assms(5,6)
    by (subst parse_kdes.simps) (simp add: add.commute add.left_commute del: of_nat_add)
qed

lemma parse_kdes_padding:
  assumes "\<forall>i. off < i \<and> i < length buf \<longrightarrow> buf ! i = 0" and "K + 4 \<le> length buf" and "off \<le> K"
  shows "parse_kdes buf K off v = Some (Some v)"
  using assms
proof (induction "K - off" arbitrary: off rule: less_induct)
  case less
  have z: "buf ! Suc off = 0" using less.prems by simp
  show ?case
  proof (cases "off + 2 \<le> K")
    case True
    have "read_at (off + 2) 3 buf ! 1 = 0" "0x0F \<noteq> (0 :: u8)"
      using less.prems True by (simp_all add: nth_read_at)
    then have "read_at (off + 2) 3 buf \<noteq> OUI_WPA2" by (metis nth_Cons_0 nth_Cons_Suc One_nat_def)
    then have k: "parse_kde buf off v = Some (Some v)"
      using less.prems True by (simp add: parse_kde_def)
    have "parse_kdes buf K (off + 2) v = Some (Some v)"
      using less.prems True by (intro less.hyps) simp_all
    then show ?thesis using less.prems True z k by (subst parse_kdes.simps) simp
  next
    case False
    then show ?thesis using less.prems z by (subst parse_kdes.simps) simp
  qed
qed

lemma padded_zeros:
  obtains pad where "padded ver d = d @ pad" and "\<forall>i. 0 < i \<and> i < length pad \<longrightarrow> pad ! i = 0" and "length pad \<le> 8"
proof (cases "ver = KEY_DESC_AES \<and> length d mod 8 \<noteq> 0")
  case True
  show thesis
    by (rule that [of "0xDD # replicate (7 - length d mod 8) 0"]) (use True in \<open>auto simp: padded_def nth_Cons'\<close>)
next
  case False
  show thesis by (rule that [of "[]"]) (use False in \<open>auto simp: padded_def\<close>)
qed

lemma parse_key_data:
  fixes rl idx ver :: u8 and MsgType :: nat
  assumes "n \<le> length GTK" and "n = 16 \<or> n = 32" and "unat rl \<le> length rsnie" and "unat rl \<le> 190"
  defines "p \<equiv> padded ver (key_data True MsgType rsnie rl idx n GTK)"
  shows "parse_kdes (p @ replicate (255 - length p) 0) (length p) 0 (0, replicate 32 0, 0) =
    Some (Some (idx AND 3, take n GTK @ replicate (32 - n) 0, of_nat n))"
proof -
  let ?rsn = "rsn_part MsgType rsnie rl" and ?kde = "gtk_kde idx n GTK"
  let ?buf = "p @ replicate (255 - length p) 0"
  let ?off = "length ?rsn"
  have lr: "?off \<le> 192" using assms(3,4) by (simp add: rsn_part_def)
  have lk: "length ?kde = 8 + n" using assms(1) by (simp add: gtk_kde_def WPA_ConstructKdeHdr_def)
  obtain pad where p: "p = ?rsn @ ?kde @ pad" "\<forall>i. 0 < i \<and> i < length pad \<longrightarrow> pad ! i = 0" "length pad \<le> 8"
    unfolding p_def by (rule padded_zeros [of ver "key_data True MsgType rsnie rl idx n GTK"]) (simp add: key_data_def)
  have lp: "length p = ?off + 8 + n + length pad" "length p + 4 \<le> 255" using p lk lr assms(2) by auto
  have "parse_kdes ?buf (length p) 0 (0, replicate 32 0, 0) = parse_kdes ?buf (length p) ?off (0, replicate 32 0, 0)"
  proof (cases "MsgType = EAPOL_PAIR_MSG_3 \<and> rl \<noteq> 0")
    case True
    then have r: "?rsn = [48, rl] @ take (unat rl) rsnie" by (simp add: rsn_part_def)
    then have "?off = 2 + unat rl" using assms(3) by simp
    moreover have "parse_kdes ?buf (length p) 0 (0, replicate 32 0, 0) = parse_kdes ?buf (length p) (0 + 2 + unat rl) (0, replicate 32 0, 0)"
      using r p(1) assms(3) lp
      by (intro parse_kdes_skip [of _ "[]" 48 rl "take (unat rl) rsnie" "?kde @ pad @ replicate (255 - length p) 0"]) simp_all
    ultimately show ?thesis by simp
  next
    case False
    then have "?rsn = []" by (auto simp: rsn_part_def)
    then show ?thesis by simp
  qed
  also have "\<dots> = parse_kdes ?buf (length p) (?off + 8 + n) (idx AND 3, write_at (replicate 32 0) 0 (take n GTK), of_nat n)"
    using parse_kdes_gtk [of ?buf ?rsn idx n GTK "pad @ replicate (255 - length p) 0" "length p" ?off] p(1) lp assms(1,2) by auto
  also have "\<dots> = Some (Some (idx AND 3, write_at (replicate 32 0) 0 (take n GTK), of_nat n))"
  proof (rule parse_kdes_padding)
    have "p ! i = 0" if "?off + 8 + n < i" "i < length p" for i
    proof -
      have "p ! i = pad ! (i - (?off + 8 + n))" unfolding p(1) using that(1) lk by (auto simp: nth_append add.assoc)
      then show ?thesis using p(2) that lp(1) by simp
    qed
    then show "\<forall>i. ?off + 8 + n < i \<and> i < length ?buf \<longrightarrow> ?buf ! i = 0" by (auto simp: nth_append)
  qed (use lp in simp_all)
  finally show ?thesis using assms(1,2) by (auto simp: write_at_def)
qed

section \<open>A frame with a group key\<close>

text \<open>The messages that carry a group key, and what their construction needs.\<close>

definition gtk_message :: "mac_entry \<Rightarrow> nat \<Rightarrow> bool" where
  "gtk_message pEntry MsgType \<longleftrightarrow> MsgType = EAPOL_PAIR_MSG_3 \<and> is_wpa2 pEntry \<or> MsgType = EAPOL_GROUP_MSG_1"

definition gtk_length :: "nat \<Rightarrow> nat" where
  "gtk_length GroupKeyWepStatus = (if GroupKeyWepStatus = Ndis802_11AESEnable then LEN_TK else LEN_TKIP_GTK)"

lemma RTMPInsertRSNIE_rsn:
  assumes "rl \<noteq> 0" and "read_at 2 3 rsnie = OUI_WPA2" and "unat rl \<le> length rsnie"
  shows "RTMPInsertRSNIE (replicate 512 0) 0 rsnie rl [] 0 =
    (rsn_part EAPOL_PAIR_MSG_3 rsnie rl @ replicate (512 - (2 + unat rl)) 0, 2 + unat rl)"
  using assms by (simp add: RTMPInsertRSNIE_def Let_def write_at_def rsn_part_def)

lemma insert_gtk_key_data:
  assumes "n \<le> length GTK" and "n \<le> 32" and "length d \<le> 200"
  shows "insert_gtk bWPA2 n idx GTK (d @ replicate (512 - length d) 0) (length d) =
    (let k = d @ (if bWPA2 then gtk_kde idx n GTK else take n GTK) in (k @ replicate (512 - length k) 0, length k))"
proof -
  have w: "write_at (xs @ replicate (512 - length xs) 0) (length xs) ys = (xs @ ys) @ replicate (512 - length (xs @ ys)) 0"
    if "length (xs @ ys) \<le> 512" for xs ys :: bytes
    using that by (simp add: write_at_def)
  define h where "h = WPA_ConstructKdeHdr KDE_GTK (of_nat (2 + n)) @ [idx AND 0x03, 0x00]"
  have lh: "length h = 8" by (simp add: h_def WPA_ConstructKdeHdr_def)
  show ?thesis
  proof (cases bWPA2)
    case True
    have "insert_gtk bWPA2 n idx GTK (d @ replicate (512 - length d) 0) (length d) =
        (write_at (write_at (d @ replicate (512 - length d) 0) (length d) h) (length (d @ h)) (take n GTK), length (d @ h) + n)"
      using True lh by (simp add: insert_gtk_def h_def)
    also have "\<dots> = (((d @ h) @ take n GTK) @ replicate (512 - length ((d @ h) @ take n GTK)) 0, length (d @ h) + n)"
      using assms lh w [of d h] w [of "d @ h" "take n GTK"] by simp
    finally show ?thesis using True lh assms by (simp add: gtk_kde_def h_def Let_def)
  next
    case False
    then show ?thesis using w [of d "take n GTK"] assms by (simp add: insert_gtk_def Let_def)
  qed
qed

lemma ConstructEapolKeyData_gtk:
  assumes "gtk_message pEntry MsgType" and "al 0" and "read_at 2 3 rsnie = OUI_WPA2" and "unat rl \<le> length rsnie" and "unat rl \<le> 190"
    and "gtk_length g \<le> length GTK"
  shows "ConstructEapolKeyData al stk e pEntry g ver MsgType idx (Some GTK) (Some rsnie) rl f =
    (let d = key_data (is_wpa2 pEntry) MsgType rsnie rl idx (gtk_length g) GTK
     in case protect_key_data (\<lambda>n. al (Suc n)) stk ver (ptk_kek (mtPTK pEntry)) (epKeyIv f) (d @ replicate (512 - length d) 0) (length d) e of
          None \<Rightarrow> None
        | Some (c, n) \<Rightarrow> eapol_set_data f c n)"
proof -
  let ?r = "rsn_part MsgType rsnie rl"
  have lr: "length ?r \<le> 192" using assms(4,5) by (simp add: rsn_part_def)
  have ins: "(if rl \<noteq> 0 \<and> (MsgType = EAPOL_PAIR_MSG_2 \<or> MsgType = EAPOL_PAIR_MSG_3)
      then map_option (\<lambda>r. RTMPInsertRSNIE (replicate 512 0) 0 r rl [] 0) (Some rsnie)
      else Some (replicate 512 0, 0)) = Some (?r @ replicate (512 - length ?r) 0, length ?r)"
    using assms(1) RTMPInsertRSNIE_rsn [of rl rsnie] assms(3,4) by (auto simp: gtk_message_def rsn_part_def)
  have g: "(if g = Ndis802_11AESEnable then LEN_TK else LEN_TKIP_GTK) = gtk_length g" by (simp add: gtk_length_def)
  have gl: "gtk_length g \<le> 32" by (simp add: gtk_length_def)
  have c: "\<not> (MsgType = EAPOL_PAIR_MSG_1 \<or> MsgType = EAPOL_PAIR_MSG_4 \<or> MsgType = EAPOL_GROUP_MSG_2)"
      "MsgType = EAPOL_PAIR_MSG_3 \<and> is_wpa2 pEntry \<or> MsgType = EAPOL_GROUP_MSG_1"
    using assms(1) by (auto simp: gtk_message_def)
  show ?thesis
    unfolding ConstructEapolKeyData_def Let_def ins option.case prod.case g
    using c assms(2,6) gl lr insert_gtk_key_data [of "gtk_length g" GTK ?r "is_wpa2 pEntry" idx]
    by (simp add: key_data_def Let_def)
qed

text \<open>The MIC of the standard: HMAC-SHA1 cut to 16 bytes, or HMAC-MD5, with the first 16 bytes of the PTK as the key.\<close>

definition mic_spec :: "u8 \<Rightarrow> bytes \<Rightarrow> bytes \<Rightarrow> bytes" where
  "mic_spec ver PTK m =
     (if ver = KEY_DESC_AES then take 16 (hmac_spec sha1_spec (take 16 PTK) m) else hmac_spec md5_spec (take 16 PTK) m)"

lemma rt_hmac_take:
  "rt_hmac Init Append End Oneshot D PTK 16 m n k = rt_hmac Init Append End Oneshot D (take 16 PTK) 16 m n k"
  by (simp add: rt_hmac_def word_le_nat_alt)

lemma eapol_mic_spec:
  assumes "16 \<le> length PTK" and "length m + 64 \<le> 2 ^ 32" and "ver = KEY_DESC_AES \<or> ver = KEY_DESC_TKIP"
  shows "eapol_mic al ver PTK m (length m) = Some (mic_spec ver PTK m)"
proof -
  have k: "length (take 16 PTK) = 16" "length (take 16 PTK) + 64 \<le> 2 ^ 32" using assms(1) by simp_all
  have s: "length (hmac_spec md5_spec (take 16 PTK) m) = 16"
    by (simp add: hmac_spec_def Let_def md5_module.length_H)
  have t: "length (hmac_spec sha1_spec (take 16 PTK) m) = 20"
    by (simp add: hmac_spec_def Let_def sha1_module.length_H)
  show ?thesis
    using sha1_module.rt_hmac_spec [OF k(2) assms(2), of 20] md5_module.rt_hmac_spec [OF k(2) assms(2), of 16] assms(3) k(1) s t
    by (auto simp: eapol_mic_def mic_spec_def RT_HMAC_SHA1_def RT_HMAC_MD5_def
        rt_hmac_take [of _ _ _ _ _ PTK])
qed

lemma length_mic_spec [simp]: "length (mic_spec ver PTK m) = 16"
  by (simp add: mic_spec_def hmac_spec_def Let_def md5_module.length_H sha1_module.length_H)

text \<open>The frame with the fields that precede the key data.\<close>

definition eapol_fields :: "mac_entry \<Rightarrow> nat \<Rightarrow> nat \<Rightarrow> u8 \<Rightarrow> bytes \<Rightarrow> bytes \<Rightarrow> eapol_packet \<Rightarrow> eapol_packet" where
  "eapol_fields pEntry g MsgType idx nonce rsc f =
     f\<lparr>epProVer := 1, epProType := 3, epBody_Len := SET_UINT16_TO_ARRARY 95,
       epType := (if is_wpa2 pEntry then 0x02 else 0xfe),
       epKeyInfo := eapol_key_info (is_wpa2 pEntry) (eapol_key_desc_ver pEntry g) MsgType idx (epKeyInfo f),
       epKeyLength := eapol_key_length pEntry g MsgType (epKeyLength f),
       epReplayCounter := mtR_Counter pEntry,
       epKeyNonce := (if MsgType \<le> EAPOL_PAIR_MSG_3 \<or> \<not> is_wpa2 pEntry then take 32 nonce else epKeyNonce f),
       epKeyIv := (if is_wpa2 pEntry then epKeyIv f else (read_at 16 16 nonce)[15 := read_at 16 16 nonce ! 15 + 2]),
       epKeyRsc := write_at (epKeyRsc f) 0 (take 6 rsc),
       epKeyMic := replicate 16 0\<rparr>"

lemma eapol_fields_wf:
  assumes "eapol_wf f" and "length nonce = 32" and "length rsc = 6" and "length (mtR_Counter pEntry) = 8"
  shows "eapol_wf (eapol_fields pEntry g MsgType idx nonce rsc f)"
proof -
  have "x AND 3 < 4" "x AND 7 < 8" for x :: u8
    using word_and_le1 [of x 3] word_and_le1 [of x 7] by (auto simp: word_less_nat_alt word_le_nat_alt)
  then show ?thesis
    using assms by (auto simp: eapol_wf_def eapol_fields_def eapol_key_info_def eapol_key_length_def Let_def)
qed

lemma ConstructEapolMsg_gtk:
  assumes "gtk_message pEntry MsgType"
  shows "ConstructEapolMsg al stk e pEntry g MsgType idx (Some nonce) (Some rsc) (Some GTK) (Some rsnie) rl f =
    (case ConstructEapolKeyData (al 0) stk e pEntry g (eapol_key_desc_ver pEntry g) MsgType idx (Some GTK) (Some rsnie) rl
            (eapol_fields pEntry g MsgType idx nonce rsc f) of
       None \<Rightarrow> None
     | Some f \<Rightarrow> CalculateMIC (al 1) (eapol_key_desc_ver pEntry g) (mtPTK pEntry) f)"
proof -
  have m: "(if MsgType \<noteq> EAPOL_PAIR_MSG_1 then a else b) = a" for a b :: "eapol_packet option"
    using assms by (auto simp: gtk_message_def)
  show ?thesis
    unfolding ConstructEapolMsg_def Let_def m using assms by (auto simp: gtk_message_def eapol_fields_def)
qed

text \<open>The frame after the key data \<open>c\<close> has been set, and its MIC.\<close>

definition eapol_with_data :: "eapol_packet \<Rightarrow> bytes \<Rightarrow> bytes \<Rightarrow> eapol_packet" where
  "eapol_with_data f c rest =
     f\<lparr>epKeyData := c @ rest, epKeyDataLen := SET_UINT16_TO_ARRARY (length c), epBody_Len := SET_UINT16_TO_ARRARY (95 + length c)\<rparr>"

lemma eapol_with_data_wf: "eapol_wf f \<Longrightarrow> eapol_wf (eapol_with_data f c rest)"
  by (simp add: eapol_wf_def eapol_with_data_def)

lemma eapol_set_data_ok:
  assumes "epBody_Len f = SET_UINT16_TO_ARRARY 95" and "length c \<le> 255" and "255 \<le> length (epKeyData f)" and "length c \<le> length e"
  shows "eapol_set_data f (write_at e 0 c) (length c) = Some (eapol_with_data f c (drop (length c) (epKeyData f)))"
  using assms by (simp add: eapol_set_data_def eapol_with_data_def INC_UINT16_TO_ARRARY_def write_at_def)

lemma CalculateMIC_ok:
  assumes "al 0" and "eapol_wf f" and "length c \<le> 255" and "16 \<le> length PTK" and "ver = KEY_DESC_AES \<or> ver = KEY_DESC_TKIP"
    and "f' = eapol_with_data f c rest"
  shows "CalculateMIC al ver PTK f' = Some (f'\<lparr>epKeyMic := mic_spec ver PTK (eapol_header f' @ c)\<rparr>)"
proof -
  have w: "eapol_wf f'" using assms(2,6) by (simp add: eapol_with_data_wf)
  have b: "eapol_bytes f' = (eapol_header f' @ c) @ rest" by (simp add: eapol_bytes_header assms(6) eapol_with_data_def)
  have n: "CONV_ARRARY_TO_UINT16 (epBody_Len f') + 4 = length (eapol_header f' @ c)"
    using length_eapol_header [OF w] assms(3,6) by (simp add: eapol_with_data_def)
  have l: "length (eapol_header f' @ c) \<le> 512" using length_eapol_header [OF w] assms(3) by simp
  have "eapol_mic (\<lambda>n. al (Suc n)) ver PTK (eapol_header f' @ c) (length (eapol_header f' @ c)) =
      Some (mic_spec ver PTK (eapol_header f' @ c))"
    using assms(4,5) l by (intro eapol_mic_spec) simp_all
  then show ?thesis
    using assms(1) l unfolding CalculateMIC_def Let_def n b by simp
qed

text \<open>What arrives is the sent part of the frame, followed by whatever is in the buffer of the receiver.\<close>

lemma eapol_sent:
  assumes "eapol_wf f" and "length m = 16" and "length c \<le> 255" and "f' = (eapol_with_data f c rest)\<lparr>epKeyMic := m\<rparr>"
  shows "eapol_of_bytes (take (CONV_ARRARY_TO_UINT16 (epBody_Len f') + 4) (eapol_bytes f') @ junk) =
    (eapol_with_data f c junk)\<lparr>epKeyMic := m\<rparr>"
proof -
  have w: "eapol_wf f'" using assms(1,2,4) by (simp add: eapol_wf_def eapol_with_data_def)
  have "eapol_bytes f' = (eapol_header f' @ c) @ rest" by (simp add: eapol_bytes_header assms(4) eapol_with_data_def)
  moreover have "CONV_ARRARY_TO_UINT16 (epBody_Len f') + 4 = length (eapol_header f' @ c)"
    using length_eapol_header [OF w] assms(3,4) by (simp add: eapol_with_data_def)
  ultimately have "take (CONV_ARRARY_TO_UINT16 (epBody_Len f') + 4) (eapol_bytes f') @ junk = eapol_header f' @ c @ junk"
    by simp
  then show ?thesis
    using eapol_of_header [OF w, of "c @ junk"] by (simp add: assms(4) eapol_with_data_def)
qed

lemma received_mic_ok:
  assumes "eapol_wf f" and "epKeyMic f = replicate 16 0" and "length c \<le> 255" and "16 \<le> length (mtPTK pEntry)"
    and "kiKeyDescVer (epKeyInfo f) = ver" and "ver = KEY_DESC_AES \<or> ver = KEY_DESC_TKIP"
  shows "received_mic env pEntry ((eapol_with_data f c junk)\<lparr>epKeyMic := m\<rparr>) =
    Some (mic_spec ver (mtPTK pEntry) (eapol_header (eapol_with_data f c rest) @ c))"
proof -
  let ?r = "eapol_with_data f c junk" and ?h = "eapol_header (eapol_with_data f c rest)"
  have r: "?r\<lparr>epKeyMic := m, epKeyMic := replicate 16 0\<rparr> = ?r" by (simp add: eapol_with_data_def assms(2) flip: assms(2))
  have h: "eapol_header ?r = ?h" by (simp add: eapol_header_def eapol_with_data_def)
  have b: "eapol_bytes ?r = (?h @ c) @ junk" by (simp add: eapol_bytes_header h) (simp add: eapol_with_data_def)
  have l: "length ?h = 99" using length_eapol_header eapol_with_data_wf [OF assms(1)] by simp
  have n: "CONV_ARRARY_TO_UINT16 (epBody_Len ?r) + 4 = length (?h @ c)" using l assms(3) by (simp add: eapol_with_data_def)
  have v: "kiKeyDescVer (epKeyInfo ?r) = ver" using assms(5) by (simp add: eapol_with_data_def)
  have "eapol_mic (enAlloc env 1) ver (mtPTK pEntry) (?h @ c) (length (?h @ c)) = Some (mic_spec ver (mtPTK pEntry) (?h @ c))"
    using assms(3,4,6) l by (intro eapol_mic_spec) simp_all
  then show ?thesis
    unfolding received_mic_def Let_def r b using n v by simp
qed

text \<open>The adapter after the installation of a group key.\<close>

definition gtk_installed :: "bytes \<Rightarrow> wpa_adapter \<Rightarrow> u8 \<Rightarrow> bytes \<Rightarrow> wpa_adapter" where
  "gtk_installed rnd pAd k gtk =
     WPAInstallSharedKey rnd (pAd\<lparr>waGTK := write_at (waGTK pAd) 0 gtk, waDefaultKeyId := k\<rparr>) (waGroupCipher pAd) 0 k MCAST_WCID False
       (write_at (waGTK pAd) 0 gtk) (of_nat (length gtk))"

lemma sanity_key_data_gtk:
  fixes idx rl :: u8
  assumes "gtk_message pEntry MsgType" and "n = 16 \<or> n = 32" and "n \<le> length GTK" and "unat rl \<le> length rsnie" and "unat rl \<le> 190"
    and p: "p = padded ver (key_data (is_wpa2 pEntry) MsgType rsnie rl idx n GTK)"
    and "unprotect_key_data env pEntry r (replicate 255 0) = Some (p @ replicate (255 - length p) 0, SET_UINT16_TO_ARRARY (length p))"
    and "0 < CONV_ARRARY_TO_UINT16 (epKeyDataLen r)" and "\<not> is_wpa2 pEntry \<Longrightarrow> kiKeyIndex (epKeyInfo r) = idx AND 3"
    and "length p \<le> 255"
  shows "sanity_key_data env pAd r MsgType pEntry =
    Some (True, gtk_installed (enRandom env) pAd (idx AND 3) (take n GTK), r\<lparr>epKeyDataLen := SET_UINT16_TO_ARRARY (length p)\<rparr>)"
proof -
  have i: "\<not> idx AND 3 > 3" using word_and_le1 [of idx 3] by (simp add: not_less)
  have u: "unat (of_nat n :: u8) = n" "unat (of_nat (length p) :: u8) = length p" using assms(2,10) by (auto simp: unat_of_nat)
  have "RTMPParseEapolKeyData (enRandom env) pAd (p @ replicate (255 - length p) 0) (of_nat (length p))
      (if \<not> is_wpa2 pEntry \<and> MsgType = EAPOL_GROUP_MSG_1 then kiKeyIndex (epKeyInfo r) else 0) MsgType (is_wpa2 pEntry) =
    Some (True, gtk_installed (enRandom env) pAd (idx AND 3) (take n GTK))"
  proof (cases "is_wpa2 pEntry")
    case True
    then show ?thesis
      using parse_key_data [OF assms(3,2,4,5), of ver MsgType idx] p assms(1,3) i u
      by (auto simp: RTMPParseEapolKeyData_def gtk_message_def gtk_installed_def)
  next
    case False
    then have m: "MsgType = EAPOL_GROUP_MSG_1" using assms(1) by (simp add: gtk_message_def)
    have "p = take n GTK" using False m p assms(2,3) by (auto simp: key_data_def rsn_part_def padded_def)
    then show ?thesis
      using False m assms(2,3,9) i u by (auto simp: RTMPParseEapolKeyData_def gtk_installed_def write_at_def)
  qed
  then show ?thesis
    using assms(1,7,8,10) unfolding sanity_key_data_def Let_def gtk_message_def by simp
qed

section \<open>Transmission and reception\<close>

lemma be_val_zeros [simp]: "be_val (replicate n 0) = 0"
  by (induction n) simp_all

lemma construct_gtk:
  fixes idx rl :: u8
  assumes "gtk_message pEntry MsgType" and "\<And>i n. al i n" and "eapol_wf f" and "255 \<le> length (epKeyData f)"
    and "length nonce = 32" and "length rsc = 6" and "length (mtR_Counter pEntry) = 8" and "16 \<le> length (mtPTK pEntry)"
    and "gtk_length g \<le> length GTK" and "read_at 2 3 rsnie = OUI_WPA2" and "unat rl \<le> length rsnie" and "unat rl \<le> 190"
    and "d = key_data (is_wpa2 pEntry) MsgType rsnie rl idx (gtk_length g) GTK" and "ver = eapol_key_desc_ver pEntry g"
    and "f1 = eapol_fields pEntry g MsgType idx nonce rsc f"
    and "protect_key_data (\<lambda>n. al 0 (Suc n)) stk ver (ptk_kek (mtPTK pEntry)) (epKeyIv f1) (d @ replicate (512 - length d) 0) (length d) e =
      Some (write_at e 0 c, length c)" and "length c \<le> 255" and "length c \<le> length e"
  shows "\<exists>rest. ConstructEapolMsg al stk e pEntry g MsgType idx (Some nonce) (Some rsc) (Some GTK) (Some rsnie) rl f =
    Some ((eapol_with_data f1 c rest)\<lparr>epKeyMic := mic_spec ver (mtPTK pEntry) (eapol_header (eapol_with_data f1 c rest) @ c)\<rparr>)"
proof -
  let ?f2 = "eapol_with_data f1 c (drop (length c) (epKeyData f1))"
  have v: "ver = KEY_DESC_AES \<or> ver = KEY_DESC_TKIP" by (simp add: assms(14) eapol_key_desc_ver_def)
  have wf: "eapol_wf f1" using assms by (simp add: eapol_fields_wf)
  have f1: "epBody_Len f1 = SET_UINT16_TO_ARRARY 95" "255 \<le> length (epKeyData f1)"
    using assms(4,15) by (simp_all add: eapol_fields_def)
  have "ConstructEapolKeyData (al 0) stk e pEntry g ver MsgType idx (Some GTK) (Some rsnie) rl f1 = Some ?f2"
    using ConstructEapolKeyData_gtk [where al = "al 0" and stk = stk and e = e and ver = ver and idx = idx and f = f1,
        OF assms(1,2,10-12,9)] assms(13,16-18) f1 eapol_set_data_ok [of f1 c e] by (simp add: Let_def)
  moreover have "CalculateMIC (al 1) ver (mtPTK pEntry) ?f2 =
      Some (?f2\<lparr>epKeyMic := mic_spec ver (mtPTK pEntry) (eapol_header ?f2 @ c)\<rparr>)"
    by (rule CalculateMIC_ok [OF assms(2) wf assms(17,8) v refl])
  ultimately show ?thesis
    using ConstructEapolMsg_gtk [OF assms(1)] assms(14,15) by auto
qed

lemma receive_gtk:
  fixes idx rl :: u8
  assumes "gtk_message pEntry MsgType" and "enAlloc env 0 0" and "eapol_wf f1" and "length c \<le> 255" and "0 < length c"
    and "epKeyMic f1 = replicate 16 0" and "kiKeyDescVer (epKeyInfo f1) = ver" and "ver = KEY_DESC_AES \<or> ver = KEY_DESC_TKIP"
    and "\<not> is_wpa2 pEntry \<Longrightarrow> kiKeyIndex (epKeyInfo f1) = idx AND 3" and "16 \<le> length (mtPTK pEntry)"
    and "length (mtR_Counter pEntry) = 8" and "be_val (mtR_Counter pEntry) < be_val (epReplayCounter f1)"
    and "n = 16 \<or> n = 32" and "n \<le> length GTK" and "unat rl \<le> length rsnie" and "unat rl \<le> 190"
    and "p = padded ver (key_data (is_wpa2 pEntry) MsgType rsnie rl idx n GTK)" and "length p \<le> 255"
    and "\<And>r. kiKeyDescVer (epKeyInfo r) = ver \<Longrightarrow> epKeyIv r = epKeyIv f1 \<Longrightarrow> epKeyData r = c @ junk \<Longrightarrow>
      epKeyDataLen r = SET_UINT16_TO_ARRARY (length c) \<Longrightarrow>
      unprotect_key_data env pEntry r (replicate 255 0) = Some (p @ replicate (255 - length p) 0, SET_UINT16_TO_ARRARY (length p))"
    and "r = (eapol_with_data f1 c junk)\<lparr>epKeyMic := mic_spec ver (mtPTK pEntry) (eapol_header (eapol_with_data f1 c rest) @ c)\<rparr>"
  shows "\<exists>r'. PeerWpaMessageSanity env pAd r MsgType pEntry =
    Some (True, gtk_installed (enRandom env) pAd (idx AND 3) (take n GTK), r')"
proof -
  have lr: "length (epReplayCounter f1) = 8" using assms(3) by (simp add: eapol_wf_def)
  have rm: "received_mic env pEntry r = Some (epKeyMic r)"
    unfolding assms(20) using received_mic_ok [where junk = junk and rest = rest, OF assms(3,6,4,10,7,8)] by simp
  have rep: "\<not> replay_differs pEntry MsgType r"
    using assms(1,11,12) lr by (auto simp: replay_differs_def gtk_message_def assms(20) eapol_with_data_def RTMPCompareMemory_be_val)
  have "sanity_key_data env pAd (r\<lparr>epKeyMic := replicate 16 0\<rparr>) MsgType pEntry =
     Some (True, gtk_installed (enRandom env) pAd (idx AND 3) (take n GTK),
       r\<lparr>epKeyMic := replicate 16 0, epKeyDataLen := SET_UINT16_TO_ARRARY (length p)\<rparr>)"
    using assms(4,5,7,9,18,19) unfolding assms(20)
    by (intro sanity_key_data_gtk [OF assms(1,13-17)]) (auto simp: eapol_with_data_def)
  then show ?thesis
    using assms(1,2) rep rm unfolding PeerWpaMessageSanity_def by (auto simp: gtk_message_def)
qed

lemma received_mic_spec:
  assumes "received_mic env pEntry pMsg = Some mic" and "16 \<le> length (mtPTK pEntry)"
    and "kiKeyDescVer (epKeyInfo pMsg) = ver" and "ver = KEY_DESC_AES \<or> ver = KEY_DESC_TKIP"
  shows "mic = mic_spec ver (mtPTK pEntry)
    (take (CONV_ARRARY_TO_UINT16 (epBody_Len pMsg) + 4) (eapol_bytes (pMsg\<lparr>epKeyMic := replicate 16 0\<rparr>)))"
proof -
  let ?len = "CONV_ARRARY_TO_UINT16 (epBody_Len pMsg) + 4" and ?b = "eapol_bytes (pMsg\<lparr>epKeyMic := replicate 16 0\<rparr>)"
  have "CONV_ARRARY_TO_UINT16 (epBody_Len pMsg) < 65536"
    using unsigned_less [of "epBody_Len pMsg ! 0", where 'a = nat] unsigned_less [of "epBody_Len pMsg ! 1", where 'a = nat]
    by (simp add: CONV_ARRARY_TO_UINT16_def)
  then have "eapol_mic (enAlloc env 1) ver (mtPTK pEntry) (take ?len ?b) (length (take ?len ?b)) =
      Some (mic_spec ver (mtPTK pEntry) (take ?len ?b))" if "?len \<le> length ?b"
    using assms(2,4) by (intro eapol_mic_spec) simp_all
  then show ?thesis
    using assms(1,3) by (auto simp: received_mic_def Let_def min_def split: if_splits)
qed

section \<open>Samples\<close>

definition sample_entry :: mac_entry where
  "sample_entry = zero_entry\<lparr>mtEntryType := ENTRY_CLIENT, mtSst := SST_ASSOC, mtWpaState := AS_INITPSK, mtAuthMode := Ndis802_11AuthModeWPA2PSK, mtWepStatus := Ndis802_11AESEnable,
     mtPTK := replicate 64 3, mtR_Counter := [0, 0, 0, 0, 0, 0, 0, 1]\<rparr>"

definition sample_env :: wpa_env where
  "sample_env = \<lparr>enAlloc = \<lambda>i n. True, enUptime = \<lambda>n. 0, enStack = replicate 16 0, enPool = replicate 512 0,
     enPTK = replicate 80 0, enTxTsc = replicate 6 0, enRandom = replicate 3 0, enSendOk = True\<rparr>"

definition sample_adapter :: wpa_adapter where
  "sample_adapter =
     \<lparr>waMacTab = \<lparr>tbHash = replicate 256 (Some 1), tbContent = replicate 2 sample_entry, tbSize = 1\<rparr>,
      waCurrentAddress = [0, 1, 2, 3, 4, 5], waPMK = replicate 32 0, waGroupCipher = Ndis802_11AESEnable, waRSN_IE = replicate 255 0,
      waRSNIE_Len = 0, waGTK = replicate 32 0, waPTK = replicate 64 0, waDefaultKeyId = 0, waPortSecured = WPA_802_1X_PORT_NOT_SECURED,
      waSharedKey = replicate 4 zero_cipher_key, waMlmeChannel = 1, waChannel = 1, waInfraOn = True, waConnected = False,
      waScanning = False, waResetting = False, waHalting = False, waEvents = []\<rparr>"

lemmas sample_defs = zero_frame_def sample_entry_def sample_env_def sample_adapter_def zero_entry_def

definition sample_message_4 :: eapol_packet where
  "sample_message_4 =
     (let f = zero_frame\<lparr>epBody_Len := [0, 95], epReplayCounter := mtR_Counter sample_entry,
                epKeyInfo := (epKeyInfo zero_frame)\<lparr>kiKeyDescVer := 2\<rparr>\<rparr>
      in f\<lparr>epKeyMic := mic_spec KEY_DESC_AES (mtPTK sample_entry) (take 99 (eapol_bytes f))\<rparr>)"

section \<open>Properties\<close>

text \<open>
  (C3) A message with a group key (message 3 of a WPA2 handshake, message 1 of a group handshake) built by
  \<open>ConstructEapolMsg\<close>, and received by a peer with the same PTK and an older replay counter in a buffer with arbitrary content
  behind it, passes \<open>PeerWpaMessageSanity\<close>: the MIC is the one expected, and the group key and its index, protected with the AES
  key wrap or with ARC4, are recovered and installed.
\<close>

theorem PeerWpaMessageSanity_ConstructEapolMsg:
  fixes idx rl :: u8
  assumes "gtk_message tx MsgType" and "is_wpa2 rx = is_wpa2 tx" and "mtPTK rx = mtPTK tx" and "16 \<le> length (mtPTK tx)"
    and "length (mtR_Counter tx) = 8" and "length (mtR_Counter rx) = 8" and "be_val (mtR_Counter rx) < be_val (mtR_Counter tx)"
    and "\<And>i n. al i n" and "enAlloc env 0 0" and "alloc_ok (enAlloc env 2)"
    and "length stk = 16" and "length (enStack env) = 16" and "length e = 512"
    and "eapol_wf f" and "255 \<le> length (epKeyData f)" and "length nonce = 32" and "length rsc = 6"
    and "gtk_length g \<le> length GTK" and "read_at 2 3 rsnie = OUI_WPA2" and "unat rl \<le> length rsnie" and "unat rl \<le> 190"
  shows "\<exists>sent r. ConstructEapolMsg al stk e tx g MsgType idx (Some nonce) (Some rsc) (Some GTK) (Some rsnie) rl f = Some sent \<and>
    PeerWpaMessageSanity env pAd
      (eapol_of_bytes (take (CONV_ARRARY_TO_UINT16 (epBody_Len sent) + 4) (eapol_bytes sent) @ junk)) MsgType rx =
    Some (True, gtk_installed (enRandom env) pAd (idx AND 3) (take (gtk_length g) GTK), r)"
proof -
  let ?ver = "eapol_key_desc_ver tx g" and ?n = "gtk_length g"
  define f1 where "f1 = eapol_fields tx g MsgType idx nonce rsc f"
  define d where "d = key_data (is_wpa2 tx) MsgType rsnie rl idx ?n GTK"
  have n: "?n = 16 \<or> ?n = 32" by (simp add: gtk_length_def)
  have ver: "?ver = KEY_DESC_AES \<or> ?ver = KEY_DESC_TKIP" by (simp add: eapol_key_desc_ver_def)
  have ld: "length d \<le> 232" "0 < length d"
    using n assms(18,20,21) by (auto simp: d_def key_data_def rsn_part_def gtk_kde_def WPA_ConstructKdeHdr_def)
  have lp: "length (padded ?ver d) \<le> 255" using length_padded [where d = d and ver = ?ver] ld by simp
  have wf: "eapol_wf f1" using assms by (simp add: f1_def eapol_fields_wf)
  have f1: "epKeyMic f1 = replicate 16 0" "epReplayCounter f1 = mtR_Counter tx" "kiKeyDescVer (epKeyInfo f1) = ?ver"
      "\<not> is_wpa2 tx \<Longrightarrow> kiKeyIndex (epKeyInfo f1) = idx AND 3"
    using assms(1) ver by (auto simp: f1_def eapol_fields_def eapol_key_info_def gtk_message_def)
  have k: "ptk_kek (mtPTK rx) = ptk_kek (mtPTK tx)" and m: "gtk_message rx MsgType" using assms(1-3) by (simp_all add: gtk_message_def)
  obtain c where c: "protect_key_data (\<lambda>n. al 0 (Suc n)) stk ?ver (ptk_kek (mtPTK tx)) (epKeyIv f1)
        (d @ replicate (512 - length d) 0) (length d) e = Some (write_at e 0 c, length c)" "length c \<le> 255" "length d \<le> length c"
      "\<And>r junk. kiKeyDescVer (epKeyInfo r) = ?ver \<Longrightarrow> epKeyIv r = epKeyIv f1 \<Longrightarrow> epKeyData r = c @ junk \<Longrightarrow>
         epKeyDataLen r = SET_UINT16_TO_ARRARY (length c) \<Longrightarrow> unprotect_key_data env rx r (replicate 255 0) =
           Some (padded ?ver d @ replicate (255 - length (padded ?ver d)) 0, SET_UINT16_TO_ARRARY (length (padded ?ver d)))"
    using unprotect_protect [where al = "\<lambda>n. al 0 (Suc n)" and iv = "epKeyIv f1", OF assms(8,10-12) _ assms(13) ver k, of d] ld(1) by auto
  have lc: "0 < length c" using c(3) ld(2) by linarith
  let ?mic = "\<lambda>rest. mic_spec ?ver (mtPTK tx) (eapol_header (eapol_with_data f1 c rest) @ c)"
  obtain rest where con: "ConstructEapolMsg al stk e tx g MsgType idx (Some nonce) (Some rsc) (Some GTK) (Some rsnie) rl f =
      Some ((eapol_with_data f1 c rest)\<lparr>epKeyMic := ?mic rest\<rparr>)"
    using construct_gtk [where al = al and ver = ?ver and c = c and e = e, OF assms(1,8,14-17,5,4,18-21) d_def refl f1_def c(1,2)]
      c(2) assms(13) by auto
  have "\<exists>r. PeerWpaMessageSanity env pAd ((eapol_with_data f1 c junk)\<lparr>epKeyMic := ?mic rest\<rparr>) MsgType rx =
      Some (True, gtk_installed (enRandom env) pAd (idx AND 3) (take ?n GTK), r)"
    by (rule receive_gtk [where ver = ?ver and rest = rest and junk = junk and p = "padded ?ver d" and rsnie = rsnie and rl = rl,
          OF m assms(9) wf c(2) lc f1(1,3) ver _ _ assms(6) _ n assms(18,20,21) _ lp])
      (use assms(2-4,7) f1(2,4) c(4) d_def in simp_all)
  then obtain r where rec: "PeerWpaMessageSanity env pAd ((eapol_with_data f1 c junk)\<lparr>epKeyMic := ?mic rest\<rparr>) MsgType rx =
      Some (True, gtk_installed (enRandom env) pAd (idx AND 3) (take ?n GTK), r)" ..
  show ?thesis
    by (rule exI, rule exI, rule conjI, rule con) (simp only: eapol_sent [OF wf length_mic_spec c(2) refl] rec)
qed

theorem PeerWpaMessageSanity_ConstructEapolMsg_witness:
  "\<exists>sent r.
    ConstructEapolMsg (\<lambda>i n. True) (replicate 16 7) (replicate 512 9) sample_entry Ndis802_11AESEnable EAPOL_PAIR_MSG_3 1 (Some (replicate 32 2))
      (Some (replicate 6 0)) (Some (replicate 32 5)) (Some [1, 0, 0, 15, 172, 4]) 6 zero_frame = Some sent \<and>
    PeerWpaMessageSanity sample_env sample_adapter
      (eapol_of_bytes (take (CONV_ARRARY_TO_UINT16 (epBody_Len sent) + 4) (eapol_bytes sent) @ [1, 2, 3])) EAPOL_PAIR_MSG_3
      (sample_entry\<lparr>mtR_Counter := replicate 8 0\<rparr>) =
    Some (True, gtk_installed (enRandom sample_env) sample_adapter 1 (replicate 16 5), r)"
proof -
  have s: "gtk_message sample_entry EAPOL_PAIR_MSG_3" "is_wpa2 (sample_entry\<lparr>mtR_Counter := replicate 8 0\<rparr>) = is_wpa2 sample_entry"
      "length (mtPTK sample_entry) = 64" "length (mtR_Counter sample_entry) = 8" "be_val (replicate 8 0) < be_val (mtR_Counter sample_entry)"
      "enAlloc sample_env = (\<lambda>i n. True)" "length (enStack sample_env) = 16"
    by (simp_all add: gtk_message_def is_wpa2_def sample_entry_def sample_env_def)
  have z: "eapol_wf zero_frame" "length (epKeyData zero_frame) = 1401"
    by (simp_all add: eapol_wf_def zero_frame_def)
  have g: "gtk_length Ndis802_11AESEnable = 16" "take 16 (replicate 32 (5 :: u8)) = replicate 16 5"
    "length (replicate 32 (5 :: u8)) = 32" "(1 :: u8) AND 3 = 1" "read_at 2 3 [1, 0, 0, 15, 172, 4] = OUI_WPA2"
    by (simp_all add: gtk_length_def read_at_def)
  show ?thesis
    using PeerWpaMessageSanity_ConstructEapolMsg [of sample_entry EAPOL_PAIR_MSG_3 "sample_entry\<lparr>mtR_Counter := replicate 8 0\<rparr>"
        "\<lambda>i n. True" sample_env "replicate 16 7" "replicate 512 9" zero_frame "replicate 32 2" "replicate 6 0"
        Ndis802_11AESEnable "replicate 32 5" "[1, 0, 0, 15, 172, 4]" 6 1 sample_adapter "[1, 2, 3]"] s z g
    by (simp add: alloc_ok_def)
qed

lemma PeerWpaMessageSanity_rejects:
  assumes "PeerWpaMessageSanity env pAd pMsg MsgType pEntry = Some (ok, pAd', r)" and "MsgType \<noteq> EAPOL_PAIR_MSG_1"
  shows "received_mic env pEntry pMsg = Some (epKeyMic pMsg) \<and> \<not> replay_differs pEntry MsgType pMsg \<and>
      EAPOL_PAIR_MSG_1 \<le> MsgType \<and> MsgType \<le> EAPOL_GROUP_MSG_2 \<or>
    \<not> ok \<and> (pAd' = pAd \<or> (\<exists>t addr idx. pAd' = wpa_emit (WirelessEvent t addr idx) pAd))"
proof (cases "\<not> enAlloc env 0 0 \<or> MsgType > EAPOL_GROUP_MSG_2 \<or> MsgType < EAPOL_PAIR_MSG_1 \<or> replay_differs pEntry MsgType pMsg")
  case True
  then show ?thesis using assms unfolding PeerWpaMessageSanity_def by (auto split: if_splits)
next
  case False
  then obtain mic where m: "received_mic env pEntry pMsg = Some mic"
    using assms unfolding PeerWpaMessageSanity_def by (auto split: option.splits)
  show ?thesis
  proof (cases "epKeyMic pMsg = mic")
    case True
    then show ?thesis using m False by auto
  next
    case mic: False
    then show ?thesis using assms False m unfolding PeerWpaMessageSanity_def by auto
  qed
qed



end
