(* ===== verification/Fifo.thy ===== *)
theory Fifo
  imports Main
begin

text \<open>
  The contract of a first in, first out queue, as the driver uses one between the contexts that post messages or
  commands and the thread that handles them: any interleaving of the two operations hands the
  elements over completely and in their order.
\<close>

datatype 'e queue_op = Enq 'e | Deq

text \<open>The elements taken in, the elements handed out and the queue after a sequence of operations.\<close>

fun queue_run ::
  "('q \<Rightarrow> 'e \<Rightarrow> bool \<times> 'q) \<Rightarrow> ('q \<Rightarrow> ('e \<times> 'q) option) \<Rightarrow> 'e queue_op list \<Rightarrow> 'q \<Rightarrow> 'e list \<times> 'e list \<times> 'q" where
  "queue_run enq deq [] q = ([], [], q)"
| "queue_run enq deq (Enq x # ops) q =
     (case enq q x of (ok, q1) \<Rightarrow> case queue_run enq deq ops q1 of (ins, outs, q2) \<Rightarrow> (if ok then x # ins else ins, outs, q2))"
| "queue_run enq deq (Deq # ops) q =
     (case deq q of
        None \<Rightarrow> queue_run enq deq ops q
      | Some (y, q1) \<Rightarrow> case queue_run enq deq ops q1 of (ins, outs, q2) \<Rightarrow> (ins, y # outs, q2))"

locale fifo =
  fixes inv :: "'q \<Rightarrow> bool"
    and elems :: "'q \<Rightarrow> 'e list"
    and enq :: "'q \<Rightarrow> 'e \<Rightarrow> bool \<times> 'q"
    and deq :: "'q \<Rightarrow> ('e \<times> 'q) option"
  assumes enq_ok: "inv q \<Longrightarrow> enq q x = (True, q1) \<Longrightarrow> inv q1 \<and> elems q1 = elems q @ [x]"
    and enq_refused: "inv q \<Longrightarrow> enq q x = (False, q1) \<Longrightarrow> q1 = q"
    and deq_none: "inv q \<Longrightarrow> deq q = None \<longleftrightarrow> elems q = []"
    and deq_some: "inv q \<Longrightarrow> deq q = Some (y, q1) \<Longrightarrow> inv q1 \<and> elems q = y # elems q1"
begin

lemma run_order:
  assumes "inv q" and "queue_run enq deq ops q = (ins, outs, q1)"
  shows "inv q1 \<and> elems q @ ins = outs @ elems q1"
  using assms
proof (induction ops arbitrary: q ins outs)
  case (Cons op ops)
  show ?case
  proof (cases op)
    case (Enq x)
    obtain ok q2 where e: "enq q x = (ok, q2)"
      by fastforce
    obtain ins2 where r: "queue_run enq deq ops q2 = (ins2, outs, q1)" "ins = (if ok then x # ins2 else ins2)"
      using Cons.prems(2) by (auto simp: Enq e split: prod.splits if_splits)
    then show ?thesis
      using Cons.IH [OF _ r(1)] enq_ok [OF Cons.prems(1)] enq_refused [OF Cons.prems(1)] Cons.prems(1) e
      by (cases ok) auto
  next
    case Deq
    show ?thesis
    proof (cases "deq q")
      case None
      then show ?thesis
        using Cons.IH [OF Cons.prems(1)] Cons.prems(2) Deq by simp
    next
      case (Some yq)
      obtain y q2 where "deq q = Some (y, q2)"
        using Some by (cases yq) auto
      then show ?thesis
        using Cons.IH [of q2] deq_some [OF Cons.prems(1)] Cons.prems(2) Deq by (auto split: prod.splits)
    qed
  qed
qed simp

lemma run_deq_all:
  assumes "inv q"
  shows "\<exists>q1. queue_run enq deq (replicate (length (elems q)) Deq) q = ([], elems q, q1) \<and> elems q1 = []"
  using assms
proof (induction "elems q" arbitrary: q)
  case (Cons y ys)
  then obtain q1 where q1: "deq q = Some (y, q1)" "inv q1" "elems q1 = ys"
    using deq_none [OF Cons.prems] deq_some [OF Cons.prems] by (cases "deq q") fastforce+
  then have "\<exists>q2. queue_run enq deq (replicate (length ys) Deq) q1 = ([], ys, q2) \<and> elems q2 = []"
    using Cons.hyps(1) [of q1] by simp
  then show ?case
    using q1(1) Cons.hyps(2) [symmetric] by auto
qed auto

end

text \<open>A queue with a number of places that are always usable.\<close>

locale bounded_fifo = fifo +
  fixes cap :: nat
    and valid :: "'b \<Rightarrow> bool"
  assumes enq_room: "inv q \<Longrightarrow> length (elems q) < cap \<Longrightarrow> valid x \<Longrightarrow> fst (enq q x)"
begin

lemma run_enq_all:
  assumes "inv q" "length (elems q) + length xs \<le> cap" "\<forall>x\<in>set xs. valid x"
  shows "\<exists>q1. queue_run enq deq (map Enq xs) q = (xs, [], q1) \<and> inv q1 \<and> elems q1 = elems q @ xs"
  using assms
proof (induction xs arbitrary: q)
  case (Cons x xs)
  obtain q1 where q1: "enq q x = (True, q1)"
    using enq_room [OF Cons.prems(1), of x] Cons.prems(2,3) by (cases "enq q x") auto
  then have "inv q1" "elems q1 = elems q @ [x]"
    using enq_ok [OF Cons.prems(1)] by auto
  then show ?case
    using Cons.IH [of q1] Cons.prems(2,3) q1 by auto
qed simp

end

end
