(* ===== verification/Mlme_Queue.thy ===== *)
theory Mlme_Queue
  imports Wlan_Prelude Fifo
begin

text \<open>
  The management queue of \<^verbatim>\<open>common/mlme.c\<close>, a ring of 40 elements between the contexts that post messages and the MLME
  thread, and the translation of a received management frame into a message of a state machine.
  The model is that of the station build, without the AP and client interfaces. Spin locks make the operations atomic and are left out.
\<close>

section \<open>Data\<close>

abbreviation (input) MAX_LEN_OF_MLME_QUEUE :: nat where "MAX_LEN_OF_MLME_QUEUE \<equiv> 40"
abbreviation (input) MGMT_DMA_BUFFER_SIZE :: nat where "MGMT_DMA_BUFFER_SIZE \<equiv> 1600"
abbreviation (input) RESERVED_WCID :: u8 where "RESERVED_WCID \<equiv> 0xff"

record mlme_queue_elem =
  meMsg :: bytes
  meMachine :: u64
  meMsgType :: u64
  meMsgLen :: u64
  meTimeHigh :: u32
  meTimeLow :: u32
  meRssi0 :: u8
  meRssi1 :: u8
  meRssi2 :: u8
  meSignal :: u8
  meChannel :: u8
  meWcid :: u8
  meOccupied :: bool
  meOpMode :: u8
  mePriv :: u64

record mlme_queue =
  mqNum :: u64
  mqHead :: u64
  mqTail :: u64
  mqEntry :: "mlme_queue_elem list"

text \<open>The state machines and the messages that received frames are translated into.\<close>

abbreviation (input) ASSOC_STATE_MACHINE :: int where "ASSOC_STATE_MACHINE \<equiv> 1"
abbreviation (input) AUTH_STATE_MACHINE :: int where "AUTH_STATE_MACHINE \<equiv> 2"
abbreviation (input) AUTH_RSP_STATE_MACHINE :: int where "AUTH_RSP_STATE_MACHINE \<equiv> 3"
abbreviation (input) SYNC_STATE_MACHINE :: int where "SYNC_STATE_MACHINE \<equiv> 4"
abbreviation (input) ACTION_STATE_MACHINE :: int where "ACTION_STATE_MACHINE \<equiv> 9"
abbreviation (input) WPA_STATE_MACHINE :: int where "WPA_STATE_MACHINE \<equiv> 23"
abbreviation (input) MAX_PEER_CATE_MSG :: nat where "MAX_PEER_CATE_MSG \<equiv> 21"
abbreviation (input) MT2_ACT_INVALID :: int where "MT2_ACT_INVALID \<equiv> 27"

section \<open>Operations\<close>

text \<open>\<^verbatim>\<open>MlmeQueueInit\<close>: the other fields of an element keep the value they had.\<close>

definition MlmeQueueInit :: "mlme_queue \<Rightarrow> mlme_queue" where
  "MlmeQueueInit q =
     \<lparr>mqNum = 0, mqHead = 0, mqTail = 0,
      mqEntry = map (\<lambda>e. e\<lparr>meOccupied := False, meMsgLen := 0, meMsg := replicate MGMT_DMA_BUFFER_SIZE 0\<rparr>) (mqEntry q)\<rparr>"

definition MlmeQueueDestroy :: "mlme_queue \<Rightarrow> mlme_queue" where
  "MlmeQueueDestroy q = q\<lparr>mqNum := 0, mqHead := 0, mqTail := 0\<rparr>"

definition MlmeQueueEmpty :: "mlme_queue \<Rightarrow> bool" where
  "MlmeQueueEmpty q \<longleftrightarrow> mqNum q = 0"

definition MlmeQueueFull :: "mlme_queue \<Rightarrow> nat \<Rightarrow> bool" where
  "MlmeQueueFull q SendId \<longleftrightarrow>
     (if SendId = 0 then mqNum q \<ge> 20 \<or> meOccupied (mqEntry q ! unat (mqTail q)) else mqNum q = 40)"

text \<open>The claim of the element at the tail, common to both ways of posting a message.\<close>

definition mlme_claim_tail :: "mlme_queue \<Rightarrow> nat \<times> mlme_queue" where
  "mlme_claim_tail q =
     (let Tail = mqTail q;
          q = q\<lparr>mqTail := Tail + 1, mqNum := mqNum q + 1\<rparr>
      in (unat Tail, if mqTail q = 40 then q\<lparr>mqTail := 0\<rparr> else q))"

text \<open>
  \<^verbatim>\<open>MlmeEnqueue\<close>. \<open>halted\<close> is the test of the two flags; a null message is \<open>None\<close>. The result is \<open>None\<close> when the copy
  reads behind the message.
\<close>

definition MlmeEnqueue ::
  "bool \<Rightarrow> mlme_queue \<Rightarrow> u64 \<Rightarrow> u64 \<Rightarrow> u64 \<Rightarrow> bytes option \<Rightarrow> u64 \<Rightarrow> (bool \<times> mlme_queue) option" where
  "MlmeEnqueue halted q Machine MsgType MsgLen Msg Priv =
     (if halted then Some (False, q)
      else if MsgLen > of_nat MGMT_DMA_BUFFER_SIZE then Some (False, q)
      else if MlmeQueueFull q 1 then Some (False, q)
      else
        let (Tail, q) = mlme_claim_tail q;
            e = (mqEntry q ! Tail)\<lparr>meWcid := RESERVED_WCID, meOccupied := True, meMachine := Machine,
                   meMsgType := MsgType, meMsgLen := MsgLen, mePriv := Priv\<rparr>
        in case Msg of
             None \<Rightarrow> Some (True, q\<lparr>mqEntry := (mqEntry q)[Tail := e]\<rparr>)
           | Some m \<Rightarrow>
               if length m < unat MsgLen then None
               else Some (True, q\<lparr>mqEntry := (mqEntry q)[Tail := e\<lparr>meMsg := write_at (meMsg e) 0 (take (unat MsgLen) m)\<rparr>]\<rparr>))"

text \<open>\<^verbatim>\<open>WpaMsgTypeSubst\<close> and \<^verbatim>\<open>MsgTypeSubst\<close>: whether the frame is known, the machine and the message. A read behind the frame is \<open>None\<close>.\<close>

definition WpaMsgTypeSubst :: "u8 \<Rightarrow> int \<Rightarrow> bool \<times> int" where
  "WpaMsgTypeSubst EAPType MsgType = (if EAPType \<le> 4 then (True, int (unat EAPType)) else (False, MsgType))"

definition MsgTypeSubst :: "bytes \<Rightarrow> int \<Rightarrow> int \<Rightarrow> (bool \<times> int \<times> int) option" where
  "MsgTypeSubst pFrame Machine MsgType =
     (if length pFrame < 24 then None
      else
        let Type = drop_bit 2 (pFrame ! 0) AND 0x3; SubType = unat (drop_bit 4 (pFrame ! 0)) in
        if Type = 2 then
          (if length pFrame < 34 then None
           else case WpaMsgTypeSubst (pFrame ! 33) MsgType of (ok, MsgType) \<Rightarrow> Some (ok, WPA_STATE_MACHINE, MsgType))
        else if SubType = 0 then Some (True, ASSOC_STATE_MACHINE, 4)
        else if SubType = 1 then Some (True, ASSOC_STATE_MACHINE, 5)
        else if SubType = 2 then Some (True, ASSOC_STATE_MACHINE, 6)
        else if SubType = 3 then Some (True, ASSOC_STATE_MACHINE, 7)
        else if SubType = 4 then Some (True, SYNC_STATE_MACHINE, 9)
        else if SubType = 5 then Some (True, SYNC_STATE_MACHINE, 4)
        else if SubType = 8 then Some (True, SYNC_STATE_MACHINE, 3)
        else if SubType = 9 then Some (True, SYNC_STATE_MACHINE, 5)
        else if SubType = 10 then Some (True, ASSOC_STATE_MACHINE, 3)
        else if SubType = 11 then
          (if length pFrame < 28 then None
           else
             let Seq = (word_cat (pFrame ! 27) (pFrame ! 26) :: u16); Alg = (word_cat (pFrame ! 25) (pFrame ! 24) :: u16) in
             if Seq = 1 \<or> Seq = 3 then Some (True, AUTH_RSP_STATE_MACHINE, 1)
             else if Seq = 2 \<or> Seq = 4 then
               (if Alg = 0 \<or> Alg = 1 then Some (True, AUTH_STATE_MACHINE, 1) else Some (True, Machine, MsgType))
             else Some (False, Machine, MsgType))
        else if SubType = 12 then Some (True, AUTH_RSP_STATE_MACHINE, 2)
        else if SubType = 13 \<or> SubType = 14 then
          (if length pFrame < 25 then None
           else
             let Category = unat (pFrame ! 24 AND 0x7f) in
             Some (True, ACTION_STATE_MACHINE, if Category > MAX_PEER_CATE_MSG then MT2_ACT_INVALID else int Category))
        else Some (False, Machine, MsgType))"

record rx_info =
  riWcid :: u64
  riTimeHigh :: u64
  riTimeLow :: u64
  riRssi0 :: u8
  riRssi1 :: u8
  riRssi2 :: u8
  riSignal :: u8
  riOpMode :: u8
  riChannel :: u8

text \<open>
  \<^verbatim>\<open>MlmeEnqueueForRecv\<close>. \<open>ate\<close> is the test mode; \<open>riChannel\<close> is the current channel of the radio. The MLME thread is woken
  up when the result is true.
\<close>

definition MlmeEnqueueForRecv ::
  "bool \<Rightarrow> bool \<Rightarrow> mlme_queue \<Rightarrow> rx_info \<Rightarrow> u64 \<Rightarrow> bytes \<Rightarrow> (bool \<times> mlme_queue) option" where
  "MlmeEnqueueForRecv ate halted q i MsgLen Msg =
     (if ate then Some (False, q)
      else if halted then Some (False, q)
      else if MsgLen > of_nat MGMT_DMA_BUFFER_SIZE then Some (False, q)
      else if MlmeQueueFull q 0 then Some (False, q)
      else case MsgTypeSubst Msg 0xff 0 of
        None \<Rightarrow> None
      | Some (ok, Machine, MsgType) \<Rightarrow>
          if \<not> ok then Some (False, q)
          else if length Msg < unat MsgLen then None
          else
            let (Tail, q) = mlme_claim_tail q;
                e = (mqEntry q ! Tail)\<lparr>meOccupied := True, meMachine := word_of_int Machine, meMsgType := word_of_int MsgType,
                       meMsgLen := MsgLen, meTimeLow := ucast (riTimeLow i), meTimeHigh := ucast (riTimeHigh i),
                       meRssi0 := riRssi0 i, meRssi1 := riRssi1 i, meRssi2 := riRssi2 i, meSignal := riSignal i,
                       meWcid := ucast (riWcid i), meOpMode := riOpMode i, meChannel := riChannel i, mePriv := 0\<rparr>
            in Some (True, q\<lparr>mqEntry := (mqEntry q)[Tail := e\<lparr>meMsg := write_at (meMsg e) 0 (take (unat MsgLen) Msg)\<rparr>]\<rparr>))"

text \<open>\<^verbatim>\<open>MlmeDequeue\<close>: the pointer to the element is its index. There is no test for an empty queue.\<close>

definition MlmeDequeue :: "mlme_queue \<Rightarrow> nat \<times> mlme_queue" where
  "MlmeDequeue q =
     (let Elem = unat (mqHead q);
          q = q\<lparr>mqNum := mqNum q - 1, mqHead := mqHead q + 1\<rparr>
      in (Elem, if mqHead q = 40 then q\<lparr>mqHead := 0\<rparr> else q))"

text \<open>The release of a handled element in \<^verbatim>\<open>MlmeHandler\<close>.\<close>

definition mlme_free_elem :: "nat \<Rightarrow> mlme_queue \<Rightarrow> mlme_queue" where
  "mlme_free_elem Elem q =
     q\<lparr>mqEntry := (mqEntry q)[Elem := (mqEntry q ! Elem)\<lparr>meOccupied := False, meMsgLen := 0\<rparr>]\<rparr>"

section \<open>The ring as a list\<close>

text \<open>The elements from the head on; the first \<open>mqNum\<close> of them are queued.\<close>

definition mq_ring :: "mlme_queue \<Rightarrow> mlme_queue_elem list" where
  "mq_ring q = rotate (unat (mqHead q)) (mqEntry q)"

definition mq_elems :: "mlme_queue \<Rightarrow> mlme_queue_elem list" where
  "mq_elems q = take (unat (mqNum q)) (mq_ring q)"

definition mq_inv :: "mlme_queue \<Rightarrow> bool" where
  "mq_inv q \<longleftrightarrow> length (mqEntry q) = 40 \<and> unat (mqHead q) < 40 \<and> unat (mqNum q) \<le> 40
     \<and> unat (mqTail q) = (unat (mqHead q) + unat (mqNum q)) mod 40
     \<and> (\<forall>e\<in>set (mqEntry q). length (meMsg e) = 1600)
     \<and> map meOccupied (mq_ring q) = replicate (unat (mqNum q)) True @ replicate (40 - unat (mqNum q)) False"

lemma length_mq_ring [simp]: "length (mq_ring q) = length (mqEntry q)"
  by (simp add: mq_ring_def)

lemma rotate_update:
  assumes "m < length xs"
  shows "rotate h (xs[(h + m) mod length xs := e]) = (rotate h xs)[m := e]"
proof (rule nth_equalityI)
  fix i assume "i < length (rotate h (xs[(h + m) mod length xs := e]))"
  then have i: "i < length xs" by simp
  have "(h + k) mod n = (if h mod n + k < n then h mod n + k else h mod n + k - n)" if "k < n" for k n
  proof -
    have "h mod n < n"
      using that by simp
    then have "h mod n + k - n < n"
      using that by linarith
    moreover have "(h + k) mod n = (h mod n + k) mod n"
      by (simp add: mod_add_left_eq)
    ultimately show ?thesis
      using that by (simp add: le_mod_geq)
  qed
  then have "(h + m) mod length xs = (h + i) mod length xs \<longleftrightarrow> m = i"
    using i assms by auto
  moreover have "(h + i) mod length xs < length xs"
    using i by (intro mod_less_divisor) linarith
  ultimately show "rotate h (xs[(h + m) mod length xs := e]) ! i = (rotate h xs)[m := e] ! i"
    using i assms by (auto simp: nth_rotate nth_list_update)
qed simp

text \<open>An index after the ring index \<open>i\<close> wraps around at 40.\<close>

lemma ring_succ:
  fixes i :: u64
  assumes "unat i < 40"
  shows "unat (if i + 1 = 40 then 0 else i + 1) = (unat i + 1) mod 40"
proof -
  have "unat (i + 1) = unat i + 1"
    using assms by (simp add: unat_word_ariths)
  moreover from this have "i + 1 = 40 \<longleftrightarrow> unat i + 1 = 40"
    by (simp add: word_unat_eq_iff)
  ultimately show ?thesis
    using assms by auto
qed

section \<open>The operations on the list\<close>

lemma Num_Suc: "unat (n :: u64) < 40 \<Longrightarrow> unat (n + 1) = unat n + 1"
  by (simp add: unat_word_ariths)

lemma Num_pred: "n \<noteq> (0 :: u64) \<Longrightarrow> unat (n - 1) = unat n - 1"
  by (metis unat_gt_0 unat_sub unat_1 word_le_nat_alt Suc_leI One_nat_def)

lemma claim_tail: "mq_inv q \<Longrightarrow> mlme_claim_tail q = (Tail, q1) \<Longrightarrow> Tail < 40 \<and> mqEntry q1 = mqEntry q"
  by (auto simp: mq_inv_def mlme_claim_tail_def Let_def split: if_splits)

text \<open>Filling the claimed element appends it.\<close>

lemma claim_append:
  assumes "mq_inv q" "unat (mqNum q) < 40" "mlme_claim_tail q = (Tail, q1)" "length (meMsg e) = 1600" "meOccupied e"
  shows "Tail < 40" "mqEntry q1 = mqEntry q" "mq_inv (q1\<lparr>mqEntry := (mqEntry q1)[Tail := e]\<rparr>)"
    "mq_elems (q1\<lparr>mqEntry := (mqEntry q1)[Tail := e]\<rparr>) = mq_elems q @ [e]"
proof -
  let ?n = "unat (mqNum q)" and ?h = "unat (mqHead q)"
  have inv: "length (mqEntry q) = 40" "?h < 40" "unat (mqTail q) = (?h + ?n) mod 40" "\<forall>e\<in>set (mqEntry q). length (meMsg e) = 1600"
    "map meOccupied (mq_ring q) = replicate ?n True @ replicate (40 - ?n) False"
    using assms(1) by (auto simp: mq_inv_def)
  have t: "unat (mqTail q) < 40"
    using inv(3) by simp
  have c: "Tail = unat (mqTail q)" "mqEntry q1 = mqEntry q" "mqHead q1 = mqHead q" "mqNum q1 = mqNum q + 1"
    "mqTail q1 = (if mqTail q + 1 = 40 then 0 else mqTail q + 1)"
    using assms(3) by (auto simp: mlme_claim_tail_def Let_def split: if_splits)
  then show "Tail < 40" "mqEntry q1 = mqEntry q"
    using t by simp_all
  let ?q = "q1\<lparr>mqEntry := (mqEntry q1)[Tail := e]\<rparr>"
  have ring: "mq_ring ?q = (mq_ring q)[?n := e]"
    using rotate_update [of ?n "mqEntry q" ?h e] assms(2) inv(1,3) c by (simp add: mq_ring_def)
  then show "mq_elems ?q = mq_elems q @ [e]"
    using assms(2) inv(1) c(4) by (simp add: mq_elems_def Num_Suc take_Suc_conv_app_nth)
  have "unat (mqTail q1) = (?h + unat (mqNum q1)) mod 40"
    using ring_succ [OF t] inv(3) c(4,5) assms(2) by (simp add: Num_Suc mod_Suc_eq)
  moreover have "map meOccupied (mq_ring ?q) = replicate (Suc ?n) True @ replicate (40 - Suc ?n) False"
  proof -
    have "40 - ?n = Suc (40 - Suc ?n)"
      using assms(2) by simp
    then have "map meOccupied (mq_ring ?q) = (replicate ?n True @ False # replicate (40 - Suc ?n) False)[?n := True]"
      using ring inv(5) assms(5) by (simp add: map_update)
    then show ?thesis
      by (simp add: list_update_append replicate_append_same)
  qed
  ultimately show "mq_inv ?q"
    using inv assms(2,4) c by (auto simp: mq_inv_def Num_Suc dest: set_update_subset_insert [THEN subsetD])
qed

text \<open>Taking an element out and releasing it removes the first one.\<close>

lemma dequeue_tl:
  assumes "mq_inv q" "mqNum q \<noteq> 0" "MlmeDequeue q = (Elem, q1)"
  shows "Elem < 40" "mqEntry q1 = mqEntry q" "mq_elems q = mqEntry q ! Elem # mq_elems (mlme_free_elem Elem q1)" "mq_inv (mlme_free_elem Elem q1)"
proof -
  let ?n = "unat (mqNum q)" and ?h = "unat (mqHead q)" and ?q = "mlme_free_elem Elem q1"
  have inv: "length (mqEntry q) = 40" "?h < 40" "?n \<le> 40" "unat (mqTail q) = (?h + ?n) mod 40" "\<forall>e\<in>set (mqEntry q). length (meMsg e) = 1600"
    "map meOccupied (mq_ring q) = replicate ?n True @ replicate (40 - ?n) False"
    using assms(1) by (auto simp: mq_inv_def)
  have n: "0 < ?n"
    using assms(2) by (simp add: unat_gt_0)
  have c: "Elem = ?h" "mqEntry q1 = mqEntry q" "mqTail q1 = mqTail q" "mqNum q1 = mqNum q - 1"
    "mqHead q1 = (if mqHead q + 1 = 40 then 0 else mqHead q + 1)"
    using assms(3) by (auto simp: MlmeDequeue_def Let_def split: if_splits)
  then show "Elem < 40" "mqEntry q1 = mqEntry q"
    using inv(2) by simp_all
  define e where "e = (mqEntry q ! ?h)\<lparr>meOccupied := False, meMsgLen := 0\<rparr>"
  have q: "mqEntry ?q = (mqEntry q)[?h := e]" "mqHead ?q = mqHead q1" "mqTail ?q = mqTail q" "mqNum ?q = mqNum q - 1"
    using c by (simp_all add: mlme_free_elem_def e_def)
  obtain y ys where ring: "mq_ring q = y # ys"
    using inv(1) by (cases "mq_ring q") (auto simp: mq_ring_def)
  have y: "y = mqEntry q ! ?h" "length ys = 39"
    using arg_cong [OF ring, of "\<lambda>l. l ! 0"] arg_cong [OF ring, of length] inv(1,2) by (simp_all add: mq_ring_def nth_rotate)
  have "mq_ring ?q = rotate1 (rotate ?h ((mqEntry q)[?h := e]))"
  proof -
    have "mq_ring ?q = rotate ((?h + 1) mod length ((mqEntry q)[?h := e])) ((mqEntry q)[?h := e])"
      using ring_succ [OF inv(2)] inv(1) c(5) q(1,2) by (simp add: mq_ring_def)
    also have "\<dots> = rotate (Suc ?h) ((mqEntry q)[?h := e])"
      using rotate_conv_mod [of "Suc ?h" "(mqEntry q)[?h := e]"] by simp
    finally show ?thesis
      by simp
  qed
  also have "\<dots> = rotate1 ((mq_ring q)[0 := e])"
    using rotate_update [of 0 "mqEntry q" ?h e] inv(1,2) by (simp add: mq_ring_def)
  finally have ring': "mq_ring ?q = ys @ [e]"
    by (simp add: ring)
  show "mq_elems q = mqEntry q ! Elem # mq_elems ?q"
    using n inv(3) y q(4) by (cases ?n) (simp_all add: mq_elems_def ring ring' Num_pred assms(2) c(1) [symmetric])
  have "map meOccupied ys @ [False] = replicate (?n - 1) True @ replicate (40 - (?n - 1)) False"
  proof -
    have "map meOccupied ys = replicate (?n - 1) True @ replicate (40 - ?n) False"
      using inv(6) n by (cases ?n) (simp_all add: ring)
    moreover have "40 - (?n - 1) = Suc (40 - ?n)"
      using n inv(3) by simp
    ultimately show ?thesis
      by (simp add: replicate_append_same)
  qed
  moreover have "(?h + ?n) mod 40 = ((?h + 1) mod 40 + (?n - 1)) mod 40"
    unfolding mod_add_left_eq using n by (cases ?n) simp_all
  ultimately show "mq_inv ?q"
    unfolding mq_inv_def ring' using inv q c(5) ring_succ [OF inv(2)] n
    by (auto simp: Num_pred assms(2) e_def dest: set_update_subset_insert [THEN subsetD])
qed

section \<open>The queue of messages\<close>

text \<open>A message is the machine, the type, the private word and the content. Posting it is \<^verbatim>\<open>MlmeEnqueue\<close>, fetching it is one round of
  \<^verbatim>\<open>MlmeHandler\<close>: the test for an empty queue, \<^verbatim>\<open>MlmeDequeue\<close> and the release of the element.\<close>

type_synonym mlme_message = "u64 \<times> u64 \<times> u64 \<times> bytes"

definition elem_message :: "mlme_queue_elem \<Rightarrow> mlme_message" where
  "elem_message e = (meMachine e, meMsgType e, mePriv e, take (unat (meMsgLen e)) (meMsg e))"

definition mq_messages :: "mlme_queue \<Rightarrow> mlme_message list" where
  "mq_messages q = map elem_message (mq_elems q)"

definition mlme_post :: "mlme_queue \<Rightarrow> mlme_message \<Rightarrow> bool \<times> mlme_queue" where
  "mlme_post q m =
     (case m of (Machine, MsgType, Priv, Msg) \<Rightarrow>
        if 2 ^ 64 \<le> length Msg then (False, q)
        else case MlmeEnqueue False q Machine MsgType (of_nat (length Msg)) (Some Msg) Priv of
               None \<Rightarrow> (False, q) | Some r \<Rightarrow> r)"

definition mlme_fetch :: "mlme_queue \<Rightarrow> (mlme_message \<times> mlme_queue) option" where
  "mlme_fetch q =
     (if MlmeQueueEmpty q then None
      else case MlmeDequeue q of (Elem, q1) \<Rightarrow> Some (elem_message (mqEntry q1 ! Elem), mlme_free_elem Elem q1))"

lemma MlmeQueueInit_inv:
  assumes "length (mqEntry q) = 40"
  shows "mq_inv (MlmeQueueInit q)" "mq_elems (MlmeQueueInit q) = []"
  using assms by (auto simp: MlmeQueueInit_def mq_inv_def mq_ring_def mq_elems_def comp_def map_replicate_const)

lemma take_write_at_0: "take (length m) (write_at b 0 m) = m"
  by (simp add: write_at_def)

text \<open>A message is accepted whenever there is a place and it fits.\<close>

lemma MlmeEnqueue_ok:
  assumes "mq_inv q" "unat (mqNum q) < 40" "length Msg \<le> 1600"
  obtains q1 where "MlmeEnqueue False q Machine MsgType (of_nat (length Msg)) (Some Msg) Priv = Some (True, q1)"
    "mq_inv q1" "mq_messages q1 = mq_messages q @ [(Machine, MsgType, Priv, Msg)]"
proof -
  obtain Tail q0 where c: "mlme_claim_tail q = (Tail, q0)"
    by fastforce
  define e where "e = (mqEntry q0 ! Tail)\<lparr>meWcid := 0xff, meOccupied := True, meMachine := Machine, meMsgType := MsgType,
    meMsgLen := of_nat (length Msg), mePriv := Priv, meMsg := write_at (meMsg (mqEntry q0 ! Tail)) 0 Msg\<rparr>"
  have len: "unat (of_nat (length Msg) :: u64) = length Msg"
    using assms(3) by (simp add: unsigned_of_nat take_bit_nat_eq_self)
  have cl: "Tail < 40" "mqEntry q0 = mqEntry q"
    using claim_tail [OF assms(1) c] by auto
  have "length (mqEntry q) = 40" "\<forall>e\<in>set (mqEntry q). length (meMsg e) = 1600"
    using assms(1) by (simp_all add: mq_inv_def)
  then have "length (meMsg (mqEntry q0 ! Tail)) = 1600"
    using cl by simp
  then have e: "length (meMsg e) = 1600" "meOccupied e" "elem_message e = (Machine, MsgType, Priv, Msg)"
    using assms(3) len by (simp_all add: e_def elem_message_def take_write_at_0)
  note ap = claim_append [OF assms(1,2) c e(1,2)]
  have "mqNum q \<noteq> 40"
    using assms(2) by auto
  moreover have "\<not> (of_nat (length Msg) :: u64) > 1600"
    using assms(3) len by (simp add: word_less_nat_alt)
  moreover have "\<not> length Msg < unat (of_nat (length Msg) :: u64)"
    using len by simp
  ultimately have "MlmeEnqueue False q Machine MsgType (of_nat (length Msg)) (Some Msg) Priv
      = Some (True, q0\<lparr>mqEntry := (mqEntry q0)[Tail := e]\<rparr>)"
    unfolding MlmeEnqueue_def MlmeQueueFull_def c Let_def prod.case option.case e_def by (simp add: len)
  moreover have "mq_messages (q0\<lparr>mqEntry := (mqEntry q0)[Tail := e]\<rparr>) = mq_messages q @ [(Machine, MsgType, Priv, Msg)]"
    using ap(4) e(3) by (simp add: mq_messages_def)
  ultimately show ?thesis
    using that ap(3) by blast
qed

lemma MlmeEnqueue_refused:
  assumes "mq_inv q" "\<not> (unat (mqNum q) < 40 \<and> length Msg \<le> 1600)" "length Msg < 2 ^ 64"
  shows "MlmeEnqueue False q Machine MsgType (of_nat (length Msg)) (Some Msg) Priv = Some (False, q)"
proof -
  have len: "unat (of_nat (length Msg) :: u64) = length Msg"
    using assms(3) by (simp add: unsigned_of_nat take_bit_nat_eq_self)
  have "unat (mqNum q) \<le> 40"
    using assms(1) by (simp add: mq_inv_def)
  then have "mqNum q = 40 \<or> (of_nat (length Msg) :: u64) > 1600"
    using assms(2) len by (auto simp: word_less_nat_alt word_unat_eq_iff)
  then show ?thesis
    by (auto simp: MlmeEnqueue_def MlmeQueueFull_def)
qed

lemma mq_messages_empty: "mq_inv q \<Longrightarrow> mq_messages q = [] \<longleftrightarrow> mqNum q = 0"
  by (auto simp: mq_inv_def mq_messages_def mq_elems_def unat_eq_0)

lemma length_mq_messages: "mq_inv q \<Longrightarrow> length (mq_messages q) = unat (mqNum q)"
  by (simp add: mq_inv_def mq_messages_def mq_elems_def)

abbreviation mlme_fits :: "mlme_message \<Rightarrow> bool" where
  "mlme_fits m \<equiv> length (snd (snd (snd m))) \<le> 1600"

lemma mlme_post_ok:
  assumes "mq_inv q" "unat (mqNum q) < 40" "mlme_fits m"
  obtains q1 where "mlme_post q m = (True, q1)" "mq_inv q1" "mq_messages q1 = mq_messages q @ [m]"
proof -
  obtain Machine MsgType Priv Msg where m: "m = (Machine, MsgType, Priv, Msg)"
    by (cases m) auto
  obtain q1 where "MlmeEnqueue False q Machine MsgType (of_nat (length Msg)) (Some Msg) Priv = Some (True, q1)"
    "mq_inv q1" "mq_messages q1 = mq_messages q @ [m]"
    using MlmeEnqueue_ok [OF assms(1,2), of Msg Machine MsgType Priv] assms(3) m by auto
  then show ?thesis
    using that assms(3) by (simp add: mlme_post_def m)
qed

lemma mlme_post_refused:
  assumes "mq_inv q" "\<not> (unat (mqNum q) < 40 \<and> mlme_fits m)"
  shows "mlme_post q m = (False, q)"
  using MlmeEnqueue_refused [OF assms(1)] assms(2) by (auto simp: mlme_post_def split: prod.splits)

lemma mlme_post_cases:
  assumes "mq_inv q" "mlme_post q m = (ok, q1)"
  shows "if unat (mqNum q) < 40 \<and> mlme_fits m then ok \<and> mq_inv q1 \<and> mq_messages q1 = mq_messages q @ [m] else \<not> ok \<and> q1 = q"
proof (cases "unat (mqNum q) < 40 \<and> mlme_fits m")
  case True
  then obtain q2 where "mlme_post q m = (True, q2)" "mq_inv q2" "mq_messages q2 = mq_messages q @ [m]"
    using mlme_post_ok [OF assms(1), of m] by blast
  then show ?thesis
    using True assms(2) by simp
next
  case False
  show ?thesis
    using mlme_post_refused [OF assms(1) False] False assms(2) by auto
qed

lemma mlme_fetch_some:
  assumes "mq_inv q" "mlme_fetch q = Some (y, q1)"
  shows "mq_inv q1" "mq_messages q = y # mq_messages q1"
proof -
  obtain Elem q0 where d: "MlmeDequeue q = (Elem, q0)" "mqNum q \<noteq> 0" "y = elem_message (mqEntry q0 ! Elem)" "q1 = mlme_free_elem Elem q0"
    using assms(2) by (auto simp: mlme_fetch_def MlmeQueueEmpty_def split: if_splits prod.splits)
  note t = dequeue_tl [OF assms(1) d(2,1)]
  show "mq_inv q1"
    using t(4) d(4) by simp
  show "mq_messages q = y # mq_messages q1"
    unfolding mq_messages_def t(3) d(3,4) t(2) by simp
qed

interpretation mlmeq: bounded_fifo mq_inv mq_messages mlme_post mlme_fetch 40 mlme_fits
proof
  fix q x q1
  assume inv: "mq_inv q"
  show "mq_inv q1 \<and> mq_messages q1 = mq_messages q @ [x]" if "mlme_post q x = (True, q1)"
    using mlme_post_cases [OF inv that] by (simp split: if_splits)
  show "q1 = q" if "mlme_post q x = (False, q1)"
    using mlme_post_cases [OF inv that] by (simp split: if_splits)
  show "mlme_fetch q = None \<longleftrightarrow> mq_messages q = []"
    by (simp add: mlme_fetch_def MlmeQueueEmpty_def mq_messages_empty [OF inv] elem_message_def split: prod.splits)
  show "fst (mlme_post q x)" if "length (mq_messages q) < 40" "mlme_fits x"
    using that mlme_post_cases [OF inv, of x "fst (mlme_post q x)" "snd (mlme_post q x)"]
    by (simp add: length_mq_messages [OF inv])
qed (auto dest: mlme_fetch_some)

section \<open>Properties\<close>

definition ex_elem :: mlme_queue_elem where
  "ex_elem = \<lparr>meMsg = replicate 1600 0, meMachine = 0, meMsgType = 0, meMsgLen = 0, meTimeHigh = 0, meTimeLow = 0, meRssi0 = 0,
     meRssi1 = 0, meRssi2 = 0, meSignal = 0, meChannel = 0, meWcid = 0, meOccupied = False, meOpMode = 0, mePriv = 0\<rparr>"

definition ex_queue :: mlme_queue where
  "ex_queue = \<lparr>mqNum = 0, mqHead = 0, mqTail = 0, mqEntry = replicate 40 ex_elem\<rparr>"



text \<open>
  A message can be overwritten by the end of the handling of another one (C39). When the ring is full and its first element is being
  handled, \<^verbatim>\<open>MlmeEnqueue\<close> accepts another message and puts it into the element that is being handled, because it counts the
  elements and does not look at \<^verbatim>\<open>Occupied\<close>. The release that follows the action
  then clears the length of the message that has just been accepted: it stays in the queue as its last element, empty and marked as free.
\<close>

theorem MlmeEnqueue_reuses_running_element:
  assumes "mq_inv q" "mqNum q = 40" "MlmeDequeue q = (Elem, q1)" "length Msg \<le> 1600"
  shows "\<exists>q2. MlmeEnqueue False q1 Machine MsgType (of_nat (length Msg)) (Some Msg) Priv = Some (True, q2)
    \<and> elem_message (mqEntry q2 ! Elem) = (Machine, MsgType, Priv, Msg)
    \<and> last (mq_messages (mlme_free_elem Elem q2)) = (Machine, MsgType, Priv, [])"
proof -
  let ?h = "unat (mqHead q)"
  have inv: "length (mqEntry q) = 40" "?h < 40" "unat (mqTail q) = ?h" "\<forall>e\<in>set (mqEntry q). length (meMsg e) = 1600"
    using assms(1,2) by (auto simp: mq_inv_def)
  have q1: "Elem = ?h" "mqEntry q1 = mqEntry q" "mqTail q1 = mqTail q" "mqNum q1 = 39"
    "mqHead q1 = (if mqHead q + 1 = 40 then 0 else mqHead q + 1)"
    using assms(2,3) by (auto simp: MlmeDequeue_def Let_def split: if_splits)
  define e where "e = (mqEntry q ! ?h)\<lparr>meWcid := 0xff, meOccupied := True, meMachine := Machine, meMsgType := MsgType,
    meMsgLen := of_nat (length Msg), mePriv := Priv, meMsg := write_at (meMsg (mqEntry q ! ?h)) 0 Msg\<rparr>"
  have len: "unat (of_nat (length Msg) :: u64) = length Msg"
    using assms(4) by (simp add: unsigned_of_nat take_bit_nat_eq_self)
  then have e: "elem_message e = (Machine, MsgType, Priv, Msg)"
    by (simp add: e_def elem_message_def take_write_at_0)
  obtain q2 where q2: "MlmeEnqueue False q1 Machine MsgType (of_nat (length Msg)) (Some Msg) Priv = Some (True, q2)"
    "mqEntry q2 = (mqEntry q)[?h := e]" "mqNum q2 = 40" "mqHead q2 = mqHead q1"
  proof -
    obtain q0 where c: "mlme_claim_tail q1 = (?h, q0)" "mqEntry q0 = mqEntry q" "mqNum q0 = 40" "mqHead q0 = mqHead q1"
      using q1 inv(3) by (simp add: mlme_claim_tail_def Let_def)
    have "\<not> (of_nat (length Msg) :: u64) > 1600"
      using assms(4) len by (simp add: word_less_nat_alt)
    then have "MlmeEnqueue False q1 Machine MsgType (of_nat (length Msg)) (Some Msg) Priv
        = Some (True, q0\<lparr>mqEntry := (mqEntry q)[?h := e]\<rparr>)"
      unfolding MlmeEnqueue_def MlmeQueueFull_def c(1) Let_def prod.case option.case e_def by (simp add: len q1(4) c(2))
    then show ?thesis
      using that c(3,4) by simp
  qed
  let ?q = "mlme_free_elem Elem q2" and ?f = "e\<lparr>meOccupied := False, meMsgLen := 0\<rparr>"
  have q: "mqEntry ?q = (mqEntry q)[?h := ?f]" "mqNum ?q = 40" "unat (mqHead ?q) = (?h + 1) mod 40"
    using q2 q1(1,5) inv(1,2) ring_succ [OF inv(2)] by (simp_all add: mlme_free_elem_def)
  have "last (mq_elems ?q) = ?f"
  proof -
    have "mq_elems ?q = rotate ((?h + 1) mod 40) ((mqEntry q)[?h := ?f])" (is "_ = ?r")
      using q inv(1) by (simp add: mq_elems_def mq_ring_def)
    moreover have "last ?r = ?r ! 39"
      using inv(1) by (subst last_conv_nth) auto
    moreover have "((?h + 1) mod 40 + 39) mod 40 = ?h"
      unfolding mod_add_left_eq using inv(2) by simp
    ultimately show ?thesis
      using inv(1,2) by (simp add: nth_rotate)
  qed
  moreover have "mq_elems ?q \<noteq> []"
    using q(1,2) inv(1) by (auto simp: mq_elems_def mq_ring_def)
  ultimately have "last (mq_messages ?q) = (Machine, MsgType, Priv, [])"
    by (simp add: mq_messages_def last_map elem_message_def e_def)
  then show ?thesis
    using q2(1,2) e q1(1) inv(1,2) by simp
qed

theorem MlmeEnqueue_reuses_running_element_witness:
  "\<exists>q q1 q2. mq_inv q \<and> mqNum q = 40 \<and> MlmeDequeue q = (0, q1) \<and> MlmeEnqueue False q1 4 3 2 (Some [7, 8]) 0 = Some (True, q2)
    \<and> last (mq_messages (mlme_free_elem 0 q2)) = (4, 3, 0, [])"
proof -
  let ?q = "\<lparr>mqNum = 40, mqHead = 0, mqTail = 0, mqEntry = replicate 40 (ex_elem\<lparr>meOccupied := True\<rparr>)\<rparr>"
  have "mq_inv ?q"
    by (simp add: mq_inv_def mq_ring_def ex_elem_def)
  moreover obtain q1 where "MlmeDequeue ?q = (0, q1)"
    by (simp add: MlmeDequeue_def)
  ultimately show ?thesis
    using MlmeEnqueue_reuses_running_element [of ?q 0 q1 "[7, 8]" 4 3 0] by auto
qed
end
