(* ===== verification/Wpa_Handshake.thy ===== *)
theory Wpa_Handshake
  imports Eapol Mlme_Queue
begin

text \<open>
  The WPA handshakes of a station (\<^verbatim>\<open>common/cmm_wpa.c\<close>): the functions of the WPA state machine for EAPOL-Start and EAPOL-Key frames,
  the four-way and the group handshake on the side of the supplicant, and what is left of the authenticator in a station. A pointer
  to a peer is its index in the table. An action maps the adapter to the adapter after it; \<open>None\<close> is an access through a null
  pointer or outside of a buffer. The frame in the queue element is not used behind an action and not part of its result.
\<close>

section \<open>Sending\<close>

definition wpa_entry :: "wpa_adapter \<Rightarrow> nat \<Rightarrow> mac_entry" where
  "wpa_entry pAd i = tbContent (waMacTab pAd) ! i"

definition wpa_peer :: "mac_entry \<Rightarrow> bool" where
  "wpa_peer e \<longleftrightarrow> IS_ENTRY_CLIENT e \<or> IS_ENTRY_APCLI e"

definition MAKE_802_3_HEADER :: "bytes \<Rightarrow> bytes \<Rightarrow> bytes" where
  "MAKE_802_3_HEADER mac1 mac2 = take 6 mac1 @ take 6 mac2 @ [0x88, 0x8e]"

definition RTMPToWirelessSta :: "wpa_env \<Rightarrow> wpa_adapter \<Rightarrow> nat \<Rightarrow> bytes \<Rightarrow> bytes \<Rightarrow> bool \<Rightarrow> wpa_adapter" where
  "RTMPToWirelessSta env pAd i pHeader802_3 pData bClearFrame =
     (let e = wpa_entry pAd i
      in if \<not> wpa_peer e then pAd
         else if \<not> enAlloc env 8 0 then pAd
         else
           let pAd = wpa_emit (StaSendPacket pHeader802_3 pData bClearFrame (mtWcid e) (mtApidx e)) pAd
           in if enSendOk env \<and> \<not> waScanning pAd \<and> \<not> waResetting pAd then wpa_emit DeQueuePacket pAd else pAd)"

text \<open>The frame of the length in its header is sent; \<open>None\<close> is a length beyond the buffer.\<close>

definition eapol_frame :: "eapol_packet \<Rightarrow> bytes" where
  "eapol_frame f = take (CONV_ARRARY_TO_UINT16 (epBody_Len f) + 4) (eapol_bytes f)"

definition send_eapol :: "wpa_env \<Rightarrow> wpa_adapter \<Rightarrow> nat \<Rightarrow> eapol_packet \<Rightarrow> bool \<Rightarrow> wpa_adapter option" where
  "send_eapol env pAd i f bClearFrame =
     (if length (eapol_bytes f) < CONV_ARRARY_TO_UINT16 (epBody_Len f) + 4 then None
      else Some (RTMPToWirelessSta env pAd i (MAKE_802_3_HEADER (mtAddr (wpa_entry pAd i)) (waCurrentAddress pAd)) (eapol_frame f) bClearFrame))"

definition STA_PORT_SECURED :: "wpa_adapter \<Rightarrow> wpa_adapter" where
  "STA_PORT_SECURED pAd =
     wpa_emit CancelLinkDownTimer
       (wpa_update_entry BSSID_WCID (\<lambda>e. e\<lparr>mtPortSecured := WPA_802_1X_PORT_SECURED, mtPrivacyFilter := Ndis802_11PrivFilterAcceptAll\<rparr>)
         (wpa_emit IndicateMediaConnected (pAd\<lparr>waPortSecured := WPA_802_1X_PORT_SECURED\<rparr>)))"

section \<open>The supplicant\<close>

text \<open>The frame in a queue element: behind the 802.11 header and the LLC header.\<close>

definition elem_eapol :: "mlme_queue_elem \<Rightarrow> eapol_packet" where
  "elem_eapol Elem = eapol_of_bytes (drop 32 (meMsg Elem))"

abbreviation (input) MIN_EAPOL_ELEM :: u64 where "MIN_EAPOL_ELEM \<equiv> 24 + 8 + 4 + 95"

definition construct_msg ::
  "wpa_env \<Rightarrow> wpa_adapter \<Rightarrow> nat \<Rightarrow> nat \<Rightarrow> u8 \<Rightarrow> bytes option \<Rightarrow> bytes option \<Rightarrow> u8 \<Rightarrow> eapol_packet option" where
  "construct_msg env pAd i MsgType default_key KeyNonce rsnie rsnie_len =
     ConstructEapolMsg (\<lambda>k. enAlloc env (6 + k)) (enStack env) (enPool env) (wpa_entry pAd i) (waGroupCipher pAd) MsgType default_key
       KeyNonce None None rsnie rsnie_len zero_frame"

definition PeerPairMsg1Action :: "wpa_env \<Rightarrow> wpa_adapter \<Rightarrow> nat \<Rightarrow> mlme_queue_elem \<Rightarrow> wpa_adapter option" where
  "PeerPairMsg1Action env pAd i Elem =
     (let e = wpa_entry pAd i
      in if \<not> wpa_peer e then Some pAd
         else if meMsgLen Elem < MIN_EAPOL_ELEM then Some pAd
         else
           case PeerWpaMessageSanity env pAd (elem_eapol Elem) EAPOL_PAIR_MSG_1 e of
             None \<Rightarrow> None
           | Some (ok, pAd, pMsg1) \<Rightarrow>
               if \<not> ok then Some pAd
               else
                 (case GenRandom (enAlloc env 3) (enUptime env) (waCurrentAddress pAd) (mtSNonce e) of
                   None \<Rightarrow> None
                 | Some SNonce \<Rightarrow>
                     (case WpaDerivePTK (enAlloc env 4 0) (waPMK pAd) (epKeyNonce pMsg1) (mtAddr e) SNonce (waCurrentAddress pAd)
                            (enPTK env) 64 of
                       None \<Rightarrow> None
                     | Some PTK \<Rightarrow>
                         let pAd = wpa_update_entry i
                                     (\<lambda>e. e\<lparr>mtR_Counter := epReplayCounter pMsg1, mtANonce := epKeyNonce pMsg1, mtSNonce := SNonce,
                                           mtPTK := take 64 PTK, mtWpaState := AS_PTKINIT_NEGOTIATING\<rparr>) pAd
                         in if \<not> enAlloc env 5 0 then Some pAd
                            else
                              (case construct_msg env pAd i EAPOL_PAIR_MSG_2 0 (Some SNonce) (Some (waRSN_IE pAd)) (waRSNIE_Len pAd) of
                                None \<Rightarrow> None
                              | Some pEapolFrame \<Rightarrow> send_eapol env pAd i pEapolFrame True))))"

text \<open>\<^verbatim>\<open>PeerPairMsg3Action\<close>: the part behind the allocation of the answer.\<close>

definition msg3_install :: "wpa_adapter \<Rightarrow> nat \<Rightarrow> wpa_adapter" where
  "msg3_install pAd i =
     (let pAd = wpa_update_entry i (\<lambda>e. e\<lparr>mtWpaState := AS_PTKINITDONE\<rparr>) pAd;
          pAd = WPAInstallPairwiseKey (pAd\<lparr>waPTK := take 64 (mtPTK (wpa_entry pAd i))\<rparr>) 0 i False
      in if is_wpa2 (wpa_entry pAd i)
         then STA_PORT_SECURED (wpa_update_entry i
                (\<lambda>e. e\<lparr>mtPortSecured := WPA_802_1X_PORT_SECURED, mtPrivacyFilter := Ndis802_11PrivFilterAcceptAll\<rparr>) pAd)
         else pAd)"

definition PeerPairMsg3Action :: "wpa_env \<Rightarrow> wpa_adapter \<Rightarrow> nat \<Rightarrow> mlme_queue_elem \<Rightarrow> wpa_adapter option" where
  "PeerPairMsg3Action env pAd i Elem =
     (let e = wpa_entry pAd i
      in if \<not> wpa_peer e then Some pAd
         else if meMsgLen Elem < MIN_EAPOL_ELEM then Some pAd
         else
           case PeerWpaMessageSanity env pAd (elem_eapol Elem) EAPOL_PAIR_MSG_3 e of
             None \<Rightarrow> None
           | Some (ok, pAd, pMsg3) \<Rightarrow>
               if \<not> ok then Some pAd
               else
                 let pAd = wpa_update_entry i (\<lambda>e. e\<lparr>mtR_Counter := epReplayCounter pMsg3\<rparr>) pAd
                 in if mtANonce e \<noteq> epKeyNonce pMsg3 then Some pAd
                    else if \<not> enAlloc env 5 0 then Some pAd
                    else
                      (case construct_msg env pAd i EAPOL_PAIR_MSG_4 0 None None 0 of
                        None \<Rightarrow> None
                      | Some pEapolFrame \<Rightarrow> send_eapol env (msg3_install pAd i) i pEapolFrame True))"

definition PeerGroupMsg1Action :: "wpa_env \<Rightarrow> wpa_adapter \<Rightarrow> nat \<Rightarrow> mlme_queue_elem \<Rightarrow> wpa_adapter option" where
  "PeerGroupMsg1Action env pAd i Elem =
     (let e = wpa_entry pAd i; default_key = waDefaultKeyId pAd
      in if \<not> wpa_peer e then Some pAd
         else
           case PeerWpaMessageSanity env pAd (elem_eapol Elem) EAPOL_GROUP_MSG_1 e of
             None \<Rightarrow> None
           | Some (ok, pAd, pGroup) \<Rightarrow>
               if \<not> ok then Some pAd
               else
                 let pAd = wpa_update_entry i (\<lambda>e. e\<lparr>mtR_Counter := epReplayCounter pGroup\<rparr>) pAd
                 in if \<not> enAlloc env 5 0 then Some pAd
                    else
                      (case construct_msg env pAd i EAPOL_GROUP_MSG_2 default_key None None 0 of
                        None \<Rightarrow> None
                      | Some pEapolFrame \<Rightarrow>
                          let pAd = STA_PORT_SECURED (wpa_update_entry i
                                      (\<lambda>e. e\<lparr>mtPortSecured := WPA_802_1X_PORT_SECURED,
                                            mtPrivacyFilter := Ndis802_11PrivFilterAcceptAll\<rparr>) pAd);
                              pAd = (if waInfraOn pAd \<and> waConnected pAd \<and> waScanning pAd \<and> waMlmeChannel pAd = waChannel pAd
                                     then pAd\<lparr>waMlmeChannel := 0\<rparr> else pAd)
                          in send_eapol env pAd i pEapolFrame False))"

section \<open>Frames for the authenticator\<close>

text \<open>
  The actions of an authenticator are part of the station, too, but there is no BSS of its own: the pointers to its address, to the
  PMK and to the group key stay null.
\<close>

definition WPAStart4WayHS :: "wpa_adapter \<Rightarrow> nat \<Rightarrow> nat \<Rightarrow> wpa_adapter" where
  "WPAStart4WayHS pAd i TimeInterval = pAd"

definition PeerPairMsg2Action :: "wpa_adapter \<Rightarrow> nat \<Rightarrow> mlme_queue_elem \<Rightarrow> wpa_adapter" where
  "PeerPairMsg2Action pAd i Elem =
     (let e = wpa_entry pAd i
      in if \<not> IS_ENTRY_CLIENT e then pAd
         else if meMsgLen Elem < MIN_EAPOL_ELEM then pAd
         else if mtWpaState e < AS_PTKSTART then pAd
         else wpa_update_entry i (\<lambda>e. e\<lparr>mtSNonce := epKeyNonce (elem_eapol Elem)\<rparr>) pAd)"

text \<open>\<^verbatim>\<open>WPAStart2WayGroupHS\<close> returns behind the construction, since the address is null.\<close>

definition WPAStart2WayGroupHS :: "wpa_env \<Rightarrow> wpa_adapter \<Rightarrow> nat \<Rightarrow> wpa_adapter option" where
  "WPAStart2WayGroupHS env pAd i =
     (if \<not> IS_ENTRY_CLIENT (wpa_entry pAd i) then Some pAd
      else if \<not> enAlloc env 5 0 then Some pAd
      else
        let pAd = wpa_update_entry i (\<lambda>e. e\<lparr>mtR_Counter := ADD_ONE_To_64BIT_VAR (mtR_Counter e)\<rparr>) pAd
        in map_option (\<lambda>f. pAd)
             (ConstructEapolMsg (\<lambda>k. enAlloc env (6 + k)) (enStack env) (enPool env) (wpa_entry pAd i) Ndis802_11WEPDisabled
                EAPOL_GROUP_MSG_1 0 None (Some (enTxTsc env)) None None 0 zero_frame))"

definition PeerPairMsg4Action :: "wpa_env \<Rightarrow> wpa_adapter \<Rightarrow> nat \<Rightarrow> mlme_queue_elem \<Rightarrow> wpa_adapter option" where
  "PeerPairMsg4Action env pAd i Elem =
     (let e = wpa_entry pAd i
      in if \<not> IS_ENTRY_CLIENT e then Some pAd
         else if meMsgLen Elem < MIN_EAPOL_ELEM then Some pAd
         else if mtWpaState e < AS_PTKINIT_NEGOTIATING then Some pAd
         else
           case PeerWpaMessageSanity env pAd (elem_eapol Elem) EAPOL_PAIR_MSG_4 e of
             None \<Rightarrow> None
           | Some (ok, pAd, pMsg4) \<Rightarrow>
               if \<not> ok then Some pAd
               else
                 let pAd = wpa_update_entry i
                             (\<lambda>e. e\<lparr>mtPrivacyFilter := Ndis802_11PrivFilterAcceptAll, mtWpaState := AS_PTKINITDONE,
                                   mtPortSecured := WPA_802_1X_PORT_SECURED\<rparr>)
                             (WPAInstallPairwiseKey pAd (mtApidx e) i True)
                 in if is_wpa2 e then
                      Some (wpa_emit (WirelessEvent 0x020E (mtAddr e) (mtApidx e))
                             (wpa_emit (CancelRetryTimer i) (wpa_update_entry i (\<lambda>e. e\<lparr>mtGTKState := REKEY_ESTABLISHED\<rparr>) pAd)))
                    else
                      map_option (\<lambda>pAd. wpa_emit (ModRetryTimer i 3000) (wpa_update_entry i (\<lambda>e. e\<lparr>mtReTryCounter := 20\<rparr>) pAd))
                        (WPAStart2WayGroupHS env pAd i))"

definition PeerGroupMsg2Action :: "wpa_env \<Rightarrow> wpa_adapter \<Rightarrow> nat \<Rightarrow> mlme_queue_elem \<Rightarrow> wpa_adapter option" where
  "PeerGroupMsg2Action env pAd i Elem =
     (let e = wpa_entry pAd i
      in if \<not> IS_ENTRY_CLIENT e then Some pAd
         else if (ucast (meMsgLen Elem - 24) :: u32) < 8 + 4 + 95 then Some pAd
         else if mtWpaState e \<noteq> AS_PTKINITDONE then Some pAd
         else
           case PeerWpaMessageSanity env pAd (elem_eapol Elem) EAPOL_GROUP_MSG_2 e of
             None \<Rightarrow> None
           | Some (ok, pAd, pMsg2) \<Rightarrow>
               if \<not> ok then Some pAd
               else
                 Some (wpa_emit (WirelessEvent (if is_wpa2 e then 0x020E else 0x020D) (mtAddr e) (mtApidx e))
                        (wpa_update_entry i (\<lambda>e. e\<lparr>mtGTKState := REKEY_ESTABLISHED\<rparr>) (wpa_emit (CancelRetryTimer i) pAd))))"

section \<open>The state machine functions\<close>

text \<open>The outer \<open>None\<close> of the search is a chain that does not end.\<close>

definition WpaEAPOLStart_handler :: "wpa_adapter \<Rightarrow> mlme_queue_elem \<Rightarrow> wpa_adapter option" where
  "WpaEAPOLStart_handler pAd Elem =
     (case MacTableLookup (waMacTab pAd) (if meMsgLen Elem = 6 then meMsg Elem else drop 10 (meMsg Elem)) of
        None \<Rightarrow> None
      | Some None \<Rightarrow> Some pAd
      | Some (Some i) \<Rightarrow>
          let e = wpa_entry pAd i
          in if mtPortSecured e = WPA_802_1X_PORT_NOT_SECURED \<and> mtWpaState e < AS_PTKSTART \<and>
                (mtAuthMode e = Ndis802_11AuthModeWPAPSK \<or> mtAuthMode e = Ndis802_11AuthModeWPA2PSK \<or>
                 mtAuthMode e = Ndis802_11AuthModeWPA2 \<and> mtPMKID_CacheIdx e \<noteq> ENTRY_NOT_FOUND)
             then Some (WPAStart4WayHS (wpa_update_entry i
                    (\<lambda>e. e\<lparr>mtPrivacyFilter := Ndis802_11PrivFilter8021xWEP, mtWpaState := AS_INITPSK,
                          mtPortSecured := WPA_802_1X_PORT_NOT_SECURED, mtR_Counter := replicate 8 0, mtReTryCounter := 0\<rparr>) pAd) i 1000)
             else Some pAd)"

text \<open>The dispatch of \<^verbatim>\<open>WpaEAPOLKeyAction\<close> by the key information.\<close>

definition eapol_key_dispatch :: "wpa_env \<Rightarrow> wpa_adapter \<Rightarrow> nat \<Rightarrow> key_info \<Rightarrow> mlme_queue_elem \<Rightarrow> wpa_adapter option" where
  "eapol_key_dispatch env pAd i ki Elem =
     (if kiKeyAck ki then
        if \<not> kiSecure ki \<and> \<not> kiRequest ki \<and> \<not> kiError ki \<and> kiKeyType ki then
          (if \<not> kiKeyMic ki then PeerPairMsg1Action env pAd i Elem else PeerPairMsg3Action env pAd i Elem)
        else if kiSecure ki \<and> kiKeyMic ki \<and> \<not> kiRequest ki \<and> \<not> kiError ki then
          (if kiKeyType ki then PeerPairMsg3Action env pAd i Elem else PeerGroupMsg1Action env pAd i Elem)
        else Some pAd
      else if \<not> kiRequest ki \<and> \<not> kiError ki \<and> kiKeyMic ki then
        if \<not> kiSecure ki \<and> kiKeyType ki then
          (if CONV_ARRARY_TO_UINT16 (epKeyDataLen (elem_eapol Elem)) = 0 then PeerPairMsg4Action env pAd i Elem
           else Some (PeerPairMsg2Action pAd i Elem))
        else if kiSecure ki \<and> kiKeyType ki then PeerPairMsg4Action env pAd i Elem
        else if kiSecure ki \<and> \<not> kiKeyType ki then PeerGroupMsg2Action env pAd i Elem
        else Some pAd
      else Some pAd)"

definition WpaEAPOLKey_handler :: "wpa_env \<Rightarrow> wpa_adapter \<Rightarrow> mlme_queue_elem \<Rightarrow> wpa_adapter option" where
  "WpaEAPOLKey_handler env pAd Elem =
     (let p = elem_eapol Elem; ki = epKeyInfo p; eapol_len = CONV_ARRARY_TO_UINT16 (epBody_Len p) + 4
      in case MacTableLookup (waMacTab pAd) (drop 10 (meMsg Elem)) of
           None \<Rightarrow> None
         | Some None \<Rightarrow> Some pAd
         | Some (Some i) \<Rightarrow>
             let e = wpa_entry pAd i
             in if \<not> wpa_peer e then Some pAd
                else if mtAuthMode e < Ndis802_11AuthModeWPA then Some pAd
                else if of_nat eapol_len > meMsgLen Elem - 24 - 8 then Some pAd
                else if epProVer p \<noteq> 1 \<and> epProVer p \<noteq> 2 \<or> epType p \<noteq> 0xfe \<and> epType p \<noteq> 0x02 then Some pAd
                else if mtWepStatus e = Ndis802_11TKIPEnable \<and> kiKeyDescVer ki \<noteq> KEY_DESC_TKIP then Some pAd
                else if mtWepStatus e \<noteq> Ndis802_11TKIPEnable \<and> mtWepStatus e = Ndis802_11AESEnable \<and>
                        kiKeyDescVer ki \<noteq> KEY_DESC_AES \<and> kiKeyDescVer ki \<noteq> KEY_DESC_EXT then Some pAd
                else if mtSst e = SST_ASSOC \<and> mtWpaState e \<ge> AS_INITPSK then eapol_key_dispatch env pAd i ki Elem
                else Some pAd)"

text \<open>The timer function that starts a handshake; the last assignment is done through a null pointer, too.\<close>

definition EnqueueStartForPSKExec :: "wpa_adapter \<Rightarrow> nat option \<Rightarrow> wpa_adapter option" where
  "EnqueueStartForPSKExec pAd pEntry =
     (case pEntry of
        None \<Rightarrow> None
      | Some i \<Rightarrow>
          let e = wpa_entry pAd i;
              pAd = (if IS_ENTRY_CLIENT e \<and> mtWpaState e < AS_PTKSTART \<and> mtEapolStartTimer e = 1
                     then wpa_emit (EnqueueEAPOLStart (take 6 (mtAddr e))) pAd else pAd)
          in Some (wpa_update_entry i (\<lambda>e. e\<lparr>mtEapolStartTimer := 0\<rparr>) pAd))"

section \<open>Answers\<close>

text \<open>The answers of a station: message 2 with its nonce and its RSN element, message 4 and message 2 of the group handshake.\<close>

definition answer_message :: "nat \<Rightarrow> bool" where
  "answer_message MsgType \<longleftrightarrow> MsgType = EAPOL_PAIR_MSG_2 \<or> MsgType = EAPOL_PAIR_MSG_4 \<or> MsgType = EAPOL_GROUP_MSG_2"

definition answer_fields :: "mac_entry \<Rightarrow> nat \<Rightarrow> nat \<Rightarrow> u8 \<Rightarrow> bytes \<Rightarrow> eapol_packet" where
  "answer_fields pEntry g MsgType idx nonce =
     zero_frame\<lparr>epProVer := 1, epProType := 3, epBody_Len := SET_UINT16_TO_ARRARY 95, epType := (if is_wpa2 pEntry then 0x02 else 0xfe),
       epKeyInfo := eapol_key_info (is_wpa2 pEntry) (eapol_key_desc_ver pEntry g) MsgType idx (epKeyInfo zero_frame),
       epKeyLength := eapol_key_length pEntry g MsgType (epKeyLength zero_frame), epReplayCounter := mtR_Counter pEntry,
       epKeyNonce := (if MsgType = EAPOL_PAIR_MSG_2 then take 32 nonce else epKeyNonce zero_frame)\<rparr>"

definition answer_data :: "nat \<Rightarrow> bytes \<Rightarrow> u8 \<Rightarrow> bytes" where
  "answer_data MsgType rsnie rl =
     (if MsgType = EAPOL_PAIR_MSG_2 \<and> rl \<noteq> 0
      then (if read_at 2 3 rsnie = OUI_WPA2 then IE_RSN else IE_WPA) # rl # take (unat rl) rsnie else [])"

definition answer_frame :: "mac_entry \<Rightarrow> nat \<Rightarrow> nat \<Rightarrow> u8 \<Rightarrow> bytes \<Rightarrow> bytes \<Rightarrow> u8 \<Rightarrow> bytes \<Rightarrow> eapol_packet" where
  "answer_frame pEntry g MsgType idx nonce rsnie rl rest =
     (let d = answer_data MsgType rsnie rl; f = eapol_with_data (answer_fields pEntry g MsgType idx nonce) d rest
      in f\<lparr>epKeyMic := mic_spec (eapol_key_desc_ver pEntry g) (mtPTK pEntry) (eapol_header f @ d)\<rparr>)"

lemma zero_frame_fields [simp]:
  "epKeyMic zero_frame = replicate 16 0" "epKeyData zero_frame = replicate 1401 0" "epKeyDataLen zero_frame = [0, 0]"
  by (simp_all add: zero_frame_def)

lemma answer_fields_wf:
  assumes "length nonce = 32" and "length (mtR_Counter pEntry) = 8"
  shows "eapol_wf (answer_fields pEntry g MsgType idx nonce)"
proof -
  have "x AND 3 < 4" "x AND 7 < 8" for x :: u8
    using word_and_le1 [of x 3] word_and_le1 [of x 7] by (auto simp: word_less_nat_alt word_le_nat_alt)
  then show ?thesis
    using assms by (auto simp: eapol_wf_def answer_fields_def eapol_key_info_def eapol_key_length_def Let_def zero_frame_def)
qed

lemma length_answer_data: "unat rl \<le> 253 \<Longrightarrow> unat rl \<le> length rsnie \<Longrightarrow> length (answer_data MsgType rsnie rl) \<le> 255"
  by (simp add: answer_data_def)

lemma SET_UINT16_zero: "SET_UINT16_TO_ARRARY 0 = [0, 0]"
  by (simp add: SET_UINT16_TO_ARRARY_def)

lemma ConstructEapolKeyData_answer:
  assumes "answer_message MsgType" and "al 0" and "unat rl \<le> 253" and "unat rl \<le> length rsnie"
    and "f = answer_fields pEntry g MsgType idx nonce"
  shows "\<exists>rest. ConstructEapolKeyData al stk e pEntry g ver MsgType idx None (if MsgType = EAPOL_PAIR_MSG_2 then Some rsnie else None)
      (if MsgType = EAPOL_PAIR_MSG_2 then rl else 0) f = Some (eapol_with_data f (answer_data MsgType rsnie rl) rest)"
proof (cases "MsgType = EAPOL_PAIR_MSG_2")
  case True
  let ?d = "answer_data MsgType rsnie rl"
  have f: "epBody_Len f = SET_UINT16_TO_ARRARY 95" "length (epKeyData f) = 1401" by (simp_all add: assms(5) answer_fields_def)
  have ins: "(if rl \<noteq> 0 then RTMPInsertRSNIE (replicate 512 0) 0 rsnie rl [] 0 else (replicate 512 0, 0)) =
      (write_at (replicate 512 0) 0 ?d, length ?d)"
    using assms(3,4) True by (simp add: RTMPInsertRSNIE_def Let_def write_at_def answer_data_def)
  then have "ConstructEapolKeyData al stk e pEntry g ver MsgType idx None (if MsgType = EAPOL_PAIR_MSG_2 then Some rsnie else None)
      (if MsgType = EAPOL_PAIR_MSG_2 then rl else 0) f = eapol_set_data f (write_at (replicate 512 0) 0 ?d) (length ?d)"
    using True assms(2) by (auto simp: ConstructEapolKeyData_def Let_def split: if_splits)
  then show ?thesis
    using eapol_set_data_ok [OF f(1) length_answer_data [OF assms(3,4)], of MsgType "replicate 512 0"] f(2)
      length_answer_data [OF assms(3,4), of MsgType] by auto
next
  case False
  then have "ConstructEapolKeyData al stk e pEntry g ver MsgType idx None (if MsgType = EAPOL_PAIR_MSG_2 then Some rsnie else None)
      (if MsgType = EAPOL_PAIR_MSG_2 then rl else 0) f = Some f"
    using assms(1) by (auto simp: ConstructEapolKeyData_def answer_message_def)
  moreover have "f = eapol_with_data f (answer_data MsgType rsnie rl) (epKeyData f)"
    using False by (simp add: assms(5) eapol_with_data_def answer_data_def answer_fields_def SET_UINT16_zero zero_frame_def)
  ultimately show ?thesis by metis
qed

lemma ConstructEapolMsg_answer:
  assumes "answer_message MsgType" and "\<And>i n. al i n" and "length nonce = 32" and "length (mtR_Counter pEntry) = 8"
    and "16 \<le> length (mtPTK pEntry)" and "unat rl \<le> 253" and "unat rl \<le> length rsnie"
  shows "\<exists>rest. ConstructEapolMsg al stk e pEntry g MsgType idx (if MsgType = EAPOL_PAIR_MSG_2 then Some nonce else None) None None
      (if MsgType = EAPOL_PAIR_MSG_2 then Some rsnie else None) (if MsgType = EAPOL_PAIR_MSG_2 then rl else 0) zero_frame =
    Some (answer_frame pEntry g MsgType idx nonce rsnie rl rest)"
proof -
  let ?f = "answer_fields pEntry g MsgType idx nonce" and ?ver = "eapol_key_desc_ver pEntry g" and ?d = "answer_data MsgType rsnie rl"
  have m: "(if MsgType \<noteq> EAPOL_PAIR_MSG_1 then a else b) = a" for a b :: "eapol_packet option"
    using assms(1) by (auto simp: answer_message_def)
  obtain rest where k: "ConstructEapolKeyData (al 0) stk e pEntry g ?ver MsgType idx None
      (if MsgType = EAPOL_PAIR_MSG_2 then Some rsnie else None) (if MsgType = EAPOL_PAIR_MSG_2 then rl else 0) ?f =
        Some (eapol_with_data ?f ?d rest)"
    using ConstructEapolKeyData_answer [of MsgType "al 0" rl rsnie ?f] assms by blast
  have z: "zero_frame\<lparr>epKeyMic := replicate 16 0\<rparr> = zero_frame" by (simp add: zero_frame_def)
  have "ConstructEapolMsg al stk e pEntry g MsgType idx (if MsgType = EAPOL_PAIR_MSG_2 then Some nonce else None) None None
      (if MsgType = EAPOL_PAIR_MSG_2 then Some rsnie else None) (if MsgType = EAPOL_PAIR_MSG_2 then rl else 0) zero_frame =
    (case ConstructEapolKeyData (al 0) stk e pEntry g ?ver MsgType idx None (if MsgType = EAPOL_PAIR_MSG_2 then Some rsnie else None)
            (if MsgType = EAPOL_PAIR_MSG_2 then rl else 0) ?f of
       None \<Rightarrow> None
     | Some f \<Rightarrow> CalculateMIC (al 1) ?ver (mtPTK pEntry) f)"
    unfolding ConstructEapolMsg_def Let_def m using assms(1)
    by (auto simp: answer_message_def answer_fields_def zero_frame_def)
  moreover have "CalculateMIC (al 1) ?ver (mtPTK pEntry) (eapol_with_data ?f ?d rest) = Some (answer_frame pEntry g MsgType idx nonce rsnie rl rest)"
    unfolding answer_frame_def Let_def
    by (rule CalculateMIC_ok [OF assms(2) answer_fields_wf [OF assms(3,4)] length_answer_data [OF assms(6,7)] assms(5) _ refl])
      (simp add: eapol_key_desc_ver_def)
  ultimately show ?thesis using k by auto
qed

text \<open>A peer with the same PTK and the same replay counter accepts an answer.\<close>

lemma answer_accepted:
  assumes "answer_message MsgType" and "enAlloc env 0 0" and "length nonce = 32" and "length (mtR_Counter tx) = 8"
    and "16 \<le> length (mtPTK tx)" and "unat rl \<le> 253" and "unat rl \<le> length rsnie"
    and "mtPTK rx = mtPTK tx" and "mtR_Counter rx = mtR_Counter tx"
  shows "\<exists>r. PeerWpaMessageSanity env pAd (eapol_of_bytes (eapol_frame (answer_frame tx g MsgType idx nonce rsnie rl rest) @ junk)) MsgType rx =
    Some (True, pAd, r)"
proof -
  let ?f = "answer_fields tx g MsgType idx nonce" and ?ver = "eapol_key_desc_ver tx g" and ?d = "answer_data MsgType rsnie rl"
  define mic where "mic = mic_spec ?ver (mtPTK tx) (eapol_header (eapol_with_data ?f ?d rest) @ ?d)"
  define r where "r = (eapol_with_data ?f ?d junk)\<lparr>epKeyMic := mic\<rparr>"
  have wf: "eapol_wf ?f" by (rule answer_fields_wf [OF assms(3,4)])
  have ld: "length ?d \<le> 255" by (rule length_answer_data [OF assms(6,7)])
  have ver: "?ver = KEY_DESC_AES \<or> ?ver = KEY_DESC_TKIP" by (simp add: eapol_key_desc_ver_def)
  have f: "epKeyMic ?f = replicate 16 0" "kiKeyDescVer (epKeyInfo ?f) = ?ver" "epReplayCounter ?f = mtR_Counter tx"
    using ver by (auto simp: answer_fields_def eapol_key_info_def)
  have rec: "eapol_of_bytes (eapol_frame (answer_frame tx g MsgType idx nonce rsnie rl rest) @ junk) = r"
    unfolding eapol_frame_def r_def
    by (rule eapol_sent [OF wf _ ld]) (simp_all add: answer_frame_def Let_def mic_def)
  have rm: "received_mic env rx r = Some mic"
    unfolding r_def mic_def using assms(8) received_mic_ok [where pEntry = rx and env = env and junk = junk and rest = rest, OF wf f(1) ld _ f(2) ver] assms(5) by simp
  have rep: "\<not> replay_differs rx MsgType r"
    using assms(1,9) f(3) by (auto simp: replay_differs_def answer_message_def r_def eapol_with_data_def)
  have "\<exists>r'. sanity_key_data env pAd (r\<lparr>epKeyMic := replicate 16 0\<rparr>) MsgType rx = Some (True, pAd, r')"
    using assms(1,6)
    by (auto simp: sanity_key_data_def Let_def answer_message_def RTMPParseEapolKeyData_def r_def eapol_with_data_def answer_data_def)
  then show ?thesis
    unfolding rec using assms(1,2) rep rm by (auto simp: PeerWpaMessageSanity_def answer_message_def r_def)
qed

section \<open>Message 1\<close>

text \<open>Memory is available, and the arrays have the sizes of the source.\<close>

definition env_ok :: "wpa_env \<Rightarrow> bool" where
  "env_ok env \<longleftrightarrow> (\<forall>i n. enAlloc env i n) \<and> length (enStack env) = 16 \<and> length (enPool env) = 512 \<and> length (enPTK env) = 80"

definition adapter_ok :: "wpa_adapter \<Rightarrow> bool" where
  "adapter_ok pAd \<longleftrightarrow> length (waCurrentAddress pAd) = 6 \<and> length (waPMK pAd) = 32 \<and> length (waRSN_IE pAd) = 255 \<and>
     unat (waRSNIE_Len pAd) \<le> 253 \<and>
     (\<forall>e \<in> set (tbContent (waMacTab pAd)). length (mtAddr e) = 6 \<and> length (mtSNonce e) = 32 \<and> length (mtANonce e) = 32 \<and>
        length (mtR_Counter e) = 8 \<and> length (mtPTK e) = 64)"

definition elem_ok :: "mlme_queue_elem \<Rightarrow> bool" where
  "elem_ok Elem \<longleftrightarrow> length (meMsg Elem) = 1600"

lemma adapter_entry:
  assumes "adapter_ok pAd" and "i < length (tbContent (waMacTab pAd))" and "e = wpa_entry pAd i"
  shows "length (mtAddr e) = 6" "length (mtSNonce e) = 32" "length (mtANonce e) = 32" "length (mtR_Counter e) = 8" "length (mtPTK e) = 64"
  using assms by (simp_all add: adapter_ok_def wpa_entry_def)

lemma elem_eapol_lengths:
  assumes "elem_ok Elem"
  shows "length (epReplayCounter (elem_eapol Elem)) = 8" "length (epKeyNonce (elem_eapol Elem)) = 32"
  using assms by (simp_all add: elem_ok_def elem_eapol_def eapol_of_bytes_def)

lemma wpa_entry_update [simp]:
  "i < length (tbContent (waMacTab pAd)) \<Longrightarrow> wpa_entry (wpa_update_entry i f pAd) j = (if j = i then f (wpa_entry pAd i) else wpa_entry pAd j)"
  by (simp add: wpa_entry_def wpa_update_entry_def)

lemma wpa_update_fields [simp]:
  "waCurrentAddress (wpa_update_entry i f pAd) = waCurrentAddress pAd" "waRSN_IE (wpa_update_entry i f pAd) = waRSN_IE pAd"
  "waRSNIE_Len (wpa_update_entry i f pAd) = waRSNIE_Len pAd" "waGroupCipher (wpa_update_entry i f pAd) = waGroupCipher pAd"
  "waEvents (wpa_update_entry i f pAd) = waEvents pAd" "waPortSecured (wpa_update_entry i f pAd) = waPortSecured pAd"
  "length (tbContent (waMacTab (wpa_update_entry i f pAd))) = length (tbContent (waMacTab pAd))"
  by (simp_all add: wpa_update_entry_def)

lemma wpa_emit_fields [simp]:
  "waMacTab (wpa_emit ev pAd) = waMacTab pAd" "waEvents (wpa_emit ev pAd) = waEvents pAd @ [ev]" "wpa_entry (wpa_emit ev pAd) i = wpa_entry pAd i"
  "waPortSecured (wpa_emit ev pAd) = waPortSecured pAd" "waCurrentAddress (wpa_emit ev pAd) = waCurrentAddress pAd"
  "waPTK (wpa_emit ev pAd) = waPTK pAd"
  by (simp_all add: wpa_emit_def wpa_entry_def)

lemma RTMPToWirelessSta_fields [simp]:
  "wpa_entry (RTMPToWirelessSta env pAd i h d c) j = wpa_entry pAd j" "waPortSecured (RTMPToWirelessSta env pAd i h d c) = waPortSecured pAd"
  "waPTK (RTMPToWirelessSta env pAd i h d c) = waPTK pAd"
  by (simp_all add: RTMPToWirelessSta_def Let_def)

lemma RTMPToWirelessSta_sends:
  assumes "wpa_peer (wpa_entry pAd i)" and "env_ok env"
  shows "StaSendPacket h d c (mtWcid (wpa_entry pAd i)) (mtApidx (wpa_entry pAd i)) \<in> set (waEvents (RTMPToWirelessSta env pAd i h d c))"
  using assms by (simp add: RTMPToWirelessSta_def env_ok_def Let_def)

lemma sanity_msg1:
  assumes "enAlloc env 0 0" and "\<not> replay_differs e EAPOL_PAIR_MSG_1 p"
  shows "PeerWpaMessageSanity env pAd p EAPOL_PAIR_MSG_1 e = Some (True, pAd, p)"
  using assms by (simp add: PeerWpaMessageSanity_def sanity_key_data_def Let_def)

lemma answer_frame_fits:
  assumes "length nonce = 32" and "length (mtR_Counter e) = 8" and "unat rl \<le> 253" and "unat rl \<le> length rsnie"
  shows "CONV_ARRARY_TO_UINT16 (epBody_Len (answer_frame e g MsgType idx nonce rsnie rl rest)) + 4 \<le>
    length (eapol_bytes (answer_frame e g MsgType idx nonce rsnie rl rest))"
proof -
  let ?f = "answer_frame e g MsgType idx nonce rsnie rl rest" and ?d = "answer_data MsgType rsnie rl"
  have w: "eapol_wf ?f"
    using answer_fields_wf [OF assms(1,2)] by (simp add: answer_frame_def Let_def eapol_wf_def eapol_with_data_def)
  have "epBody_Len ?f = SET_UINT16_TO_ARRARY (95 + length ?d)" "epKeyData ?f = ?d @ rest"
    by (simp_all add: answer_frame_def Let_def eapol_with_data_def)
  then show ?thesis using length_eapol_bytes [OF w] length_answer_data [OF assms(3,4), of MsgType] by simp
qed

lemma answer_nonce:
  assumes "length nonce = 32" and "length (mtR_Counter e) = 8" and "unat rl \<le> 253" and "unat rl \<le> length rsnie"
  shows "epKeyNonce (eapol_of_bytes (eapol_frame (answer_frame e g EAPOL_PAIR_MSG_2 idx nonce rsnie rl rest) @ junk)) = nonce"
proof -
  let ?d = "answer_data EAPOL_PAIR_MSG_2 rsnie rl" and ?f = "answer_fields e g EAPOL_PAIR_MSG_2 idx nonce"
  have "eapol_of_bytes (eapol_frame (answer_frame e g EAPOL_PAIR_MSG_2 idx nonce rsnie rl rest) @ junk) =
      (eapol_with_data ?f ?d junk)\<lparr>epKeyMic := mic_spec (eapol_key_desc_ver e g) (mtPTK e) (eapol_header (eapol_with_data ?f ?d rest) @ ?d)\<rparr>"
    unfolding eapol_frame_def
    by (rule eapol_sent [OF answer_fields_wf [OF assms(1,2)] _ length_answer_data [OF assms(3,4)]]) (simp_all add: answer_frame_def Let_def)
  then show ?thesis using assms(1) by (simp add: eapol_with_data_def answer_fields_def)
qed

lemma PeerPairMsg1Action_run:
  assumes "env_ok env" and "adapter_ok pAd" and "elem_ok Elem" and "i < length (tbContent (waMacTab pAd))"
    and "wpa_peer (wpa_entry pAd i)" and "MIN_EAPOL_ELEM \<le> meMsgLen Elem"
    and "\<not> replay_differs (wpa_entry pAd i) EAPOL_PAIR_MSG_1 (elem_eapol Elem)"
  shows "\<exists>SNonce PTK rest pAd1. length SNonce = 32 \<and> length PTK = 80 \<and>
    WpaDerivePTK True (waPMK pAd) (epKeyNonce (elem_eapol Elem)) (mtAddr (wpa_entry pAd i)) SNonce (waCurrentAddress pAd) (enPTK env) 64 = Some PTK \<and>
    pAd1 = wpa_update_entry i
      (\<lambda>e. e\<lparr>mtR_Counter := epReplayCounter (elem_eapol Elem), mtANonce := epKeyNonce (elem_eapol Elem), mtSNonce := SNonce,
            mtPTK := take 64 PTK, mtWpaState := AS_PTKINIT_NEGOTIATING\<rparr>) pAd \<and>
    PeerPairMsg1Action env pAd i Elem =
      send_eapol env pAd1 i
        (answer_frame (wpa_entry pAd1 i) (waGroupCipher pAd) EAPOL_PAIR_MSG_2 0 SNonce (waRSN_IE pAd) (waRSNIE_Len pAd) rest) True"
proof -
  let ?e = "wpa_entry pAd i" and ?p = "elem_eapol Elem"
  note e = adapter_entry [OF assms(2,4) refl]
  note p = elem_eapol_lengths [OF assms(3)]
  have al: "enAlloc env k n" for k n using assms(1) by (simp add: env_ok_def)
  have ad: "length (waCurrentAddress pAd) = 6" "length (waPMK pAd) = 32" "length (waRSN_IE pAd) = 255" "unat (waRSNIE_Len pAd) \<le> 253"
    using assms(2) by (simp_all add: adapter_ok_def)
  obtain SNonce where n: "GenRandom (enAlloc env 3) (enUptime env) (waCurrentAddress pAd) (mtSNonce ?e) = Some SNonce" "length SNonce = 32"
    using GenRandom_total [of "enAlloc env 3" "waCurrentAddress pAd" "mtSNonce ?e" "enUptime env"] al ad e by (auto simp: alloc_ok_def)
  obtain PTK where k: "WpaDerivePTK True (waPMK pAd) (epKeyNonce ?p) (mtAddr ?e) SNonce (waCurrentAddress pAd) (enPTK env) 64 = Some PTK"
      "length PTK = 80"
    using WpaDerivePTK_ok [OF ad(2) e(1) ad(1) p(2) n(2), of 64 "enPTK env"] assms(1) by (auto simp: env_ok_def)
  define pAd1 where "pAd1 = wpa_update_entry i
      (\<lambda>e. e\<lparr>mtR_Counter := epReplayCounter ?p, mtANonce := epKeyNonce ?p, mtSNonce := SNonce,
            mtPTK := take 64 PTK, mtWpaState := AS_PTKINIT_NEGOTIATING\<rparr>) pAd"
  have e1: "length (mtR_Counter (wpa_entry pAd1 i)) = 8" "16 \<le> length (mtPTK (wpa_entry pAd1 i))"
    using assms(4) p(1) k(2) by (simp_all add: pAd1_def)
  obtain rest where c: "construct_msg env pAd1 i EAPOL_PAIR_MSG_2 0 (Some SNonce) (Some (waRSN_IE pAd1)) (waRSNIE_Len pAd1) =
      Some (answer_frame (wpa_entry pAd1 i) (waGroupCipher pAd) EAPOL_PAIR_MSG_2 0 SNonce (waRSN_IE pAd) (waRSNIE_Len pAd) rest)"
    using ConstructEapolMsg_answer [of EAPOL_PAIR_MSG_2 "\<lambda>k. enAlloc env (6 + k)" SNonce "wpa_entry pAd1 i" "waRSNIE_Len pAd" "waRSN_IE pAd"
        "enStack env" "enPool env" "waGroupCipher pAd" 0] al n(2) e1 ad
    by (auto simp: construct_msg_def answer_message_def pAd1_def)
  have len: "\<not> meMsgLen Elem < 131" using assms(6) by (simp add: not_less)
  have g: "PeerPairMsg1Action env pAd i Elem =
      send_eapol env pAd1 i
        (answer_frame (wpa_entry pAd1 i) (waGroupCipher pAd) EAPOL_PAIR_MSG_2 0 SNonce (waRSN_IE pAd) (waRSNIE_Len pAd) rest) True"
    unfolding PeerPairMsg1Action_def Let_def
    using assms(5) len sanity_msg1 [OF al assms(7), of pAd] n k al c by (simp add: pAd1_def [symmetric])
  show ?thesis using n(2) k(1,2) pAd1_def g by blast
qed

text \<open>
  (C2) A station that gets a fresh message 1 derives the PTK of IEEE 802.11i from the nonce in it and from a nonce of its own,
  and sends message 2 with its nonce. An authenticator that derives the same PTK and waits for the replay counter of its message
  accepts message 2: the MIC is the one it expects.
\<close>

theorem PeerPairMsg1Action_message_2:
  assumes "env_ok env" and "adapter_ok pAd" and "elem_ok Elem" and "i < length (tbContent (waMacTab pAd))"
    and "wpa_peer (wpa_entry pAd i)" and "MIN_EAPOL_ELEM \<le> meMsgLen Elem"
    and "\<not> replay_differs (wpa_entry pAd i) EAPOL_PAIR_MSG_1 (elem_eapol Elem)"
  shows "\<exists>pAd' SNonce f. PeerPairMsg1Action env pAd i Elem = Some pAd' \<and> length SNonce = 32 \<and>
    (SNonce \<noteq> epKeyNonce (elem_eapol Elem) \<longrightarrow> mtPTK (wpa_entry pAd' i) =
       ptk_802_11i (waPMK pAd) (epKeyNonce (elem_eapol Elem)) (mtAddr (wpa_entry pAd i)) SNonce (waCurrentAddress pAd) 64) \<and>
    mtWpaState (wpa_entry pAd' i) = AS_PTKINIT_NEGOTIATING \<and> mtANonce (wpa_entry pAd' i) = epKeyNonce (elem_eapol Elem) \<and>
    StaSendPacket (MAKE_802_3_HEADER (mtAddr (wpa_entry pAd i)) (waCurrentAddress pAd)) (eapol_frame f) True
      (mtWcid (wpa_entry pAd i)) (mtApidx (wpa_entry pAd i)) \<in> set (waEvents pAd') \<and>
    (\<forall>junk. epKeyNonce (eapol_of_bytes (eapol_frame f @ junk)) = SNonce) \<and>
    (\<forall>env2 ap peer junk. enAlloc env2 0 0 \<and> mtPTK peer = mtPTK (wpa_entry pAd' i) \<and> mtR_Counter peer = epReplayCounter (elem_eapol Elem) \<longrightarrow>
       (\<exists>r. PeerWpaMessageSanity env2 ap (eapol_of_bytes (eapol_frame f @ junk)) EAPOL_PAIR_MSG_2 peer = Some (True, ap, r)))"
proof -
  let ?e = "wpa_entry pAd i" and ?p = "elem_eapol Elem"
  obtain SNonce PTK rest pAd1 where n: "length SNonce = 32" "length PTK = 80"
      "WpaDerivePTK True (waPMK pAd) (epKeyNonce ?p) (mtAddr ?e) SNonce (waCurrentAddress pAd) (enPTK env) 64 = Some PTK"
    and pAd1: "pAd1 = wpa_update_entry i (\<lambda>e. e\<lparr>mtR_Counter := epReplayCounter ?p, mtANonce := epKeyNonce ?p, mtSNonce := SNonce,
        mtPTK := take 64 PTK, mtWpaState := AS_PTKINIT_NEGOTIATING\<rparr>) pAd"
    and run: "PeerPairMsg1Action env pAd i Elem = send_eapol env pAd1 i
        (answer_frame (wpa_entry pAd1 i) (waGroupCipher pAd) EAPOL_PAIR_MSG_2 0 SNonce (waRSN_IE pAd) (waRSNIE_Len pAd) rest) True"
    using PeerPairMsg1Action_run [OF assms] by blast
  let ?f = "answer_frame (wpa_entry pAd1 i) (waGroupCipher pAd) EAPOL_PAIR_MSG_2 0 SNonce (waRSN_IE pAd) (waRSNIE_Len pAd) rest"
  have rl: "unat (waRSNIE_Len pAd) \<le> 253" "unat (waRSNIE_Len pAd) \<le> length (waRSN_IE pAd)" using assms(2) by (simp_all add: adapter_ok_def)
  have e1: "length (mtR_Counter (wpa_entry pAd1 i)) = 8" "16 \<le> length (mtPTK (wpa_entry pAd1 i))" "wpa_peer (wpa_entry pAd1 i)"
      "mtAddr (wpa_entry pAd1 i) = mtAddr ?e" "mtWcid (wpa_entry pAd1 i) = mtWcid ?e" "mtApidx (wpa_entry pAd1 i) = mtApidx ?e"
    using assms(4,5) elem_eapol_lengths [OF assms(3)] n by (simp_all add: pAd1 wpa_peer_def IS_ENTRY_CLIENT_def IS_ENTRY_APCLI_def)
  define pAd' where "pAd' = RTMPToWirelessSta env pAd1 i (MAKE_802_3_HEADER (mtAddr ?e) (waCurrentAddress pAd)) (eapol_frame ?f) True"
  have res: "PeerPairMsg1Action env pAd i Elem = Some pAd'"
    unfolding run send_eapol_def using answer_frame_fits [OF n(1) e1(1) rl] e1(4) by (simp add: pAd'_def pAd1 not_less)
  have ptk: "SNonce \<noteq> epKeyNonce ?p \<longrightarrow> take 64 PTK = ptk_802_11i (waPMK pAd) (epKeyNonce ?p) (mtAddr ?e) SNonce (waCurrentAddress pAd) 64"
    using WpaDerivePTK_ok [of "waPMK pAd" "mtAddr ?e" "waCurrentAddress pAd" "epKeyNonce ?p" SNonce 64 "enPTK env"] n assms(1,2)
      adapter_entry [OF assms(2,4) refl] elem_eapol_lengths [OF assms(3)] by (auto simp: adapter_ok_def env_ok_def)
  have sent: "StaSendPacket (MAKE_802_3_HEADER (mtAddr ?e) (waCurrentAddress pAd)) (eapol_frame ?f) True (mtWcid ?e) (mtApidx ?e) \<in> set (waEvents pAd')"
    using RTMPToWirelessSta_sends [OF e1(3) assms(1)] e1(5,6) by (simp add: pAd'_def)
  have acc: "\<exists>r. PeerWpaMessageSanity env2 ap (eapol_of_bytes (eapol_frame ?f @ junk)) EAPOL_PAIR_MSG_2 peer = Some (True, ap, r)"
    if "enAlloc env2 0 0" "mtPTK peer = mtPTK (wpa_entry pAd' i)" "mtR_Counter peer = epReplayCounter ?p" for env2 ap peer junk
    using that assms(4) by (intro answer_accepted [OF _ _ n(1) e1(1,2) rl]) (simp_all add: answer_message_def pAd'_def pAd1)
  show ?thesis
    using res n(1) ptk sent acc answer_nonce [OF n(1) e1(1) rl] assms(4)
    by (intro exI [of _ pAd'] exI [of _ SNonce] exI [of _ ?f]) (simp add: pAd'_def pAd1)
qed

section \<open>Frame conditions\<close>

definition key_event :: "wpa_event \<Rightarrow> bool" where
  "key_event ev = (case ev of AddPairwiseKeyEntry w k \<Rightarrow> True | AddSharedKeyEntry b x k \<Rightarrow> True | UpdateWCIDIVEIV w iv \<Rightarrow> True
     | UpdateWcidAttributeEntry b x c w p \<Rightarrow> True | IndicateMediaConnected \<Rightarrow> True | _ \<Rightarrow> False)"

text \<open>Nothing happened to the keys or to the controlled port.\<close>

definition quiet :: "wpa_adapter \<Rightarrow> wpa_adapter \<Rightarrow> bool" where
  "quiet pAd pAd' \<longleftrightarrow> waPortSecured pAd' = waPortSecured pAd \<and> waGTK pAd' = waGTK pAd \<and> waSharedKey pAd' = waSharedKey pAd \<and>
     waPTK pAd' = waPTK pAd \<and> waDefaultKeyId pAd' = waDefaultKeyId pAd \<and>
     map mtPairwiseKey (tbContent (waMacTab pAd')) = map mtPairwiseKey (tbContent (waMacTab pAd)) \<and>
     map mtPortSecured (tbContent (waMacTab pAd')) = map mtPortSecured (tbContent (waMacTab pAd)) \<and>
     filter key_event (waEvents pAd') = filter key_event (waEvents pAd)"

lemma quiet_refl [simp, intro]: "quiet pAd pAd"
  by (simp add: quiet_def)

lemma quiet_trans: "quiet a b \<Longrightarrow> quiet b c \<Longrightarrow> quiet a c"
  by (simp add: quiet_def)

lemma quiet_emit [intro]: "quiet a b \<Longrightarrow> \<not> key_event ev \<Longrightarrow> quiet a (wpa_emit ev b)"
  by (simp add: quiet_def wpa_emit_def)

lemma map_update_same:
  assumes "\<And>e. h (f e) = h e"
  shows "map h (xs[i := f (xs ! i)]) = map h xs"
proof (rule nth_equalityI)
  fix k
  assume "k < length (map h (xs[i := f (xs ! i)]))"
  then show "map h (xs[i := f (xs ! i)]) ! k = map h xs ! k" using assms by (cases "k = i") simp_all
qed simp

lemma quiet_update [intro]:
  assumes "quiet a b" and "\<And>e. mtPairwiseKey (f e) = mtPairwiseKey e" and "\<And>e. mtPortSecured (f e) = mtPortSecured e"
  shows "quiet a (wpa_update_entry i f b)"
  using assms by (simp add: quiet_def wpa_update_entry_def map_update_same)

lemma quiet_send:
  assumes "quiet a b" and "send_eapol env b i f c = Some b'"
  shows "quiet a b'"
proof -
  have "quiet a (RTMPToWirelessSta env b i h d c)" for h d
    using assms(1) by (auto simp: RTMPToWirelessSta_def Let_def key_event_def intro!: quiet_emit)
  then show ?thesis using assms(2) by (auto simp: send_eapol_def split: if_splits)
qed

text \<open>A frame is authentic when its MIC is the expected one and its replay counter is fresh.\<close>

definition authentic :: "wpa_env \<Rightarrow> mac_entry \<Rightarrow> nat \<Rightarrow> eapol_packet \<Rightarrow> bool" where
  "authentic env e MsgType p \<longleftrightarrow> received_mic env e p = Some (epKeyMic p) \<and> \<not> replay_differs e MsgType p"

lemma sanity_quiet:
  assumes "PeerWpaMessageSanity env pAd p MsgType e = Some (ok, pAd', r)" and "MsgType \<noteq> EAPOL_PAIR_MSG_1" and "\<not> authentic env e MsgType p"
  shows "\<not> ok \<and> quiet pAd pAd'"
  using PeerWpaMessageSanity_rejects [OF assms(1,2)] assms(3) by (auto simp: authentic_def key_event_def)

lemma sanity_quiet_msg1:
  assumes "PeerWpaMessageSanity env pAd p EAPOL_PAIR_MSG_1 e = Some (ok, pAd', r)"
  shows "quiet pAd pAd'"
  using assms by (auto simp: PeerWpaMessageSanity_def sanity_key_data_def Let_def key_event_def split: if_splits)

lemma msg1_quiet:
  assumes "PeerPairMsg1Action env pAd i Elem = Some pAd'"
  shows "quiet pAd pAd'"
proof (cases "PeerWpaMessageSanity env pAd (elem_eapol Elem) EAPOL_PAIR_MSG_1 (wpa_entry pAd i)")
  case None
  then show ?thesis using assms by (simp add: PeerPairMsg1Action_def Let_def split: if_splits)
next
  case (Some t)
  obtain ok b r where t: "t = (ok, b, r)" by (cases t)
  have q: "quiet pAd b" using sanity_quiet_msg1 Some t by blast
  have u: "quiet pAd (wpa_update_entry i (\<lambda>e. e\<lparr>mtR_Counter := x, mtANonce := y, mtSNonce := z, mtPTK := w, mtWpaState := s\<rparr>) b)" for x y z w s
    using q by (rule quiet_update) simp_all
  show ?thesis
    using assms Some t q u quiet_send [OF u]
    by (auto simp: PeerPairMsg1Action_def Let_def split: if_splits option.splits)
qed

lemma msg3_quiet:
  assumes "PeerPairMsg3Action env pAd i Elem = Some pAd'" and "\<not> authentic env (wpa_entry pAd i) EAPOL_PAIR_MSG_3 (elem_eapol Elem)"
  shows "quiet pAd pAd'"
  using assms(1) sanity_quiet [OF _ _ assms(2), of pAd]
  by (auto simp: PeerPairMsg3Action_def Let_def split: if_splits option.splits)

lemma group_msg1_quiet:
  assumes "PeerGroupMsg1Action env pAd i Elem = Some pAd'" and "\<not> authentic env (wpa_entry pAd i) EAPOL_GROUP_MSG_1 (elem_eapol Elem)"
  shows "quiet pAd pAd'"
  using assms(1) sanity_quiet [OF _ _ assms(2), of pAd]
  by (auto simp: PeerGroupMsg1Action_def Let_def split: if_splits option.splits)

lemma msg4_quiet:
  assumes "PeerPairMsg4Action env pAd i Elem = Some pAd'" and "\<not> authentic env (wpa_entry pAd i) EAPOL_PAIR_MSG_4 (elem_eapol Elem)"
  shows "quiet pAd pAd'"
  using assms(1) sanity_quiet [OF _ _ assms(2), of pAd]
  by (auto simp: PeerPairMsg4Action_def Let_def split: if_splits option.splits)

lemma group_msg2_quiet:
  assumes "PeerGroupMsg2Action env pAd i Elem = Some pAd'" and "\<not> authentic env (wpa_entry pAd i) EAPOL_GROUP_MSG_2 (elem_eapol Elem)"
  shows "quiet pAd pAd'"
  using assms(1) sanity_quiet [OF _ _ assms(2), of pAd]
  by (auto simp: PeerGroupMsg2Action_def Let_def split: if_splits option.splits)

lemma msg2_quiet: "quiet pAd (PeerPairMsg2Action pAd i Elem)"
  by (auto simp: PeerPairMsg2Action_def Let_def)

lemma dispatch_quiet:
  assumes "eapol_key_dispatch env pAd i ki Elem = Some pAd'"
    and "\<not> (kiKeyMic ki \<and> (\<exists>m. m \<noteq> EAPOL_PAIR_MSG_1 \<and> authentic env (wpa_entry pAd i) m (elem_eapol Elem)))"
  shows "quiet pAd pAd'"
proof -
  have n: "\<not> authentic env (wpa_entry pAd i) m (elem_eapol Elem)" if "kiKeyMic ki" "m \<in> {3, 4, 5, 6}" for m
  proof -
    have "m \<noteq> EAPOL_PAIR_MSG_1" using that(2) by auto
    then show ?thesis using assms(2) that(1) by blast
  qed
  show ?thesis
    using assms(1) n msg1_quiet [of env pAd i Elem] msg2_quiet [of pAd i Elem] msg3_quiet [of env pAd i Elem] msg4_quiet [of env pAd i Elem]
      group_msg1_quiet [of env pAd i Elem] group_msg2_quiet [of env pAd i Elem]
    unfolding eapol_key_dispatch_def by (auto split: if_splits)
qed


section \<open>Message 3\<close>

lemma WPAInstallSharedKey_frame:
  "waMacTab (WPAInstallSharedKey rnd pAd gc b x w ae gtk n) = waMacTab pAd"
  "waCurrentAddress (WPAInstallSharedKey rnd pAd gc b x w ae gtk n) = waCurrentAddress pAd"
  "waGroupCipher (WPAInstallSharedKey rnd pAd gc b x w ae gtk n) = waGroupCipher pAd"
  "waPortSecured (WPAInstallSharedKey rnd pAd gc b x w ae gtk n) = waPortSecured pAd"
  by (auto simp: WPAInstallSharedKey_def RTMPSetWcidSecurityInfo_def wpa_emit_def Let_def split: prod.splits)

lemma parse_frame:
  assumes "RTMPParseEapolKeyData rnd pAd d l x m w = Some (ok, pAd')"
  shows "waMacTab pAd' = waMacTab pAd \<and> waCurrentAddress pAd' = waCurrentAddress pAd \<and> waGroupCipher pAd' = waGroupCipher pAd \<and>
    waPortSecured pAd' = waPortSecured pAd"
  using assms unfolding RTMPParseEapolKeyData_def Let_def
  by (auto simp: WPAInstallSharedKey_frame split: if_splits option.splits prod.splits)

lemma sanity_key_data_frame:
  assumes "sanity_key_data env pAd p m e = Some (ok, pAd', r)"
  shows "waMacTab pAd' = waMacTab pAd \<and> waCurrentAddress pAd' = waCurrentAddress pAd \<and> waGroupCipher pAd' = waGroupCipher pAd \<and>
    waPortSecured pAd' = waPortSecured pAd \<and> epReplayCounter r = epReplayCounter p \<and> epKeyNonce r = epKeyNonce p"
  using assms unfolding sanity_key_data_def Let_def
  by (auto dest!: parse_frame split: if_splits option.splits prod.splits)

lemma sanity_accepts_frame:
  assumes "PeerWpaMessageSanity env pAd p m e = Some (True, pAd', r)"
  shows "waMacTab pAd' = waMacTab pAd \<and> waCurrentAddress pAd' = waCurrentAddress pAd \<and> waGroupCipher pAd' = waGroupCipher pAd \<and>
    waPortSecured pAd' = waPortSecured pAd \<and> epReplayCounter r = epReplayCounter p \<and> epKeyNonce r = epKeyNonce p"
  using assms unfolding PeerWpaMessageSanity_def Let_def
  by (auto dest!: sanity_key_data_frame split: if_splits option.splits)

lemma WPAInstallPairwiseKey_some:
  assumes "e = wpa_entry pAd i" and "pairwise_key e bAE = Some k"
  shows "WPAInstallPairwiseKey pAd b i bAE =
    wpa_emit (UpdateWcidAttributeEntry b 0 (ckCipherAlg k) (mtWcid e) True) (wpa_emit (UpdateWCIDIVEIV (mtWcid e) 0x20000001)
      (wpa_emit (AddPairwiseKeyEntry (mtWcid e) k) (wpa_update_entry i (\<lambda>e. e\<lparr>mtPairwiseKey := k\<rparr>) pAd)))"
proof -
  have "ckCipherAlg k = 3 \<or> ckCipherAlg k = 4"
    using assms(2) by (auto simp: pairwise_key_def Let_def split: if_splits)
  moreover have "push_bit 24 (ucast (push_bit 6 (0 :: u8) OR 0x20)) OR 1 = (0x20000001 :: u32)" by (simp add: push_bit_eq_mult)
  ultimately show ?thesis
    using assms by (auto simp: WPAInstallPairwiseKey_def RTMPSetWcidSecurityInfo_def wpa_entry_def Let_def)
qed

lemma pairwise_key_config [simp]:
  "pairwise_key (e\<lparr>mtWpaState := x\<rparr>) b = pairwise_key e b" "pairwise_key (e\<lparr>mtR_Counter := y\<rparr>) b = pairwise_key e b"
  by (simp_all add: pairwise_key_def Let_def)

lemma wpa_entry_config [simp]: "wpa_entry (pAd\<lparr>waPTK := x\<rparr>) i = wpa_entry pAd i" "wpa_entry (pAd\<lparr>waPortSecured := y\<rparr>) i = wpa_entry pAd i"
  by (simp_all add: wpa_entry_def)

text \<open>What is done to the adapter \<open>pAd\<close> of an accepted message 3.\<close>

lemma msg3_install_ok:
  assumes "i < length (tbContent (waMacTab pAd))" and "e = wpa_entry pAd i" and "pairwise_key e False = Some k"
  shows "msg3_install pAd i =
    (let a = wpa_update_entry i (\<lambda>e. e\<lparr>mtWpaState := AS_PTKINITDONE\<rparr>) pAd;
         a = wpa_emit (UpdateWcidAttributeEntry 0 0 (ckCipherAlg k) (mtWcid e) True) (wpa_emit (UpdateWCIDIVEIV (mtWcid e) 0x20000001)
               (wpa_emit (AddPairwiseKeyEntry (mtWcid e) k) (wpa_update_entry i (\<lambda>e. e\<lparr>mtPairwiseKey := k\<rparr>) (a\<lparr>waPTK := take 64 (mtPTK e)\<rparr>))))
     in if is_wpa2 e
        then STA_PORT_SECURED (wpa_update_entry i
               (\<lambda>e. e\<lparr>mtPortSecured := WPA_802_1X_PORT_SECURED, mtPrivacyFilter := Ndis802_11PrivFilterAcceptAll\<rparr>) a)
        else a)"
proof -
  let ?a = "wpa_update_entry i (\<lambda>e. e\<lparr>mtWpaState := AS_PTKINITDONE\<rparr>) pAd"
  let ?b = "?a\<lparr>waPTK := take 64 (mtPTK e)\<rparr>"
  have e: "wpa_entry ?b i = e\<lparr>mtWpaState := AS_PTKINITDONE\<rparr>" using assms(1,2) by simp
  have "pairwise_key (wpa_entry ?b i) False = Some k" unfolding e using assms(3) by simp
  note w = WPAInstallPairwiseKey_some [OF refl this, of 0, unfolded e]
  have l: "i < length (tbContent (waMacTab ?b))" using assms(1) by simp
  have "is_wpa2 (wpa_entry (wpa_update_entry i (\<lambda>e. e\<lparr>mtPairwiseKey := k\<rparr>) ?b) i) = is_wpa2 e"
    unfolding wpa_entry_update [OF l] e by (simp add: is_wpa2_def)
  then show ?thesis
    using assms(1,2) w unfolding msg3_install_def Let_def by simp
qed

lemma msg3_install_entry:
  assumes "i < length (tbContent (waMacTab pAd))" and "1 < length (tbContent (waMacTab pAd))"
    and "e = wpa_entry pAd i" and "pairwise_key e False = Some k" and "pAd' = msg3_install pAd i"
  shows "mtWpaState (wpa_entry pAd' i) = AS_PTKINITDONE" "mtPairwiseKey (wpa_entry pAd' i) = k" "mtAddr (wpa_entry pAd' i) = mtAddr e"
    "mtWcid (wpa_entry pAd' i) = mtWcid e" "mtApidx (wpa_entry pAd' i) = mtApidx e" "wpa_peer (wpa_entry pAd' i) = wpa_peer e"
    "waCurrentAddress pAd' = waCurrentAddress pAd" "waPTK pAd' = take 64 (mtPTK e)"
    "is_wpa2 e \<Longrightarrow> waPortSecured pAd' = WPA_802_1X_PORT_SECURED \<and> mtPortSecured (wpa_entry pAd' i) = WPA_802_1X_PORT_SECURED"
    "\<not> is_wpa2 e \<Longrightarrow> waPortSecured pAd' = waPortSecured pAd"
  unfolding assms(5) msg3_install_ok [OF assms(1,3,4)] Let_def using assms(1-3)
  by (auto simp: STA_PORT_SECURED_def wpa_peer_def IS_ENTRY_CLIENT_def IS_ENTRY_APCLI_def wpa_emit_def wpa_update_entry_def wpa_entry_def
      nth_list_update)

lemma msg3_install_events:
  assumes "i < length (tbContent (waMacTab pAd))" and "e = wpa_entry pAd i" and "pairwise_key e False = Some k"
  shows "\<exists>evs. waEvents (msg3_install pAd i) = waEvents pAd @
    [AddPairwiseKeyEntry (mtWcid e) k, UpdateWCIDIVEIV (mtWcid e) 0x20000001, UpdateWcidAttributeEntry 0 0 (ckCipherAlg k) (mtWcid e) True] @ evs"
  unfolding msg3_install_ok [OF assms] Let_def by (simp add: STA_PORT_SECURED_def wpa_update_entry_def)

lemma RTMPToWirelessSta_events:
  assumes "wpa_peer (wpa_entry pAd i)" and "env_ok env"
  shows "\<exists>evs. waEvents (RTMPToWirelessSta env pAd i h d c) =
    waEvents pAd @ StaSendPacket h d c (mtWcid (wpa_entry pAd i)) (mtApidx (wpa_entry pAd i)) # evs"
  using assms by (simp add: RTMPToWirelessSta_def env_ok_def Let_def)

lemma PeerPairMsg3Action_run:
  assumes "env_ok env" and "adapter_ok pAd" and "elem_ok Elem" and "i < length (tbContent (waMacTab pAd))"
    and "wpa_peer (wpa_entry pAd i)" and "MIN_EAPOL_ELEM \<le> meMsgLen Elem"
    and "PeerWpaMessageSanity env pAd (elem_eapol Elem) EAPOL_PAIR_MSG_3 (wpa_entry pAd i) = Some (True, pAd1, r)"
    and "mtANonce (wpa_entry pAd i) = epKeyNonce (elem_eapol Elem)"
  shows "\<exists>rest pAd2. pAd2 = wpa_update_entry i (\<lambda>e. e\<lparr>mtR_Counter := epReplayCounter (elem_eapol Elem)\<rparr>) pAd1 \<and>
    PeerPairMsg3Action env pAd i Elem =
      send_eapol env (msg3_install pAd2 i) i
        (answer_frame (wpa_entry pAd2 i) (waGroupCipher pAd) EAPOL_PAIR_MSG_4 0 (replicate 32 0) [] 0 rest) True"
proof -
  let ?p = "elem_eapol Elem"
  note f = sanity_accepts_frame [OF assms(7)]
  note p = elem_eapol_lengths [OF assms(3)]
  have al: "enAlloc env k n" for k n using assms(1) by (simp add: env_ok_def)
  have len: "\<not> meMsgLen Elem < 131" using assms(6) by (simp add: not_less)
  have i: "i < length (tbContent (waMacTab pAd1))" using assms(4) f by simp
  define pAd2 where "pAd2 = wpa_update_entry i (\<lambda>e. e\<lparr>mtR_Counter := epReplayCounter ?p\<rparr>) pAd1"
  have e: "wpa_entry pAd1 i = wpa_entry pAd i" using f by (simp add: wpa_entry_def)
  have e2: "length (mtR_Counter (wpa_entry pAd2 i)) = 8" "16 \<le> length (mtPTK (wpa_entry pAd2 i))"
    using i e p(1) adapter_entry [OF assms(2,4) refl] by (simp_all add: pAd2_def)
  obtain rest where c: "construct_msg env pAd2 i EAPOL_PAIR_MSG_4 0 None None 0 =
      Some (answer_frame (wpa_entry pAd2 i) (waGroupCipher pAd) EAPOL_PAIR_MSG_4 0 (replicate 32 0) [] 0 rest)"
    using ConstructEapolMsg_answer [of EAPOL_PAIR_MSG_4 "\<lambda>k. enAlloc env (6 + k)" "replicate 32 0" "wpa_entry pAd2 i" 0 "[]"
        "enStack env" "enPool env" "waGroupCipher pAd" 0] al e2 f
    by (auto simp: construct_msg_def answer_message_def pAd2_def)
  have "PeerPairMsg3Action env pAd i Elem = send_eapol env (msg3_install pAd2 i) i
        (answer_frame (wpa_entry pAd2 i) (waGroupCipher pAd) EAPOL_PAIR_MSG_4 0 (replicate 32 0) [] 0 rest) True"
    unfolding PeerPairMsg3Action_def Let_def using assms(5,7,8) len al c f by (simp add: pAd2_def [symmetric])
  then show ?thesis using pAd2_def by blast
qed


section \<open>Samples\<close>

definition sample_msg3 :: eapol_packet where
  "sample_msg3 =
     (let f = zero_frame\<lparr>epProVer := 1, epProType := 3, epType := 2, epBody_Len := [0, 95], epReplayCounter := [0, 0, 0, 0, 0, 0, 0, 2],
                epKeyData := replicate 1469 0,
                epKeyInfo := (epKeyInfo zero_frame)\<lparr>kiKeyMic := True, kiSecure := True, kiKeyDescVer := 2, kiKeyType := True, kiInstall := True,
                  kiKeyAck := True\<rparr>\<rparr>
      in f\<lparr>epKeyMic := mic_spec KEY_DESC_AES (mtPTK sample_entry) (take 99 (eapol_bytes f))\<rparr>)"

definition sample_elem :: "eapol_packet \<Rightarrow> mlme_queue_elem" where
  "sample_elem p = \<lparr>meMsg = replicate 32 0 @ eapol_bytes p, meMachine = 23, meMsgType = 3, meMsgLen = 131, meTimeHigh = 0, meTimeLow = 0,
     meRssi0 = 0, meRssi1 = 0, meRssi2 = 0, meSignal = 0, meChannel = 1, meWcid = 1, meOccupied = True, meOpMode = 0, mePriv = 0\<rparr>"

lemma sample_elem_eapol: "eapol_wf p \<Longrightarrow> elem_eapol (sample_elem p) = p"
  using eapol_of_header [of p "epKeyData p"] by (simp add: elem_eapol_def sample_elem_def eapol_bytes_header)

lemma sample_elem_ok: "eapol_wf p \<Longrightarrow> length (epKeyData p) = 1469 \<Longrightarrow> elem_ok (sample_elem p)"
  by (simp add: elem_ok_def sample_elem_def length_eapol_bytes)

lemma sample_ok:
  "env_ok sample_env" "adapter_ok sample_adapter" "wpa_entry sample_adapter 1 = sample_entry" "wpa_peer sample_entry" "is_wpa2 sample_entry"
  "length (tbContent (waMacTab sample_adapter)) = 2" "enAlloc sample_env 0 0" "waPortSecured sample_adapter = WPA_802_1X_PORT_NOT_SECURED"
  by (simp_all add: env_ok_def adapter_ok_def wpa_entry_def wpa_peer_def IS_ENTRY_CLIENT_def is_wpa2_def sample_env_def sample_adapter_def
      sample_entry_def zero_entry_def)

lemma sample_msg3_fields:
  "eapol_wf sample_msg3" "length (epKeyData sample_msg3) = 1469" "epBody_Len sample_msg3 = [0, 95]" "kiKeyDescVer (epKeyInfo sample_msg3) = 2"
  "epKeyNonce sample_msg3 = mtANonce sample_entry" "epKeyDataLen sample_msg3 = [0, 0]" "epProVer sample_msg3 = 1" "epType sample_msg3 = 2"
  "kiKeyMic (epKeyInfo sample_msg3)" "kiSecure (epKeyInfo sample_msg3)" "kiKeyType (epKeyInfo sample_msg3)" "kiKeyAck (epKeyInfo sample_msg3)"
  "\<not> kiRequest (epKeyInfo sample_msg3)" "\<not> kiError (epKeyInfo sample_msg3)" "epReplayCounter sample_msg3 = [0, 0, 0, 0, 0, 0, 0, 2]"
  by (simp_all add: sample_msg3_def Let_def zero_frame_def eapol_wf_def sample_entry_def zero_entry_def)

lemma sample_msg3_sane:
  "PeerWpaMessageSanity sample_env sample_adapter sample_msg3 EAPOL_PAIR_MSG_3 sample_entry =
     Some (True, sample_adapter, sample_msg3\<lparr>epKeyMic := replicate 16 0\<rparr>)"
proof -
  let ?z = "sample_msg3\<lparr>epKeyMic := replicate 16 0\<rparr>"
  note f = sample_msg3_fields
  have n: "CONV_ARRARY_TO_UINT16 [0, 95] = 95" "CONV_ARRARY_TO_UINT16 [0, 0] = 0" by (simp_all add: CONV_ARRARY_TO_UINT16_def)
  have m: "epKeyMic sample_msg3 = mic_spec KEY_DESC_AES (mtPTK sample_entry) (take 99 (eapol_bytes ?z))"
    by (simp add: sample_msg3_def Let_def zero_frame_def)
  have "length (eapol_bytes ?z) = 1568" using length_eapol_bytes [of ?z] f(1,2) by (simp add: eapol_wf_def)
  then have "received_mic sample_env sample_entry sample_msg3 = Some (epKeyMic sample_msg3)"
    using eapol_mic_spec [of "mtPTK sample_entry" "take 99 (eapol_bytes ?z)" KEY_DESC_AES "enAlloc sample_env 1"] f(3,4) n m
    by (simp add: received_mic_def Let_def sample_entry_def)
  moreover have "\<not> replay_differs sample_entry EAPOL_PAIR_MSG_3 sample_msg3"
    by (simp add: replay_differs_def f(15) RTMPCompareMemory_be_val sample_entry_def)
  ultimately show ?thesis
    using f(6) n sample_ok(7) by (simp add: PeerWpaMessageSanity_def sanity_key_data_def Let_def)
qed

definition sample_msg1 :: eapol_packet where
  "sample_msg1 = zero_frame\<lparr>epProVer := 1, epType := 2, epBody_Len := [0, 95], epKeyNonce := replicate 32 7, epKeyData := replicate 1469 0\<rparr>"

lemma sample_msg1_fields: "eapol_wf sample_msg1" "length (epKeyData sample_msg1) = 1469" "epReplayCounter sample_msg1 = replicate 8 0"
  by (simp_all add: sample_msg1_def zero_frame_def eapol_wf_def)

lemma sample_lookup: "MacTableLookup (waMacTab sample_adapter) (drop 10 (meMsg (sample_elem p))) = Some (Some 1)"
proof -
  have d: "take 6 (drop 10 (replicate 32 0 @ eapol_bytes p)) = (replicate 6 0 :: bytes)" by simp
  have "drop 10 (meMsg (sample_elem p)) ! k = 0" if "k < 6" for k
    using that by (simp add: sample_elem_def nth_append)
  then have "MAC_ADDR_HASH_INDEX (drop 10 (meMsg (sample_elem p))) = 0" by (simp add: MAC_ADDR_HASH_INDEX_def)
  then show ?thesis
    using d by (simp add: MacTableLookup_def sample_elem_def sample_adapter_def mac_lookup_loop.simps IS_ENTRY_NONE_def sample_entry_def
        zero_entry_def)
qed

lemma sample_msg3_handled:
  "\<exists>pAd'. WpaEAPOLKey_handler sample_env sample_adapter (sample_elem sample_msg3) = Some pAd' \<and> waPortSecured pAd' = WPA_802_1X_PORT_SECURED"
proof -
  note s = sample_ok and f = sample_msg3_fields
  have el: "elem_eapol (sample_elem sample_msg3) = sample_msg3" "elem_ok (sample_elem sample_msg3)"
    using sample_elem_eapol sample_elem_ok f by simp_all
  have k: "pairwise_key (sample_entry\<lparr>mtR_Counter := x\<rparr>) False \<noteq> None" for x by (simp add: sample_entry_def pairwise_key_def Let_def)
  obtain rest where r: "PeerPairMsg3Action sample_env sample_adapter 1 (sample_elem sample_msg3) =
      send_eapol sample_env (msg3_install (wpa_update_entry 1 (\<lambda>e. e\<lparr>mtR_Counter := epReplayCounter sample_msg3\<rparr>) sample_adapter) 1) 1
        (answer_frame (sample_entry\<lparr>mtR_Counter := epReplayCounter sample_msg3\<rparr>) (waGroupCipher sample_adapter) EAPOL_PAIR_MSG_4 0
          (replicate 32 0) [] 0 rest) True"
    using PeerPairMsg3Action_run [OF s(1,2) el(2), of 1 sample_adapter "sample_msg3\<lparr>epKeyMic := replicate 16 0\<rparr>"] el(1) s sample_msg3_sane f
    by (auto simp: sample_elem_def)
  let ?a = "wpa_update_entry 1 (\<lambda>e. e\<lparr>mtR_Counter := epReplayCounter sample_msg3\<rparr>) sample_adapter"
  obtain k where k: "pairwise_key (wpa_entry ?a 1) False = Some k" using k s by fastforce
  have "is_wpa2 (wpa_entry ?a 1)" using s by (simp add: is_wpa2_def)
  then have "waPortSecured (msg3_install ?a 1) = WPA_802_1X_PORT_SECURED"
    using msg3_install_entry(9) [OF _ _ refl k refl] s(6) by simp
  moreover have "\<exists>pAd'. PeerPairMsg3Action sample_env sample_adapter 1 (sample_elem sample_msg3) = Some pAd' \<and>
      waPortSecured pAd' = waPortSecured (msg3_install ?a 1)"
    using r answer_frame_fits [of "replicate 32 0" "sample_entry\<lparr>mtR_Counter := epReplayCounter sample_msg3\<rparr>" 0 "[]"] f(15)
    by (simp add: send_eapol_def not_less)
  moreover have "WpaEAPOLKey_handler sample_env sample_adapter (sample_elem sample_msg3) =
      PeerPairMsg3Action sample_env sample_adapter 1 (sample_elem sample_msg3)"
    using s f el(1) sample_lookup [of sample_msg3]
    by (simp add: WpaEAPOLKey_handler_def eapol_key_dispatch_def Let_def sample_elem_def CONV_ARRARY_TO_UINT16_def)
      (simp add: sample_entry_def)
  ultimately show ?thesis by auto
qed

theorem PeerPairMsg1Action_message_2_witness:
  "\<exists>pAd' SNonce f. PeerPairMsg1Action sample_env sample_adapter 1 (sample_elem sample_msg1) = Some pAd' \<and> length SNonce = 32 \<and>
    mtWpaState (wpa_entry pAd' 1) = AS_PTKINIT_NEGOTIATING \<and> mtANonce (wpa_entry pAd' 1) = epKeyNonce sample_msg1 \<and>
    epKeyNonce (eapol_of_bytes (eapol_frame f @ [1, 2])) = SNonce \<and>
    (\<exists>r. PeerWpaMessageSanity sample_env sample_adapter (eapol_of_bytes (eapol_frame f @ [1, 2])) EAPOL_PAIR_MSG_2
       (zero_entry\<lparr>mtPTK := mtPTK (wpa_entry pAd' 1)\<rparr>) = Some (True, sample_adapter, r))"
proof -
  note s = sample_ok
  have el: "elem_eapol (sample_elem sample_msg1) = sample_msg1" "elem_ok (sample_elem sample_msg1)"
    using sample_elem_eapol sample_elem_ok sample_msg1_fields by simp_all
  have r: "\<not> replay_differs sample_entry EAPOL_PAIR_MSG_1 sample_msg1"
    by (simp add: replay_differs_def sample_msg1_fields(3) RTMPCompareMemory_be_val)
  have z: "mtR_Counter (zero_entry\<lparr>mtPTK := x\<rparr>) = epReplayCounter sample_msg1" for x by (simp add: zero_entry_def sample_msg1_fields(3))
  have l: "MIN_EAPOL_ELEM \<le> meMsgLen (sample_elem sample_msg1)" "1 < length (tbContent (waMacTab sample_adapter))"
    by (simp_all add: sample_elem_def s(6))
  have "wpa_peer (wpa_entry sample_adapter 1)" "\<not> replay_differs (wpa_entry sample_adapter 1) EAPOL_PAIR_MSG_1 (elem_eapol (sample_elem sample_msg1))"
    using s(3,4) el(1) r by simp_all
  note t = PeerPairMsg1Action_message_2 [OF s(1,2) el(2) l(2) this(1) l(1) this(2), unfolded el(1) s(3)]
  obtain pAd' SNonce f where p: "PeerPairMsg1Action sample_env sample_adapter 1 (sample_elem sample_msg1) = Some pAd'" "length SNonce = 32"
      "mtWpaState (wpa_entry pAd' 1) = AS_PTKINIT_NEGOTIATING" "mtANonce (wpa_entry pAd' 1) = epKeyNonce sample_msg1"
      "\<And>junk. epKeyNonce (eapol_of_bytes (eapol_frame f @ junk)) = SNonce"
      "\<And>env2 ap peer junk. enAlloc env2 0 0 \<Longrightarrow> mtPTK peer = mtPTK (wpa_entry pAd' 1) \<Longrightarrow> mtR_Counter peer = epReplayCounter sample_msg1 \<Longrightarrow>
         \<exists>r. PeerWpaMessageSanity env2 ap (eapol_of_bytes (eapol_frame f @ junk)) EAPOL_PAIR_MSG_2 peer = Some (True, ap, r)"
    using t by blast
  show ?thesis
    using p(1-5) p(6) [OF s(7) _ z] by (intro exI [of _ pAd'] exI [of _ SNonce] exI [of _ f]) simp
qed



end
