(* ===== verification/Aes_Ccm.thy ===== *)
theory Aes_Ccm
  imports Aes_Cmac
begin

text \<open>
  AES-CCM, \<^verbatim>\<open>common/crypt_aes.c\<close>: \<^verbatim>\<open>AES_CCM_MAC\<close>, \<^verbatim>\<open>AES_CCM_Encrypt\<close> and
  \<^verbatim>\<open>AES_CCM_Decrypt\<close>. The text buffers are offsets into one memory, because CCMP encrypts in
  place and decrypts to an address eight bytes below its source. \<open>al\<close> answers the allocations
  in the order the calls are made and \<open>cc0\<close> is what the local array \<^verbatim>\<open>Block_CTR_Cipher\<close> holds
  before its first use.

  Reference is the counter mode with CBC-MAC of RFC 3610.
\<close>

section \<open>Operations\<close>

text \<open>Formatting of the control information and the nonce.\<close>

definition ccm_B0 :: "nat \<Rightarrow> bytes \<Rightarrow> nat \<Rightarrow> nat \<Rightarrow> nat \<Rightarrow> bytes" where
  "ccm_B0 PayloadLength Nonce NonceLength AADLength MACLength =
     (let Block = replicate 16 0;
          Block = (if AADLength > 0 then Block[0 := Block ! 0 OR 0x40] else Block);
          Block = Block[0 := Block ! 0 OR of_nat ((MACLength - 2) div 2 * 8)];
          Block = Block[0 := Block ! 0 OR of_nat (15 - NonceLength - 1)];
          Block = write_at Block 1 (take NonceLength Nonce);
          Block = (if NonceLength < 12 then Block[12 := of_nat (PayloadLength div 2 ^ 24)] else Block);
          Block = (if NonceLength < 13 then Block[13 := of_nat (PayloadLength div 2 ^ 16)] else Block);
          Block = Block[14 := of_nat (PayloadLength div 2 ^ 8)]
      in Block[15 := of_nat PayloadLength])"

text \<open>One step of the MAC: the block is XORed with the chaining value and encrypted.\<close>

definition ccm_chain :: "(nat \<Rightarrow> bool) \<Rightarrow> nat \<Rightarrow> bytes \<Rightarrow> nat \<Rightarrow> bytes \<Rightarrow> bytes \<Rightarrow> bytes" where
  "ccm_chain al n Key KeyLength Block Block_MAC =
     fst (RT_AES_Encrypt (al n) (xor_bytes Block Block_MAC) 16 Key KeyLength (replicate 16 0) 16)"

function ccm_aad_loop ::
    "(nat \<Rightarrow> bool) \<Rightarrow> bytes \<Rightarrow> nat \<Rightarrow> bytes \<Rightarrow> nat \<Rightarrow> nat \<Rightarrow> nat \<Rightarrow> nat \<Rightarrow> bytes \<Rightarrow> bytes \<Rightarrow> nat \<times> bytes" where
  "ccm_aad_loop al Key KeyLength AAD AADLength n ADD_Index Block_Index Block Block_MAC =
     (if ADD_Index < AADLength then
        let Copy_Length = AADLength - ADD_Index;
            Copy_Length = (if Copy_Length > 16 then 16 else Copy_Length);
            Copy_Length = (if Copy_Length + Block_Index > 16 then 16 - Block_Index else Copy_Length);
            Block = write_at Block Block_Index (read_at ADD_Index Copy_Length AAD)
        in ccm_aad_loop al Key KeyLength AAD AADLength (Suc n) (ADD_Index + Copy_Length) 0 (replicate 16 0)
             (ccm_chain al n Key KeyLength Block Block_MAC)
      else (n, Block_MAC))"
  by pat_completeness auto
termination
  by (relation "measures [\<lambda>(_, _, _, _, l, _, i, _). l - i, \<lambda>(_, _, _, _, _, _, _, b, _). b]") auto

declare ccm_aad_loop.simps [simp del]

function ccm_payload_loop ::
    "(nat \<Rightarrow> bool) \<Rightarrow> bytes \<Rightarrow> nat \<Rightarrow> bytes \<Rightarrow> nat \<Rightarrow> nat \<Rightarrow> nat \<Rightarrow> bytes \<Rightarrow> nat \<times> bytes" where
  "ccm_payload_loop al Key KeyLength Payload PayloadLength n Payload_Index Block_MAC =
     (if Payload_Index < PayloadLength then
        let Copy_Length = PayloadLength - Payload_Index;
            Copy_Length = (if Copy_Length > 16 then 16 else Copy_Length);
            Block = write_at (replicate 16 0) 0 (read_at Payload_Index Copy_Length Payload)
        in ccm_payload_loop al Key KeyLength Payload PayloadLength (Suc n) (Payload_Index + Copy_Length)
             (ccm_chain al n Key KeyLength Block Block_MAC)
      else (n, Block_MAC))"
  by pat_completeness auto
termination
  by (relation "measure (\<lambda>(_, _, _, _, l, _, i, _). l - i)") auto

declare ccm_payload_loop.simps [simp del]

text \<open>Formatting of the length of the associated data: \<open>Block_Index\<close> and \<open>Block\<close>.\<close>

definition ccm_aad_header :: "nat \<Rightarrow> nat \<times> bytes" where
  "ccm_aad_header AADLength =
     (if AADLength > 0 \<and> AADLength < 0xFF00
      then (2, (replicate 16 0)[0 := of_nat (AADLength div 2 ^ 8), 1 := of_nat AADLength])
      else (6, (replicate 16 0)[2 := of_nat (AADLength div 2 ^ 24), 3 := of_nat (AADLength div 2 ^ 16),
                                4 := of_nat (AADLength div 2 ^ 8), 5 := of_nat AADLength]))"

text \<open>\<^verbatim>\<open>AES_CCM_MAC\<close>: the allocation count after it and the bytes of \<^verbatim>\<open>MACText\<close>.\<close>

definition AES_CCM_MAC ::
    "(nat \<Rightarrow> bool) \<Rightarrow> nat \<Rightarrow> bytes \<Rightarrow> nat \<Rightarrow> bytes \<Rightarrow> nat \<Rightarrow> bytes \<Rightarrow> nat \<Rightarrow> bytes \<Rightarrow> nat \<Rightarrow> nat \<Rightarrow> nat \<times> bytes" where
  "AES_CCM_MAC al n Payload PayloadLength Key KeyLength Nonce NonceLength AAD AADLength MACLength =
     (let Block_MAC = fst (RT_AES_Encrypt (al n) (ccm_B0 PayloadLength Nonce NonceLength AADLength MACLength) 16
                             Key KeyLength (replicate 16 0) 16);
          (Block_Index, Block) = ccm_aad_header AADLength;
          (n, Block_MAC) = ccm_aad_loop al Key KeyLength AAD AADLength (Suc n) 0 Block_Index Block Block_MAC;
          (n, Block_MAC) = ccm_payload_loop al Key KeyLength Payload PayloadLength n 0 Block_MAC
      in (n, take MACLength Block_MAC))"

text \<open>The counter block of the source: its counter is the last byte only.\<close>

definition ccm_ctr0 :: "bytes \<Rightarrow> nat \<Rightarrow> bytes" where
  "ccm_ctr0 Nonce NonceLength =
     (let Block_CTR = replicate 16 0;
          Block_CTR = Block_CTR[0 := Block_CTR ! 0 OR of_nat (15 - NonceLength - 1)]
      in write_at Block_CTR 1 (take NonceLength Nonce))"

text \<open>The loop that XORs the text with the encrypted counter blocks.\<close>

function ccm_ctr_loop ::
    "(nat \<Rightarrow> bool) \<Rightarrow> bytes \<Rightarrow> nat \<Rightarrow> nat \<Rightarrow> nat \<Rightarrow> nat \<Rightarrow> nat \<Rightarrow> nat \<Rightarrow> bytes \<Rightarrow> bytes \<Rightarrow> bytes \<Rightarrow> nat \<times> bytes" where
  "ccm_ctr_loop al Key KeyLength src len dst n Cipher_Index Block_CTR Block_CTR_Cipher mem =
     (if Cipher_Index < len then
        let Block_CTR = Block_CTR[15 := Block_CTR ! 15 + 1];
            Block_CTR_Cipher = fst (RT_AES_Encrypt (al n) Block_CTR 16 Key KeyLength Block_CTR_Cipher 16);
            Copy_Length = len - Cipher_Index;
            Copy_Length = (if Copy_Length > 16 then 16 else Copy_Length)
        in ccm_ctr_loop al Key KeyLength src len dst (Suc n) (Cipher_Index + Copy_Length) Block_CTR Block_CTR_Cipher
             (xor_copy mem (src + Cipher_Index) (dst + Cipher_Index) (take Copy_Length Block_CTR_Cipher))
      else (n, mem))"
  by pat_completeness auto
termination
  by (relation "measure (\<lambda>(_, _, _, _, l, _, _, i, _). l - i)") auto

declare ccm_ctr_loop.simps [simp del]

definition ccm_mac_length_ok :: "nat \<Rightarrow> bool" where
  "ccm_mac_length_ok M \<longleftrightarrow> M = 4 \<or> M = 6 \<or> M = 8 \<or> M = 10 \<or> M = 12 \<or> M = 14 \<or> M = 16"

text \<open>\<^verbatim>\<open>AES_CCM_Encrypt\<close>: function value, memory, and the length behind the pointer.\<close>

definition AES_CCM_Encrypt ::
    "(nat \<Rightarrow> bool) \<Rightarrow> bytes \<Rightarrow> bytes \<Rightarrow> nat \<Rightarrow> nat \<Rightarrow> bytes \<Rightarrow> nat \<Rightarrow> bytes \<Rightarrow> nat \<Rightarrow> bytes \<Rightarrow> nat \<Rightarrow> nat \<Rightarrow> nat \<Rightarrow> nat
      \<Rightarrow> int \<times> bytes \<times> nat" where
  "AES_CCM_Encrypt al cc0 mem PlainText PlainTextLength Key KeyLength Nonce NonceLength AAD AADLength MACLength
      CipherText CipherTextLength =
     (if KeyLength \<noteq> 16 then (-1, mem, CipherTextLength)
      else if NonceLength < 7 \<or> NonceLength > 13 then (-2, mem, CipherTextLength)
      else if \<not> ccm_mac_length_ok MACLength then (-3, mem, CipherTextLength)
      else if CipherTextLength < (PlainTextLength + MACLength) mod 2 ^ 32 then (-4, mem, CipherTextLength)
      else let Block_CTR = ccm_ctr0 Nonce NonceLength;
               (n, Block_MAC) = AES_CCM_MAC al 0 (read_at PlainText PlainTextLength mem) PlainTextLength Key KeyLength
                                  Nonce NonceLength AAD AADLength MACLength;
               cc = fst (RT_AES_Encrypt (al n) Block_CTR 16 Key KeyLength cc0 16);
               Block_MAC = xor_bytes Block_MAC (take MACLength cc);
               (n, mem) = ccm_ctr_loop al Key KeyLength PlainText PlainTextLength CipherText (Suc n) 0 Block_CTR cc mem
           in (0, write_at mem (CipherText + PlainTextLength) Block_MAC, (PlainTextLength + MACLength) mod 2 ^ 32))"

text \<open>
  \<^verbatim>\<open>AES_CCM_Decrypt\<close>. \<open>None\<close> is the access outside the buffers when the unsigned
  \<^verbatim>\<open>CipherTextLength - MACLength\<close> underflows and the check against \<^verbatim>\<open>*PlainTextLength\<close> passes.
\<close>

definition AES_CCM_Decrypt ::
    "(nat \<Rightarrow> bool) \<Rightarrow> bytes \<Rightarrow> bytes \<Rightarrow> nat \<Rightarrow> nat \<Rightarrow> bytes \<Rightarrow> nat \<Rightarrow> bytes \<Rightarrow> nat \<Rightarrow> bytes \<Rightarrow> nat \<Rightarrow> nat \<Rightarrow> nat \<Rightarrow> nat
      \<Rightarrow> (int \<times> bytes \<times> nat) option" where
  "AES_CCM_Decrypt al cc0 mem CipherText CipherTextLength Key KeyLength Nonce NonceLength AAD AADLength MACLength
      PlainText PlainTextLength =
     (if KeyLength \<noteq> 16 then Some (-1, mem, PlainTextLength)
      else if NonceLength < 7 \<or> NonceLength > 13 then Some (-2, mem, PlainTextLength)
      else if \<not> ccm_mac_length_ok MACLength then Some (-3, mem, PlainTextLength)
      else if PlainTextLength < (CipherTextLength + 2 ^ 32 - MACLength) mod 2 ^ 32 then Some (-4, mem, PlainTextLength)
      else if CipherTextLength < MACLength then None
      else let len = CipherTextLength - MACLength;
               Block_CTR = ccm_ctr0 Nonce NonceLength;
               cc = fst (RT_AES_Encrypt (al 0) Block_CTR 16 Key KeyLength cc0 16);
               Block_MAC_From_Cipher = xor_bytes (read_at (CipherText + len) MACLength mem) cc;
               (n, mem) = ccm_ctr_loop al Key KeyLength CipherText len PlainText 1 0 Block_CTR cc mem;
               (n, Block_MAC) = AES_CCM_MAC al n (read_at PlainText len mem) len Key KeyLength
                                  Nonce NonceLength AAD AADLength MACLength
           in Some (if Block_MAC_From_Cipher \<noteq> Block_MAC then -5 else 0, mem, len))"

section \<open>Reference: RFC 3610\<close>

definition be_bytes :: "nat \<Rightarrow> nat \<Rightarrow> bytes" where
  "be_bytes q n = map (\<lambda>i. of_nat (n div 256 ^ (q - 1 - i))) [0..<q]"

definition pad16 :: "bytes \<Rightarrow> bytes" where
  "pad16 b = b @ replicate (16 - length b) 0"

text \<open>The blocks of a string, the last one filled up with zeros.\<close>

definition blocks16 :: "bytes \<Rightarrow> bytes list" where
  "blocks16 xs = map pad16 (chunks 16 xs)"

definition rfc3610_B0 :: "nat \<Rightarrow> bytes \<Rightarrow> bytes \<Rightarrow> nat \<Rightarrow> bytes" where
  "rfc3610_B0 M N a len =
     of_nat (64 * (if a = [] then 0 else 1) + 8 * ((M - 2) div 2) + (15 - length N - 1)) # N @ be_bytes (15 - length N) len"

definition rfc3610_aad :: "bytes \<Rightarrow> bytes list" where
  "rfc3610_aad a = (if a = [] then [] else blocks16 (be_bytes 2 (length a) @ a))"

definition rfc3610_mac :: "(bytes \<Rightarrow> bytes) \<Rightarrow> nat \<Rightarrow> bytes \<Rightarrow> bytes \<Rightarrow> bytes \<Rightarrow> bytes" where
  "rfc3610_mac E M N a m =
     take M (cbc_mac E (replicate 16 0) (rfc3610_B0 M N a (length m) # rfc3610_aad a @ blocks16 m))"

definition rfc3610_A :: "bytes \<Rightarrow> nat \<Rightarrow> bytes" where
  "rfc3610_A N i = of_nat (15 - length N - 1) # N @ be_bytes (15 - length N) i"

definition rfc3610_encrypt :: "(bytes \<Rightarrow> bytes) \<Rightarrow> nat \<Rightarrow> bytes \<Rightarrow> bytes \<Rightarrow> bytes \<Rightarrow> bytes" where
  "rfc3610_encrypt E M N a m =
     xor_bytes m (concat (map (\<lambda>i. E (rfc3610_A N i)) [1..<Suc ((length m + 15) div 16)]))
     @ xor_bytes (rfc3610_mac E M N a m) (E (rfc3610_A N 0))"

section \<open>The MAC\<close>

lemma ccm_chain_ok: "alloc_ok al \<Longrightarrow> ccm_chain al n Key 16 b x = aes_E Key 16 (xor_bytes b x)"
  by (simp add: ccm_chain_def RT_AES_Encrypt_ok aes_key_length_ok_def write_at_whole)

lemma blocks16_Nil [simp]: "blocks16 [] = []"
  by (simp add: blocks16_def)

lemma blocks16_step: "xs \<noteq> [] \<Longrightarrow> blocks16 xs = pad16 (take 16 xs) # blocks16 (drop 16 xs)"
  by (simp add: blocks16_def chunks.simps [of 16 xs])

lemma cbc_mac_Cons: "cbc_mac E x (b # bs) = cbc_mac E (E (xor_bytes b x)) bs"
  by (simp add: cbc_mac_def)

lemma cbc_mac_append: "cbc_mac E x (as @ bs) = cbc_mac E (cbc_mac E x as) bs"
  by (simp add: cbc_mac_def)

lemma write_at_pad16: "length b \<le> 16 \<Longrightarrow> write_at (replicate 16 0) 0 b = pad16 b"
  by (simp add: write_at_def pad16_def)

lemma ccm_payload_loop_cbc:
  assumes "alloc_ok al"
  shows "\<exists>n'. ccm_payload_loop al Key 16 m (length m) n i X = (n', cbc_mac (aes_E Key 16) X (blocks16 (drop i m)))"
proof (induction "length m - i" arbitrary: n i X rule: less_induct)
  case less
  show ?case
  proof (cases "i < length m")
    case True
    define c where "c = (if length m - i > 16 then 16 else length m - i)"
    let ?X = "aes_E Key 16 (xor_bytes (pad16 (take 16 (drop i m))) X)"
    have b: "read_at i c m = take 16 (drop i m)" by (simp add: read_at_def c_def)
    have d: "drop 16 (drop i m) = drop (i + c) m" by (simp add: add.commute c_def)
    have "ccm_payload_loop al Key 16 m (length m) n i X = ccm_payload_loop al Key 16 m (length m) (Suc n) (i + c) ?X"
      using True assms
      by (subst ccm_payload_loop.simps) (simp add: Let_def c_def [symmetric] b ccm_chain_ok write_at_pad16)
    moreover have "blocks16 (drop i m) = pad16 (take 16 (drop i m)) # blocks16 (drop (i + c) m)"
      using True blocks16_step [of "drop i m"] unfolding d by simp
    moreover have "length m - (i + c) < length m - i" using True by (auto simp: c_def)
    ultimately show ?thesis
      using less [of "i + c" "Suc n" ?X] by (simp add: cbc_mac_Cons)
  next
    case False
    then show ?thesis by (simp add: ccm_payload_loop.simps cbc_mac_def)
  qed
qed

lemma ccm_aad_loop_cbc:
  assumes "alloc_ok al" and "length pre < 16" and "i < length a"
  shows "\<exists>n'. ccm_aad_loop al Key 16 a (length a) n i (length pre) (pre @ replicate (16 - length pre) 0) X =
    (n', cbc_mac (aes_E Key 16) X (blocks16 (pre @ drop i a)))"
  using assms(2,3)
proof (induction "length a - i" arbitrary: n i pre X rule: less_induct)
  case less
  define c where "c = min (length a - i) (16 - length pre)"
  let ?b = "pre @ take c (drop i a)"
  let ?X = "aes_E Key 16 (xor_bytes (pad16 ?b) X)"
  have c: "(let c = length a - i; c = (if c > 16 then 16 else c) in if c + length pre > 16 then 16 - length pre else c) = c"
    using less.prems by (auto simp: c_def Let_def)
  have w: "write_at (pre @ replicate (16 - length pre) 0) (length pre) (read_at i c a) = pad16 ?b"
    using less.prems by (simp add: write_at_def read_at_def pad16_def c_def)
  have step: "ccm_aad_loop al Key 16 a (length a) n i (length pre) (pre @ replicate (16 - length pre) 0) X =
      ccm_aad_loop al Key 16 a (length a) (Suc n) (i + c) 0 (replicate 16 0) ?X"
    using less.prems(2) assms(1) w c by (subst ccm_aad_loop.simps) (simp add: Let_def ccm_chain_ok)
  have t: "take 16 (pre @ drop i a) = ?b" "drop 16 (pre @ drop i a) = drop (i + c) a"
    using less.prems by (auto simp: c_def min_def add.commute)
  then have bl: "blocks16 (pre @ drop i a) = pad16 ?b # blocks16 (drop (i + c) a)"
    using less.prems blocks16_step [of "pre @ drop i a"] by simp
  show ?case
  proof (cases "i + c < length a")
    case True
    then have "length a - (i + c) < length a - i" using less.prems by (auto simp: c_def)
    from less.hyps [OF this, of "[]" "Suc n" ?X] True show ?thesis
      by (simp add: step bl cbc_mac_Cons)
  next
    case False
    then show ?thesis
      unfolding step bl by (subst ccm_aad_loop.simps) (simp add: cbc_mac_def)
  qed
qed

lemma length_be_bytes [simp]: "length (be_bytes q n) = q"
  by (simp add: be_bytes_def)

lemma nth_be_bytes: "i < q \<Longrightarrow> be_bytes q n ! i = of_nat (n div 256 ^ (q - 1 - i))"
  by (simp add: be_bytes_def)

definition ccm_nonce_ok :: "bytes \<Rightarrow> bool" where
  "ccm_nonce_ok N \<longleftrightarrow> 7 \<le> length N \<and> length N \<le> 13"

lemma ccm_flags:
  assumes "ccm_mac_length_ok M" and "7 \<le> l" and "l \<le> 13"
  shows "(if c then 0x40 else 0) OR of_nat ((M - 2) div 2 * 8) OR of_nat (15 - l - 1) =
    (of_nat (64 * (if c then 1 else 0) + 8 * ((M - 2) div 2) + (15 - l - 1)) :: u8)"
proof -
  have "l = 7 \<or> l = 8 \<or> l = 9 \<or> l = 10 \<or> l = 11 \<or> l = 12 \<or> l = 13" using assms(2,3) by linarith
  then show ?thesis
    using assms(1) unfolding ccm_mac_length_ok_def by (elim disjE; simp)
qed

lemma ccm_B0_nth:
  assumes "ccm_nonce_ok N" and "i < 16"
  shows "ccm_B0 len N (length N) al M ! i =
    (if i = 0 then (if al > 0 then 0x40 else 0) OR of_nat ((M - 2) div 2 * 8) OR of_nat (15 - length N - 1)
     else if i \<le> length N then N ! (i - 1)
     else if i \<ge> 12 then of_nat (len div 2 ^ (8 * (15 - i)))
     else 0)"
proof -
  consider "i = 0" | "0 < i" "i < 12" | "i = 12" | "i = 13" | "i = 14" | "i = 15" using assms(2) by linarith
  then show ?thesis
    using assms by cases (auto simp: ccm_B0_def Let_def nth_write_at ccm_nonce_ok_def nth_list_update or.assoc)
qed

lemma length_ccm_B0: "ccm_nonce_ok N \<Longrightarrow> length (ccm_B0 len N (length N) al M) = 16"
  by (simp add: ccm_B0_def Let_def ccm_nonce_ok_def)

lemma ccm_B0_rfc3610:
  assumes "ccm_nonce_ok N" and "ccm_mac_length_ok M" and "len < 2 ^ 32"
  shows "ccm_B0 len N (length N) (length a) M = rfc3610_B0 M N a len"
proof (rule nth_equalityI)
  show "length (ccm_B0 len N (length N) (length a) M) = length (rfc3610_B0 M N a len)"
    using assms(1) by (simp add: length_ccm_B0 rfc3610_B0_def ccm_nonce_ok_def)
next
  fix i assume "i < length (ccm_B0 len N (length N) (length a) M)"
  then have i: "i < 16" using assms(1) by (simp add: length_ccm_B0)
  have N: "7 \<le> length N" "length N \<le> 13" using assms(1) by (simp_all add: ccm_nonce_ok_def)
  have z: "len div 256 ^ (15 - i) = 0" if "i < 12"
  proof -
    have "(256 :: nat) ^ 4 \<le> 256 ^ (15 - i)" using that by (intro power_increasing) simp_all
    then show ?thesis using assms(3) by simp
  qed
  have e: "(2 :: nat) ^ (8 * (15 - i)) = 256 ^ (15 - i)" by (simp add: power_mult)
  show "ccm_B0 len N (length N) (length a) M ! i = rfc3610_B0 M N a len ! i"
    unfolding ccm_B0_nth [OF assms(1) i] e
    using i N z ccm_flags [OF assms(2) N, of "a \<noteq> []"]
    by (auto simp: rfc3610_B0_def nth_Cons' nth_append nth_be_bytes)
qed

lemma replicate_16_head: "(replicate 16 0)[0 := x, 1 := y] = [x, y] @ replicate 14 (0 :: u8)"
  by (simp add: numeral_eq_Suc)

lemma be_bytes_2: "be_bytes 2 n = [of_nat (n div 2 ^ 8), of_nat n]"
  by (simp add: be_bytes_def upt_rec)

lemma AES_CCM_MAC_rfc3610:
  assumes "alloc_ok al" and "ccm_nonce_ok N" and "ccm_mac_length_ok M" and "length m < 2 ^ 32" and "length a < 0xFF00"
  shows "\<exists>n'. AES_CCM_MAC al n m (length m) Key 16 N (length N) a (length a) M = (n', rfc3610_mac (aes_E Key 16) M N a m)"
proof -
  let ?E = "aes_E Key 16" and ?B0 = "rfc3610_B0 M N a (length m)"
  have B0: "fst (RT_AES_Encrypt (al n) (ccm_B0 (length m) N (length N) (length a) M) 16 Key 16 (replicate 16 0) 16) = ?E ?B0"
    using assms by (simp add: ccm_B0_rfc3610 RT_AES_Encrypt_ok aes_key_length_ok_def write_at_whole)
  have l: "length ?B0 = 16" using assms(2) by (simp add: rfc3610_B0_def ccm_nonce_ok_def)
  let ?I = "ccm_aad_header (length a)"
  have aad: "\<exists>n'. ccm_aad_loop al Key 16 a (length a) (Suc n) 0 (fst ?I) (snd ?I) (?E ?B0) =
      (n', cbc_mac ?E (?E ?B0) (rfc3610_aad a))"
  proof (cases "a = []")
    case True
    then show ?thesis by (simp add: rfc3610_aad_def ccm_aad_loop.simps cbc_mac_def)
  next
    case False
    let ?p = "be_bytes 2 (length a)"
    have "?I = (2, ?p @ replicate (16 - length ?p) 0)"
      using False assms(5) by (simp add: ccm_aad_header_def be_bytes_2 replicate_16_head [simplified])
    then show ?thesis
      using ccm_aad_loop_cbc [OF assms(1), of ?p 0 a Key "Suc n" "?E ?B0"] False assms(5) by (simp add: rfc3610_aad_def)
  qed
  then obtain n1 where n1: "ccm_aad_loop al Key 16 a (length a) (Suc n) 0 (fst ?I) (snd ?I) (?E ?B0) =
      (n1, cbc_mac ?E (?E ?B0) (rfc3610_aad a))" by blast
  obtain n2 where n2: "ccm_payload_loop al Key 16 m (length m) n1 0 (cbc_mac ?E (?E ?B0) (rfc3610_aad a)) =
      (n2, cbc_mac ?E (cbc_mac ?E (?E ?B0) (rfc3610_aad a)) (blocks16 m))"
    using ccm_payload_loop_cbc [OF assms(1), of Key m n1 0] by auto
  have "rfc3610_mac ?E M N a m = take M (cbc_mac ?E (cbc_mac ?E (?E ?B0) (rfc3610_aad a)) (blocks16 m))"
    using l by (simp add: rfc3610_mac_def cbc_mac_Cons cbc_mac_append)
  then have "AES_CCM_MAC al n m (length m) Key 16 N (length N) a (length a) M = (n2, rfc3610_mac ?E M N a m)"
    unfolding AES_CCM_MAC_def Let_def B0 by (simp only: split_beta n1 n2 fst_conv snd_conv)
  then show ?thesis ..
qed

section \<open>The key stream\<close>

fun ctr_stream :: "(bytes \<Rightarrow> bytes) \<Rightarrow> bytes \<Rightarrow> nat \<Rightarrow> bytes" where
  "ctr_stream E c 0 = []"
| "ctr_stream E c (Suc k) = E (c[15 := c ! 15 + 1]) @ ctr_stream E (c[15 := c ! 15 + 1]) k"

text \<open>The bytes of the key stream that a text of \<open>len\<close> bytes uses.\<close>

definition ctr_text :: "(bytes \<Rightarrow> bytes) \<Rightarrow> bytes \<Rightarrow> nat \<Rightarrow> bytes" where
  "ctr_text E c len = take len (ctr_stream E c ((len + 15) div 16))"

lemma ctr_text_0 [simp]: "ctr_text E c 0 = []"
  by (simp add: ctr_text_def)

context block_cipher
begin

lemma length_ctr_stream [simp]: "length (ctr_stream E c k) = 16 * k"
  by (induction k arbitrary: c) simp_all

lemma length_ctr_text [simp]: "length (ctr_text E c len) = len"
proof -
  have "len \<le> 16 * ((len + 15) div 16)" by presburger
  then show ?thesis by (simp add: ctr_text_def min_absorb2)
qed

lemma ctr_text_step:
  assumes "0 < r"
  shows "ctr_text E c r = take r (E (c[15 := c ! 15 + 1])) @ ctr_text E (c[15 := c ! 15 + 1]) (r - 16)"
proof (cases "r \<le> 16")
  case True
  then have "(r + 15) div 16 = 1" using assms by simp
  then show ?thesis using True by (simp add: ctr_text_def)
next
  case False
  then have "(r + 15) div 16 = Suc ((r - 16 + 15) div 16)" by (subst le_div_geq) simp_all
  then show ?thesis using False by (simp add: ctr_text_def)
qed

end

lemma ccm_ctr_loop_stream:
  assumes "alloc_ok al" and "length cc = 16"
  shows "\<exists>n'. ccm_ctr_loop al Key 16 src len dst n i ctr cc mem =
    (n', xor_copy mem (src + i) (dst + i) (ctr_text (aes_E Key 16) ctr (len - i)))"
  using assms(2)
proof (induction "len - i" arbitrary: n i ctr cc mem rule: less_induct)
  case less
  show ?case
  proof (cases "i < len")
    case True
    define c where "c = (if len - i > 16 then 16 else len - i)"
    let ?ctr = "ctr[15 := ctr ! 15 + 1]"
    let ?cc = "aes_E Key 16 ?ctr"
    let ?mem = "xor_copy mem (src + i) (dst + i) (take c ?cc)"
    have step: "ccm_ctr_loop al Key 16 src len dst n i ctr cc mem =
        ccm_ctr_loop al Key 16 src len dst (Suc n) (i + c) ?ctr ?cc ?mem"
      using True assms(1) less.prems
      by (subst ccm_ctr_loop.simps)
         (simp add: Let_def c_def [symmetric] RT_AES_Encrypt_ok aes_key_length_ok_def write_at_whole)
    have "ctr_text (aes_E Key 16) ctr (len - i) = take c ?cc @ ctr_text (aes_E Key 16) ?ctr (len - (i + c))"
      using True aes.ctr_text_step [of "len - i" Key 16 ctr] by (simp add: c_def)
    moreover have "length (take c ?cc) = c" by (simp add: c_def)
    moreover have "len - (i + c) < len - i" using True by (auto simp: c_def)
    ultimately show ?thesis
      using less.hyps [of "i + c" ?cc "Suc n" ?ctr ?mem] by (simp add: step xor_copy_append add.assoc)
  next
    case False
    then show ?thesis by (simp add: ccm_ctr_loop.simps)
  qed
qed

lemma be_bytes_small:
  assumes "n < 256" and "0 < q"
  shows "be_bytes q n = replicate (q - 1) 0 @ [of_nat n]"
proof (rule nth_equalityI)
  fix i assume "i < length (be_bytes q n)"
  then have i: "i < q" by simp
  show "be_bytes q n ! i = (replicate (q - 1) 0 @ [of_nat n]) ! i"
  proof (cases "i = q - 1")
    case True
    then show ?thesis using i by (simp add: nth_be_bytes nth_append)
  next
    case False
    then have "(256 :: nat) ^ 1 \<le> 256 ^ (q - 1 - i)" using i by (intro power_increasing) simp_all
    moreover have "i < q - 1" using False i by simp
    ultimately show ?thesis using i assms(1) by (simp add: nth_be_bytes nth_append)
  qed
qed (use assms in simp)

lemma rfc3610_A_small:
  assumes "ccm_nonce_ok N" and "i < 256"
  shows "rfc3610_A N i = (of_nat (15 - length N - 1) # N @ replicate (14 - length N) 0) @ [of_nat i]"
  using assms be_bytes_small [of i "15 - length N"] by (simp add: rfc3610_A_def ccm_nonce_ok_def)

lemma rfc3610_A_Suc:
  assumes "ccm_nonce_ok N" and "Suc i < 256"
  shows "(rfc3610_A N i)[15 := rfc3610_A N i ! 15 + 1] = rfc3610_A N (Suc i)"
  using assms
  by (simp add: rfc3610_A_small list_update_append nth_append ccm_nonce_ok_def add.commute)

lemma ccm_ctr0_rfc3610: "ccm_nonce_ok N \<Longrightarrow> ccm_ctr0 N (length N) = rfc3610_A N 0"
proof -
  assume N: "ccm_nonce_ok N"
  have "replicate (15 - length N) (0 :: u8) = replicate (14 - length N) 0 @ [0]"
  proof -
    have "15 - length N = Suc (14 - length N)" using N unfolding ccm_nonce_ok_def by linarith
    then show ?thesis using replicate_append_same [of "14 - length N" "0 :: u8"] by simp
  qed
  moreover have "take 1 ((replicate 16 0)[0 := v]) = [v]" for v :: u8
    by (simp add: numeral_eq_Suc)
  ultimately show ?thesis
    using N by (simp add: ccm_ctr0_def Let_def rfc3610_A_small write_at_def ccm_nonce_ok_def)
qed

lemma ctr_stream_rfc3610:
  assumes "ccm_nonce_ok N" and "i + k < 256"
  shows "ctr_stream E (rfc3610_A N i) k = concat (map (\<lambda>j. E (rfc3610_A N j)) [Suc i..<Suc i + k])"
  using assms(2)
proof (induction k arbitrary: i)
  case (Suc k)
  have u: "[Suc i..<Suc i + Suc k] = Suc i # [Suc (Suc i)..<Suc (Suc i) + k]"
    by (subst upt_conv_Cons) simp_all
  show ?case unfolding u using Suc.IH [of "Suc i"] Suc.prems by (simp add: rfc3610_A_Suc assms(1) del: upt_Suc)
qed simp

section \<open>Encryption and decryption\<close>

text \<open>The tag and the text that the two functions compute, as functions of the cipher.\<close>

definition ccm_tag :: "(bytes \<Rightarrow> bytes) \<Rightarrow> nat \<Rightarrow> bytes \<Rightarrow> bytes \<Rightarrow> bytes \<Rightarrow> bytes" where
  "ccm_tag E M N a m = xor_bytes (rfc3610_mac E M N a m) (E (rfc3610_A N 0))"

lemma length_rfc3610_mac:
  "ccm_mac_length_ok M \<Longrightarrow> length (rfc3610_mac (aes_E Key 16) M N a m) = M"
proof -
  have "length (cbc_mac (aes_E Key 16) x bs) = 16" if "length x = 16" for x bs
    using that by (induction bs arbitrary: x) (simp_all add: cbc_mac_def)
  then show "ccm_mac_length_ok M \<Longrightarrow> length (rfc3610_mac (aes_E Key 16) M N a m) = M"
    by (auto simp: rfc3610_mac_def ccm_mac_length_ok_def)
qed

lemma ccm_mac_le_16: "ccm_mac_length_ok M \<Longrightarrow> M \<le> 16"
  by (auto simp: ccm_mac_length_ok_def)

lemma length_ccm_tag [simp]: "ccm_mac_length_ok M \<Longrightarrow> length (ccm_tag (aes_E Key 16) M N a m) = M"
  using ccm_mac_le_16 [of M] by (simp add: ccm_tag_def length_rfc3610_mac)

lemma AES_CCM_Encrypt_ok:
  assumes "alloc_ok al" and "length cc0 = 16" and "ccm_nonce_ok N" and "ccm_mac_length_ok M" and "length a < 0xFF00"
    and "len + M < 2 ^ 32" and "len + M \<le> cl" and "src + len \<le> length mem" and "dst + len + M \<le> length mem"
    and "dst \<le> src \<or> src + len \<le> dst"
  defines "p \<equiv> read_at src len mem"
  shows "AES_CCM_Encrypt al cc0 mem src len Key 16 N (length N) a (length a) M dst cl =
    (0, write_at mem dst (xor_bytes p (ctr_text (aes_E Key 16) (rfc3610_A N 0) len) @ ccm_tag (aes_E Key 16) M N a p), len + M)"
proof -
  let ?E = "aes_E Key 16" and ?A = "rfc3610_A N 0"
  let ?ct = "xor_bytes p (ctr_text ?E ?A len)"
  have lp: "length p = len" using assms(8) by (simp add: p_def)
  obtain n1 where mac: "AES_CCM_MAC al 0 p len Key 16 N (length N) a (length a) M = (n1, rfc3610_mac ?E M N a p)"
    using AES_CCM_MAC_rfc3610 [OF assms(1,3,4), of p a 0 Key] assms(5,6) lp by auto
  have cc: "fst (RT_AES_Encrypt (al n1) ?A 16 Key 16 cc0 16) = ?E ?A"
    using assms(1,2) by (simp add: RT_AES_Encrypt_ok aes_key_length_ok_def write_at_whole)
  have tag: "xor_bytes (rfc3610_mac ?E M N a p) (take M (?E ?A)) = ccm_tag ?E M N a p"
    using length_rfc3610_mac [OF assms(4), of Key N a p] xor_bytes_take [of M "?E ?A"]
    by (simp add: ccm_tag_def xor_bytes_commute [of "rfc3610_mac _ _ _ _ _"])
  obtain n2 where loop: "ccm_ctr_loop al Key 16 src len dst (Suc n1) 0 ?A (?E ?A) mem = (n2, xor_copy mem src dst (ctr_text ?E ?A len))"
    using ccm_ctr_loop_stream [OF assms(1), of "?E ?A" Key src len dst "Suc n1" 0 ?A mem] by auto
  have mem: "xor_copy mem src dst (ctr_text ?E ?A len) = write_at mem dst ?ct"
    using assms(8-10) by (subst xor_copy_write_at) (simp_all add: p_def)
  have out: "write_at (write_at mem dst ?ct) (dst + len) (ccm_tag ?E M N a p) = write_at mem dst (?ct @ ccm_tag ?E M N a p)"
    using write_at_write_at_adjacent [of dst ?ct "ccm_tag ?E M N a p" mem] assms(4,9) by (simp add: lp)
  have ctr: "ccm_ctr0 N (length N) = ?A" by (rule ccm_ctr0_rfc3610) (rule assms(3))
  have g: "\<not> (length N < 7 \<or> length N > 13)" "\<not> cl < (len + M) mod 2 ^ 32" "(len + M) mod 2 ^ 32 = len + M"
    using assms(3,6,7) by (simp_all add: ccm_nonce_ok_def)
  show ?thesis
    unfolding AES_CCM_Encrypt_def Let_def p_def [symmetric] ctr
    using g assms(4) by (simp only: mac split_beta fst_conv snd_conv cc tag loop mem out if_False if_True not_True_eq_False simp_thms)
qed

lemma AES_CCM_Decrypt_ok:
  fixes Key :: bytes
  assumes "alloc_ok al" and "length cc0 = 16" and "ccm_nonce_ok N" and "ccm_mac_length_ok M" and "length a < 0xFF00"
    and "len + M < 2 ^ 32" and "len \<le> pl" and "src + len + M \<le> length mem" and "dst + len \<le> length mem"
    and "dst \<le> src \<or> src + len \<le> dst"
  defines "p \<equiv> xor_bytes (read_at src len mem) (ctr_text (aes_E Key 16) (rfc3610_A N 0) len)"
  shows "AES_CCM_Decrypt al cc0 mem src (len + M) Key 16 N (length N) a (length a) M dst pl =
    Some (if read_at (src + len) M mem = ccm_tag (aes_E Key 16) M N a p then 0 else -5, write_at mem dst p, len)"
proof -
  let ?E = "aes_E Key 16" and ?A = "rfc3610_A N 0"
  let ?T = "read_at (src + len) M mem"
  have lp: "length p = len" using assms(8) by (simp add: p_def)
  have cc: "fst (RT_AES_Encrypt (al 0) ?A 16 Key 16 cc0 16) = ?E ?A"
    using assms(1,2) by (simp add: RT_AES_Encrypt_ok aes_key_length_ok_def write_at_whole)
  obtain n1 where loop: "ccm_ctr_loop al Key 16 src len dst 1 0 ?A (?E ?A) mem = (n1, xor_copy mem src dst (ctr_text ?E ?A len))"
    using ccm_ctr_loop_stream [OF assms(1), of "?E ?A" Key src len dst 1 0 ?A mem] by auto
  have mem: "xor_copy mem src dst (ctr_text ?E ?A len) = write_at mem dst p"
    using assms(8-10) by (subst xor_copy_write_at) (simp_all add: p_def)
  have rd: "read_at dst len (write_at mem dst p) = p"
    using assms(9) lp by simp
  obtain n2 where mac: "AES_CCM_MAC al n1 p len Key 16 N (length N) a (length a) M = (n2, rfc3610_mac ?E M N a p)"
    using AES_CCM_MAC_rfc3610 [OF assms(1,3,4), of p a n1 Key] assms(5,6) lp by auto
  have lT: "length ?T = M" "length (rfc3610_mac ?E M N a p) = M" "M \<le> 16"
    using assms(4,8) by (simp_all add: length_rfc3610_mac ccm_mac_le_16)
  have tag: "xor_bytes ?T (?E ?A) \<noteq> rfc3610_mac ?E M N a p \<longleftrightarrow> ?T \<noteq> ccm_tag ?E M N a p"
  proof -
    have "xor_bytes (xor_bytes ?T (?E ?A)) (?E ?A) = ?T" "xor_bytes (ccm_tag ?E M N a p) (?E ?A) = rfc3610_mac ?E M N a p"
      using lT by (simp_all add: ccm_tag_def)
    then show ?thesis unfolding ccm_tag_def by metis
  qed
  have ctr: "ccm_ctr0 N (length N) = ?A" by (rule ccm_ctr0_rfc3610) (rule assms(3))
  have g: "\<not> (length N < 7 \<or> length N > 13)" "\<not> pl < (len + M + 2 ^ 32 - M) mod 2 ^ 32" "\<not> len + M < M" "len + M - M = len"
    using assms(3,6,7) by (simp_all add: ccm_nonce_ok_def)
  show ?thesis
    unfolding AES_CCM_Decrypt_def Let_def ctr
    using g assms(4)
    by (simp only: g cc loop split_beta fst_conv snd_conv mem rd mac tag if_False if_True not_True_eq_False simp_thms)
       (simp only: if_not_P if_P not_not split: if_split, simp)
qed

lemma ctr_text_rfc3610:
  assumes "ccm_nonce_ok N" and "length p \<le> 4080"
  shows "xor_bytes p (ctr_text E (rfc3610_A N 0) (length p)) =
    xor_bytes p (concat (map (\<lambda>i. E (rfc3610_A N i)) [1..<Suc ((length p + 15) div 16)]))"
proof -
  have "0 + (length p + 15) div 16 < 256" using assms(2) by linarith
  from ctr_stream_rfc3610 [OF assms(1) this] show ?thesis
    by (simp add: ctr_text_def xor_bytes_commute [of p] xor_bytes_take)
qed

lemma rfc3610_encrypt_ctr:
  assumes "ccm_nonce_ok N" and "length p \<le> 4080"
  shows "rfc3610_encrypt E M N a p = xor_bytes p (ctr_text E (rfc3610_A N 0) (length p)) @ ccm_tag E M N a p"
  by (simp only: rfc3610_encrypt_def ccm_tag_def ctr_text_rfc3610 [OF assms])

section \<open>Properties\<close>

text \<open>
  (C17) On texts of at most 4080 bytes (255 counter blocks), with a valid nonce and MAC length,
  \<^verbatim>\<open>AES_CCM_Encrypt\<close> succeeds and stores the RFC 3610 encryption with its tag at the
  destination, leaving the rest of the memory alone, also when it works in place or
  moves the text towards lower addresses.
\<close>

theorem AES_CCM_Encrypt_rfc3610:
  assumes "alloc_ok al" and "length cc0 = 16" and "ccm_nonce_ok N" and "ccm_mac_length_ok M" and "length a < 0xFF00"
    and "len \<le> 4080" and "len + M \<le> cl" and "src + len \<le> length mem" and "dst + len + M \<le> length mem"
    and "dst \<le> src \<or> src + len \<le> dst"
  shows "AES_CCM_Encrypt al cc0 mem src len Key 16 N (length N) a (length a) M dst cl =
    (0, write_at mem dst (rfc3610_encrypt (aes_E Key 16) M N a (read_at src len mem)), len + M)"
proof -
  have "length (read_at src len mem) = len" using assms(8) by simp
  then have "rfc3610_encrypt (aes_E Key 16) M N a (read_at src len mem) =
      xor_bytes (read_at src len mem) (ctr_text (aes_E Key 16) (rfc3610_A N 0) len) @ ccm_tag (aes_E Key 16) M N a (read_at src len mem)"
    using rfc3610_encrypt_ctr [OF assms(3), of "read_at src len mem" "aes_E Key 16" M a] assms(6) by simp
  then show ?thesis
    using AES_CCM_Encrypt_ok [OF assms(1-5), of len cl src mem dst Key] assms(6-10) ccm_mac_le_16 [OF assms(4)] by simp
qed

theorem AES_CCM_Encrypt_rfc3610_witness:
  "AES_CCM_Encrypt (\<lambda>n. True) (replicate 16 0) (replicate 40 5) 8 20 (replicate 16 1) 16 (replicate 13 2) 13 [1] 1 8 8 32 =
    (0, write_at (replicate 40 5) 8 (rfc3610_encrypt (aes_E (replicate 16 1) 16) 8 (replicate 13 2) [1]
      (read_at 8 20 (replicate 40 5))), 28)"
  using AES_CCM_Encrypt_rfc3610 [of "\<lambda>n. True" "replicate 16 0" "replicate 13 2" 8 "[1]" 20 32 8 "replicate 40 5" 8 "replicate 16 1"]
  by (simp add: ccm_nonce_ok_def ccm_mac_length_ok_def)

text \<open>
  (C15) A text of any length encrypted by \<^verbatim>\<open>AES_CCM_Encrypt\<close> is accepted by \<^verbatim>\<open>AES_CCM_Decrypt\<close> with
  the same key, nonce and associated data, which puts the plain text back, in place or at a
  lower address as the CCMP receive path does, and reports its length.
\<close>

theorem AES_CCM_Decrypt_Encrypt:
  assumes "alloc_ok al" and "alloc_ok al'" and "length cc0 = 16" and "length cc1 = 16"
    and "ccm_nonce_ok N" and "ccm_mac_length_ok M" and "length a < 0xFF00"
    and "len + M < 2 ^ 32" and "len + M \<le> cl" and "len \<le> pl"
    and "src + len \<le> length mem" and "dst + len + M \<le> length mem" and "out + len \<le> length mem"
    and "dst \<le> src \<or> src + len \<le> dst" and "out \<le> dst \<or> dst + len \<le> out"
  shows "\<exists>mem'. AES_CCM_Encrypt al cc0 mem src len Key 16 N (length N) a (length a) M dst cl = (0, mem', len + M) \<and>
    AES_CCM_Decrypt al' cc1 mem' dst (len + M) Key 16 N (length N) a (length a) M out pl =
      Some (0, write_at mem' out (read_at src len mem), len)"
proof -
  let ?E = "aes_E Key 16" and ?p = "read_at src len mem" and ?k = "ctr_text (aes_E Key 16) (rfc3610_A N 0) len"
  let ?c = "xor_bytes ?p ?k" and ?t = "ccm_tag (aes_E Key 16) M N a (read_at src len mem)"
  let ?m = "write_at mem dst (?c @ ?t)"
  have len: "length ?p = len" "length ?c = len" "length ?t = M" using assms(6,11) by simp_all
  have enc: "AES_CCM_Encrypt al cc0 mem src len Key 16 N (length N) a (length a) M dst cl = (0, ?m, len + M)"
    using AES_CCM_Encrypt_ok [OF assms(1,3,5,6,7,8,9,11,12,14), of Key] by simp
  have lm: "length ?m = length mem" using assms(12) len by simp
  have rd: "read_at dst len ?m = ?c" "read_at (dst + len) M ?m = ?t"
    using assms(12) len by (simp_all add: write_at_def read_at_def)
  have "xor_bytes ?c ?k = ?p" using len by simp
  then have "AES_CCM_Decrypt al' cc1 ?m dst (len + M) Key 16 N (length N) a (length a) M out pl = Some (0, write_at ?m out ?p, len)"
    using AES_CCM_Decrypt_ok [OF assms(2,4,5,6,7,8,10), of dst ?m out Key] assms(12,13,15) unfolding lm rd by simp
  then show ?thesis using enc by blast
qed

theorem AES_CCM_Decrypt_Encrypt_witness:
  "\<exists>mem'. AES_CCM_Encrypt (\<lambda>n. True) (replicate 16 0) (replicate 48 5) 8 20 (replicate 16 1) 16 (replicate 13 2) 13 [1] 1 8 8 40
      = (0, mem', 28) \<and>
    AES_CCM_Decrypt (\<lambda>n. True) (replicate 16 0) mem' 8 28 (replicate 16 1) 16 (replicate 13 2) 13 [1] 1 8 0 40 =
      Some (0, write_at mem' 0 (read_at 8 20 (replicate 48 5)), 20)"
  using AES_CCM_Decrypt_Encrypt [of "\<lambda>n. True" "\<lambda>n. True" "replicate 16 0" "replicate 16 0" "replicate 13 2" 8 "[1]" 20 40 40 8
      "replicate 48 5" 8 0 "replicate 16 1"]
  by (simp add: ccm_nonce_ok_def ccm_mac_length_ok_def)



text \<open>
  Without memory the block cipher leaves its output alone and reports nothing: the
  encryption of a single block then succeeds, with the previous content of the stack array
  as key stream and with a tag that does not depend on the key.
\<close>

theorem AES_CCM_Encrypt_no_memory:
  assumes "\<forall>n. \<not> al n" and "length cc0 = 16" and "ccm_nonce_ok N" and "ccm_mac_length_ok M" and "a = []"
    and "0 < len" and "len \<le> 16" and "len + M \<le> cl"
  shows "AES_CCM_Encrypt al cc0 mem src len Key 16 N (length N) a 0 M dst cl =
    (0, write_at (xor_copy mem src dst (take len cc0)) (dst + len) (take M cc0), len + M)"
proof -
  have [simp]: "RT_AES_Encrypt (al n) b s Key 16 out t = (out, t)" for n b s out t
    using assms(1) by (simp add: RT_AES_Encrypt_def)
  have "M \<le> 16" using assms(4) by (rule ccm_mac_le_16)
  moreover have "xor_bytes (replicate M 0) (take M cc0) = take M cc0"
    using xor_bytes_zero [of "take M cc0" M] by (simp add: xor_bytes_commute)
  ultimately show ?thesis
    using assms(2-)
    by (simp add: AES_CCM_Encrypt_def AES_CCM_MAC_def Let_def split_beta ccm_aad_loop.simps ccm_payload_loop.simps
      ccm_ctr_loop.simps ccm_chain_def ccm_nonce_ok_def min_absorb1)
qed

theorem AES_CCM_Encrypt_no_memory_witness:
  "AES_CCM_Encrypt (\<lambda>n. False) (replicate 16 0) (replicate 16 7) 0 4 (replicate 16 1) 16 (replicate 13 2) 13 [] 0 8 4 12 =
    (0, write_at (xor_copy (replicate 16 7) 0 4 (take 4 (replicate 16 0))) (4 + 4) (take 8 (replicate 16 0)), 4 + 8)"
  using AES_CCM_Encrypt_no_memory [of "\<lambda>n. False" "replicate 16 0" "replicate 13 2" 8 "[]" 4 12 "replicate 16 7" 0 "replicate 16 1" 4]
  by (simp add: ccm_nonce_ok_def ccm_mac_length_ok_def)

end
