(* ===== verification/Ccmp.thy ===== *)
theory Ccmp
  imports Aes_Ccm Wep
begin

text \<open>
  CCMP, \<^verbatim>\<open>common/cmm_aes.c\<close>: the associated data and the nonce built from the 802.11 header, the
  CCMP header, and encryption and decryption of a frame in place. They call the CCM
  mode of \<open>Aes_Ccm\<close>; \<open>al\<close> and \<open>cc0\<close> are its allocation oracle and the old content of its stack array.
\<close>

section \<open>Header fields\<close>

abbreviation (input) LEN_CCMP_HDR :: nat where "LEN_CCMP_HDR \<equiv> 8"
abbreviation (input) LEN_CCMP_MIC :: nat where "LEN_CCMP_MIC \<equiv> 8"
abbreviation (input) FC_TYPE_DATA :: u8 where "FC_TYPE_DATA \<equiv> 2"

text \<open>The frame type, and whether a fourth address and a QoS field are present.\<close>

definition ccmp_fields :: "bytes \<Rightarrow> u8 \<times> bool \<times> bool" where
  "ccmp_fields pHdr =
     (let frame_type = drop_bit 2 (pHdr ! 0) AND 0x03;
          frame_subtype = drop_bit 4 (pHdr ! 0) AND 0x0f;
          from_ds = drop_bit 1 (pHdr ! 1 AND 0x2);
          to_ds = pHdr ! 1 AND 0x1;
          a4_exists = (from_ds AND to_ds \<noteq> 0);
          qc_exists = (frame_type = FC_TYPE_DATA \<and> frame_subtype \<in> {8, 9, 10, 11})
      in (frame_type, a4_exists, qc_exists))"

section \<open>Operations\<close>

text \<open>\<^verbatim>\<open>RTMPConstructCCMPAAD\<close> fills the buffer \<open>aad_hdr\<close> and returns the length.\<close>

definition RTMPConstructCCMPAAD :: "bytes \<Rightarrow> bool \<Rightarrow> bool \<Rightarrow> bool \<Rightarrow> bytes \<Rightarrow> bytes \<times> nat" where
  "RTMPConstructCCMPAAD pHdr isDataFrame a4_exists qc_exists aad_hdr =
     (let aad_hdr = aad_hdr[0 := (if isDataFrame then pHdr ! 0 AND 0x8f else pHdr ! 0)];
          aad_hdr = aad_hdr[1 := pHdr ! 1 AND 0xc7];
          aad_hdr = aad_hdr[1 := aad_hdr ! 1 OR 0x40];
          len = 2;
          aad_hdr = write_at aad_hdr len (read_at 4 18 pHdr);
          len = len + 18;
          aad_hdr = aad_hdr[len := pHdr ! 22 AND 0x0f];
          aad_hdr = aad_hdr[len + 1 := 0];
          len = len + 2;
          (aad_hdr, len) = (if a4_exists then (write_at aad_hdr len (read_at 24 6 pHdr), len + 6) else (aad_hdr, len))
      in if qc_exists \<and> a4_exists then (aad_hdr[len := pHdr ! 30 AND 0x0f, len + 1 := 0], len + 2)
         else if qc_exists \<and> \<not> a4_exists then (aad_hdr[len := pHdr ! 24 AND 0x0f, len + 1 := 0], len + 2)
         else (aad_hdr, len))"

text \<open>\<^verbatim>\<open>RTMPConstructCCMPNonce\<close>, without the optional management frame protection.\<close>

definition RTMPConstructCCMPNonce :: "bytes \<Rightarrow> bool \<Rightarrow> bool \<Rightarrow> bytes \<Rightarrow> bytes \<Rightarrow> bytes \<times> nat" where
  "RTMPConstructCCMPNonce pHdr a4_exists qc_exists pn nonce_hdr =
     (let nonce_hdr = (if qc_exists \<and> a4_exists then nonce_hdr[0 := pHdr ! 30 AND 0x0f] else nonce_hdr);
          nonce_hdr = (if qc_exists \<and> \<not> a4_exists then nonce_hdr[0 := pHdr ! 24 AND 0x0f] else nonce_hdr);
          n_offset = 1;
          nonce_hdr = write_at nonce_hdr n_offset (read_at 10 6 pHdr);
          n_offset = n_offset + 6;
          nonce_hdr = fold (\<lambda>i h. h[n_offset + i := pn ! (5 - i)]) [0..<6] nonce_hdr
      in (nonce_hdr, n_offset + 6))"

definition RTMPConstructCCMPHdr :: "u8 \<Rightarrow> bytes \<Rightarrow> bytes" where
  "RTMPConstructCCMPHdr key_idx pn =
     (replicate LEN_CCMP_HDR 0)
       [0 := pn ! 0, 1 := pn ! 1, 3 := push_bit 6 key_idx OR 0x20, 4 := pn ! 2, 5 := pn ! 3, 6 := pn ! 4, 7 := pn ! 5]"

text \<open>\<^verbatim>\<open>RTMPSoftEncryptCCMP\<close>: the returned \<^verbatim>\<open>BOOLEAN\<close> and the memory; \<open>pData\<close> is an offset.\<close>

definition RTMPSoftEncryptCCMP ::
  "(nat \<Rightarrow> bool) \<Rightarrow> bytes \<Rightarrow> bytes \<Rightarrow> bytes \<Rightarrow> bytes \<Rightarrow> bytes \<Rightarrow> nat \<Rightarrow> nat \<Rightarrow> bool \<times> bytes" where
  "RTMPSoftEncryptCCMP al cc0 pHdr pIV pKey mem pData DataLen =
     (let out_len = (DataLen + 8) mod 2 ^ 32;
          (frame_type, a4_exists, qc_exists) = ccmp_fields pHdr;
          (aad_hdr, aad_len) = RTMPConstructCCMPAAD pHdr (frame_type = FC_TYPE_DATA) a4_exists qc_exists (replicate 30 0);
          (nonce_hdr, nonce_hdr_len) = RTMPConstructCCMPNonce pHdr a4_exists qc_exists pIV (replicate 13 0);
          (ret, mem, out_len) = AES_CCM_Encrypt al cc0 mem pData DataLen pKey 16 nonce_hdr nonce_hdr_len
             (take aad_len aad_hdr) aad_len LEN_CCMP_MIC pData out_len
      in (ret = 0, mem))"

text \<open>
  \<^verbatim>\<open>RTMPSoftDecryptCCMP\<close>: the returned \<^verbatim>\<open>BOOLEAN\<close>, the memory and \<^verbatim>\<open>*DataLen\<close>. A frame shorter than its
  CCMP header is read before its length is checked.
\<close>

definition RTMPSoftDecryptCCMP ::
  "(nat \<Rightarrow> bool) \<Rightarrow> bytes \<Rightarrow> bytes \<Rightarrow> cipher_key \<Rightarrow> bytes \<Rightarrow> nat \<Rightarrow> u16 \<Rightarrow> (bool \<times> bytes \<times> u16) option" where
  "RTMPSoftDecryptCCMP al cc0 pHdr pKey mem pData DataLen =
     (if ckKeyLen pKey = 0 then Some (False, mem, DataLen)
      else if length mem < pData + 8 then None
      else
        let out_len = unat DataLen;
            (frame_type, a4_exists, qc_exists) = ccmp_fields pHdr;
            pn = [mem ! pData, mem ! (pData + 1), mem ! (pData + 4), mem ! (pData + 5), mem ! (pData + 6), mem ! (pData + 7)];
            cipherData_ptr = pData + LEN_CCMP_HDR;
            cipherData_len = (ucast DataLen :: u32) - of_nat LEN_CCMP_HDR
        in if unat DataLen \<le> LEN_CCMP_HDR then Some (False, mem, DataLen)
           else
             let (aad_hdr, aad_len) = RTMPConstructCCMPAAD pHdr (frame_type = FC_TYPE_DATA) a4_exists qc_exists (replicate 30 0);
                 (nonce_hdr, nonce_hdr_len) = RTMPConstructCCMPNonce pHdr a4_exists qc_exists pn (replicate 13 0)
             in case AES_CCM_Decrypt al cc0 mem cipherData_ptr (unat cipherData_len) (ckKey pKey) 16 nonce_hdr nonce_hdr_len
                       (take aad_len aad_hdr) aad_len LEN_CCMP_MIC pData out_len of
                  None \<Rightarrow> None
                | Some (ret, mem, out_len) \<Rightarrow>
                    if ret \<noteq> 0 then Some (False, mem, DataLen) else Some (True, mem, of_nat out_len))"

section \<open>Reference: the fields of IEEE 802.11\<close>

text \<open>Frame control with the bits that a retransmission may change masked out, the addresses,
  the fragment number and the traffic class.\<close>

definition ccmp_aad :: "bytes \<Rightarrow> bytes" where
  "ccmp_aad pHdr =
     (case ccmp_fields pHdr of (ty, a4, qc) \<Rightarrow>
      [if ty = 2 then pHdr ! 0 AND 0x8f else pHdr ! 0, (pHdr ! 1 AND 0xc7) OR 0x40] @ read_at 4 18 pHdr
      @ [pHdr ! 22 AND 0x0f, 0] @ (if a4 then read_at 24 6 pHdr else [])
      @ (if qc then [pHdr ! (if a4 then 30 else 24) AND 0x0f, 0] else []))"

definition ccmp_nonce :: "bytes \<Rightarrow> bytes \<Rightarrow> bytes" where
  "ccmp_nonce pHdr pn =
     (case ccmp_fields pHdr of (ty, a4, qc) \<Rightarrow>
      (if qc then pHdr ! (if a4 then 30 else 24) AND 0x0f else 0) # read_at 10 6 pHdr @ rev (take 6 pn))"

definition ccmp_hdr_len :: "bytes \<Rightarrow> nat" where
  "ccmp_hdr_len pHdr = (case ccmp_fields pHdr of (ty, a4, qc) \<Rightarrow> 24 + (if a4 then 6 else 0) + (if qc then 2 else 0))"

text \<open>A buffer of \<open>N\<close> zeros that is filled from its start.\<close>

definition filled :: "nat \<Rightarrow> bytes \<Rightarrow> bytes" where
  "filled N p = p @ replicate (N - length p) 0"

lemma filled_write: "n = length p \<Longrightarrow> n + length ys \<le> N \<Longrightarrow> write_at (filled N p) n ys = filled N (p @ ys)"
  by (simp add: filled_def write_at_def)

lemma filled_update: "n = length p \<Longrightarrow> n < N \<Longrightarrow> (filled N p)[n := v] = filled N (p @ [v])"
  using filled_write [of n p "[v]" N] by (simp add: list_update_write_at filled_def)

lemma take_filled: "n = length p \<Longrightarrow> take n (filled N p) = p"
  by (simp add: filled_def)

lemma RTMPConstructCCMPAAD_aad:
  assumes "ccmp_hdr_len pHdr \<le> length pHdr" and f: "ccmp_fields pHdr = (ty, a4, qc)"
  shows "RTMPConstructCCMPAAD pHdr (ty = 2) a4 qc (replicate 30 0) = (filled 30 (ccmp_aad pHdr), length (ccmp_aad pHdr))"
proof -
  define b0 b1 where "b0 = (if ty = 2 then pHdr ! 0 AND 0x8f else pHdr ! 0)" and "b1 = pHdr ! 1 AND 0xc7"
  define p2 where "p2 = [b0, b1 OR 0x40]"
  define p22 where "p22 = p2 @ read_at 4 18 pHdr @ [pHdr ! 22 AND 0x0f, 0]"
  have len: "24 \<le> length pHdr" "a4 \<Longrightarrow> 30 \<le> length pHdr"
    using assms by (auto simp: ccmp_hdr_len_def split: if_splits)
  have l: "length p2 = 2" "length p22 = 22"
    using len by (auto simp: p2_def p22_def)
  have "replicate 30 (0 :: u8) = 0 # 0 # replicate 28 0"
    by (simp add: numeral_eq_Suc)
  then have h2: "(replicate 30 0)[0 := b0, 1 := b1, Suc 0 := b1 OR 0x40] = filled 30 p2"
    by (simp add: filled_def p2_def)
  have h22: "(write_at (filled 30 p2) 2 (read_at 4 18 pHdr))[20 := pHdr ! 22 AND 0x0f, 21 := 0] = filled 30 p22"
    using len l by (simp add: filled_write filled_update p22_def)
  have aad: "ccmp_aad pHdr = p22 @ (if a4 then read_at 24 6 pHdr else [])
      @ (if qc then [pHdr ! (if a4 then 30 else 24) AND 0x0f, 0] else [])"
    by (simp add: ccmp_aad_def f p22_def p2_def b0_def b1_def)
  have l6: "a4 \<Longrightarrow> length (read_at 24 6 pHdr) = 6"
    using len by simp
  show ?thesis
    unfolding RTMPConstructCCMPAAD_def Let_def b0_def [symmetric] b1_def [symmetric] aad
    using h2 h22 l l6 by (cases a4; cases qc) (simp_all add: filled_write filled_update)
qed

lemma rev_take_6: "6 \<le> length pn \<Longrightarrow> rev (take 6 pn) = [pn ! 5, pn ! 4, pn ! 3, pn ! 2, pn ! 1, pn ! 0]"
  by (auto simp: numeral_eq_Suc Suc_le_length_iff)

lemma RTMPConstructCCMPNonce_nonce:
  assumes "ccmp_hdr_len pHdr \<le> length pHdr" and "6 \<le> length pn" and f: "ccmp_fields pHdr = (ty, a4, qc)"
  shows "RTMPConstructCCMPNonce pHdr a4 qc pn (replicate 13 0) = (ccmp_nonce pHdr pn, 13)"
proof -
  define x where "x = (if qc then pHdr ! (if a4 then 30 else 24) AND 0x0f else 0)"
  have l: "length (read_at 10 6 pHdr) = 6"
    using assms by (simp add: ccmp_hdr_len_def)
  have "replicate 13 (0 :: u8) = 0 # replicate 12 0"
    by (simp add: numeral_eq_Suc)
  then have h1: "(if qc \<and> \<not> a4 then (if qc \<and> a4 then (replicate 13 0)[0 := pHdr ! 30 AND 0x0f] else replicate 13 0)[0 := pHdr ! 24 AND 0x0f]
      else (if qc \<and> a4 then (replicate 13 0)[0 := pHdr ! 30 AND 0x0f] else replicate 13 0)) = filled 13 [x]"
    by (auto simp: filled_def x_def)
  have six: "[0..<6] = [0, 1, 2, 3, 4, 5 :: nat]"
    by (simp add: upt_rec)
  have "filled 13 ([x] @ read_at 10 6 pHdr @ rev (take 6 pn)) = ccmp_nonce pHdr pn"
    using l assms(2) by (simp add: filled_def ccmp_nonce_def f x_def)
  then show ?thesis
    unfolding RTMPConstructCCMPNonce_def Let_def h1 six rev_take_6 [OF assms(2)]
    using l by (simp add: filled_write filled_update)
qed

lemma length_ccmp_nonce: "ccmp_hdr_len pHdr \<le> length pHdr \<Longrightarrow> 6 \<le> length pn \<Longrightarrow> length (ccmp_nonce pHdr pn) = 13"
  by (auto simp: ccmp_nonce_def ccmp_hdr_len_def split: prod.split)

lemma length_ccmp_aad:
  "ccmp_hdr_len pHdr \<le> length pHdr \<Longrightarrow> 22 \<le> length (ccmp_aad pHdr) \<and> length (ccmp_aad pHdr) \<le> 30"
  by (auto simp: ccmp_aad_def ccmp_hdr_len_def split: prod.split)

section \<open>Functional behaviour\<close>

definition ccmp_ctr :: "bytes \<Rightarrow> bytes \<Rightarrow> bytes \<Rightarrow> nat \<Rightarrow> bytes" where
  "ccmp_ctr key pHdr pn n = ctr_text (aes_E key 16) (rfc3610_A (ccmp_nonce pHdr pn) 0) n"

definition ccmp_tag :: "bytes \<Rightarrow> bytes \<Rightarrow> bytes \<Rightarrow> bytes \<Rightarrow> bytes" where
  "ccmp_tag key pHdr pn P = ccm_tag (aes_E key 16) 8 (ccmp_nonce pHdr pn) (ccmp_aad pHdr) P"

lemma ccm_params:
  assumes "ccmp_hdr_len pHdr \<le> length pHdr" and "6 \<le> length pn"
  shows "ccm_nonce_ok (ccmp_nonce pHdr pn)" and "ccm_mac_length_ok 8" and "length (ccmp_aad pHdr) < 0xFF00"
  using length_ccmp_nonce [OF assms] length_ccmp_aad [OF assms(1)]
  by (simp_all add: ccm_nonce_ok_def ccm_mac_length_ok_def)

lemma RTMPSoftEncryptCCMP_ok:
  assumes "alloc_ok al" and "length cc0 = 16" and "ccmp_hdr_len pHdr \<le> length pHdr" and "6 \<le> length pn"
    and "n + 8 < 2 ^ 32" and "pData + n + 8 \<le> length mem"
  defines "P \<equiv> read_at pData n mem"
  shows "RTMPSoftEncryptCCMP al cc0 pHdr pn key mem pData n
    = (True, write_at mem pData (xor_bytes P (ccmp_ctr key pHdr pn n) @ ccmp_tag key pHdr pn P))"
proof -
  obtain ty a4 qc where f: "ccmp_fields pHdr = (ty, a4, qc)"
    by (cases "ccmp_fields pHdr")
  note aad = RTMPConstructCCMPAAD_aad [OF assms(3) f] and nonce = RTMPConstructCCMPNonce_nonce [OF assms(3,4) f]
  have l: "length (ccmp_nonce pHdr pn) = 13"
    using assms by (simp add: length_ccmp_nonce)
  have "AES_CCM_Encrypt al cc0 mem pData n key 16 (ccmp_nonce pHdr pn) 13 (ccmp_aad pHdr) (length (ccmp_aad pHdr)) 8 pData (n + 8)
      = (0, write_at mem pData (xor_bytes P (ccmp_ctr key pHdr pn n) @ ccmp_tag key pHdr pn P), n + 8)"
    using AES_CCM_Encrypt_ok [OF assms(1,2) ccm_params [OF assms(3,4)] assms(5), of "n + 8" pData mem pData key] assms(6) l
    by (simp add: ccmp_ctr_def ccmp_tag_def P_def)
  then show ?thesis
    unfolding RTMPSoftEncryptCCMP_def f Let_def prod.case aad nonce
    using assms(5) by (simp add: take_filled)
qed

text \<open>The packet number in a CCMP header.\<close>

definition ccmp_pn :: "bytes \<Rightarrow> bytes" where
  "ccmp_pn h = [h ! 0, h ! 1, h ! 4, h ! 5, h ! 6, h ! 7]"

lemma RTMPSoftDecryptCCMP_ok:
  assumes "alloc_ok al" and "length cc0 = 16" and "ccmp_hdr_len pHdr \<le> length pHdr" and "ckKeyLen k \<noteq> 0"
    and "unat d = n + 16" and "pData + n + 16 \<le> length mem"
  defines "pn \<equiv> ccmp_pn (read_at pData 8 mem)"
  defines "P \<equiv> xor_bytes (read_at (pData + 8) n mem) (ccmp_ctr (ckKey k) pHdr pn n)"
  shows "RTMPSoftDecryptCCMP al cc0 pHdr k mem pData d
    = Some (if read_at (pData + 8 + n) 8 mem = ccmp_tag (ckKey k) pHdr pn P
            then (True, write_at mem pData P, of_nat n) else (False, write_at mem pData P, d))"
proof -
  obtain ty a4 qc where f: "ccmp_fields pHdr = (ty, a4, qc)"
    by (cases "ccmp_fields pHdr")
  have pn: "6 \<le> length pn"
    by (simp add: pn_def ccmp_pn_def)
  note aad = RTMPConstructCCMPAAD_aad [OF assms(3) f] and nonce = RTMPConstructCCMPNonce_nonce [OF assms(3) pn f]
  have pn_mem: "[mem ! pData, mem ! (pData + 1), mem ! (pData + 4), mem ! (pData + 5), mem ! (pData + 6), mem ! (pData + 7)] = pn"
    using assms(6) by (simp add: pn_def ccmp_pn_def nth_read_at)
  have "unat d < 2 ^ 16"
    using unsigned_less [of d] by simp
  then have u: "unat (ucast d :: u32) = n + 16"
    using assms(5) by (simp add: unsigned_ucast_eq take_bit_nat_eq_self)
  then have cl: "unat ((ucast d :: u32) - 8) = n + 8"
    by (simp add: unat_sub word_le_nat_alt)
  have l: "length (ccmp_nonce pHdr pn) = 13"
    using assms(3) pn by (rule length_ccmp_nonce)
  have small: "n + 8 < 2 ^ 32"
    using \<open>unat d < 2 ^ 16\<close> assms(5) by simp
  have dec: "AES_CCM_Decrypt al cc0 mem (pData + 8) (n + 8) (ckKey k) 16 (ccmp_nonce pHdr pn) 13 (ccmp_aad pHdr)
        (length (ccmp_aad pHdr)) 8 pData (n + 16)
      = Some (if read_at (pData + 8 + n) 8 mem = ccmp_tag (ckKey k) pHdr pn P then 0 else -5, write_at mem pData P, n)"
    using AES_CCM_Decrypt_ok [OF assms(1,2) ccm_params [OF assms(3) pn] small, of "n + 16" "pData + 8" mem pData "ckKey k"] assms(6) l
    by (simp add: ccmp_ctr_def ccmp_tag_def P_def)
  have b: "\<not> length mem < pData + 8" "\<not> unat d \<le> 8"
    using assms(5,6) by simp_all
  show ?thesis
    unfolding RTMPSoftDecryptCCMP_def f Let_def prod.case pn_mem aad nonce of_nat_numeral cl
      take_filled [OF refl] assms(5) dec
    using assms(4) b assms(5) by simp
qed

section \<open>Properties\<close>

text \<open>Two headers that differ only in what a retransmission may change: duration, the retry, power
  management and more data bits, and the sequence number.\<close>

definition ccmp_same_header :: "bytes \<Rightarrow> bytes \<Rightarrow> bool" where
  "ccmp_same_header h h' \<longleftrightarrow> length h' = length h \<and> h' ! 0 = h ! 0 \<and> h' ! 1 AND 0xc7 = h ! 1 AND 0xc7
     \<and> read_at 4 18 h' = read_at 4 18 h \<and> h' ! 22 AND 0x0f = h ! 22 AND 0x0f \<and> drop 24 h' = drop 24 h"

lemma ccmp_same_header_fields:
  assumes "ccmp_same_header h h'"
  shows "ccmp_fields h' = ccmp_fields h"
proof -
  have eq: "h' ! 1 AND 0xc7 = h ! 1 AND 0xc7" "h' ! 0 = h ! 0"
    using assms by (simp_all add: ccmp_same_header_def)
  have "x AND 0x2 = (x AND 0xc7) AND 0x2" "x AND 0x1 = (x AND 0xc7) AND 0x1" for x :: u8
    by (simp_all add: and.assoc)
  then have "h' ! 1 AND 0x2 = h ! 1 AND 0x2" "h' ! 1 AND 0x1 = h ! 1 AND 0x1"
    using eq(1) by metis+
  then show ?thesis
    unfolding ccmp_fields_def Let_def by (simp only: eq(2))
qed

lemma ccmp_same_header_aad:
  assumes "ccmp_same_header h h'" and "ccmp_hdr_len h \<le> length h"
  shows "ccmp_hdr_len h' \<le> length h'" and "ccmp_aad h' = ccmp_aad h" and "ccmp_nonce h' pn = ccmp_nonce h pn"
proof -
  note f = ccmp_same_header_fields [OF assms(1)]
  obtain ty a4 qc where hf: "ccmp_fields h = (ty, a4, qc)"
    by (cases "ccmp_fields h")
  have eq: "drop 24 h' = drop 24 h" "read_at 4 18 h' = read_at 4 18 h" "length h' = length h"
    using assms(1) by (simp_all add: ccmp_same_header_def)
  have tail: "h' ! i = h ! i" if "24 \<le> i" "i < length h" for i
    using that arg_cong [OF eq(1), of "\<lambda>xs. xs ! (i - 24)"] eq(3) by simp
  have r24: "read_at 24 6 h' = read_at 24 6 h" and r10: "read_at 10 6 h' = read_at 10 6 h"
    using eq(1) arg_cong [OF eq(2), of "\<lambda>xs. take 6 (drop 6 xs)"] by (simp_all add: read_at_def drop_take)
  show "ccmp_hdr_len h' \<le> length h'"
    using assms(2) by (simp add: ccmp_hdr_len_def f eq(3))
  have qos: "h' ! (if a4 then 30 else 24) = h ! (if a4 then 30 else 24)" if qc
    using tail assms(2) that by (auto simp: ccmp_hdr_len_def hf)
  show "ccmp_aad h' = ccmp_aad h" "ccmp_nonce h' pn = ccmp_nonce h pn"
    using assms(1) qos unfolding ccmp_aad_def ccmp_nonce_def f hf prod.case r24 r10 eq(2)
    by (auto simp: ccmp_same_header_def)
qed

lemma ccmp_pn_RTMPConstructCCMPHdr:
  "6 \<le> length pn \<Longrightarrow> ccmp_pn (RTMPConstructCCMPHdr idx pn) = take 6 pn"
  "length (RTMPConstructCCMPHdr idx pn) = 8"
proof -
  assume "6 \<le> length pn"
  then have "take 6 pn = [pn ! 0, pn ! 1, pn ! 2, pn ! 3, pn ! 4, pn ! 5]"
    using rev_take_6 [of pn] by (metis rev_rev_ident rev.simps append.simps)
  then show "ccmp_pn (RTMPConstructCCMPHdr idx pn) = take 6 pn"
    by (simp add: ccmp_pn_def RTMPConstructCCMPHdr_def nth_list_update)
next
  show "length (RTMPConstructCCMPHdr idx pn) = 8"
    by (simp add: RTMPConstructCCMPHdr_def)
qed

lemma ccmp_nonce_take: "ccmp_nonce h (take 6 pn) = ccmp_nonce h pn"
  by (simp add: ccmp_nonce_def)

lemma ccmp_round_trip:
  assumes "alloc_ok al" and "alloc_ok al'" and "length cc0 = 16" and "length cc1 = 16"
    and "ccmp_hdr_len pHdr \<le> length pHdr" and "ccmp_same_header pHdr pHdr'" and "6 \<le> length pn"
    and "ckKeyLen k \<noteq> 0" and "length P + 16 < 2 ^ 16" and "length mic = 8"
  shows "\<exists>Y rest. length Y = length P + 8
    \<and> (length P \<le> 4080 \<longrightarrow> Y = rfc3610_encrypt (aes_E (ckKey k) 16) 8 (ccmp_nonce pHdr pn) (ccmp_aad pHdr) P)
    \<and> RTMPSoftEncryptCCMP al cc0 pHdr pn (ckKey k) (A @ RTMPConstructCCMPHdr idx pn @ P @ mic @ B) (length A + 8) (length P)
        = (True, A @ RTMPConstructCCMPHdr idx pn @ Y @ B)
    \<and> RTMPSoftDecryptCCMP al' cc1 pHdr' k (A @ RTMPConstructCCMPHdr idx pn @ Y @ B) (length A) (of_nat (length P + 16))
        = Some (True, A @ P @ rest, of_nat (length P))"
proof -
  let ?H = "RTMPConstructCCMPHdr idx pn" and ?ks = "ccmp_ctr (ckKey k) pHdr pn (length P)"
  let ?m = "A @ ?H @ P @ mic @ B"
  define C where "C = xor_bytes P ?ks"
  define Y where "Y = C @ ccmp_tag (ckKey k) pHdr pn P"
  note H = ccmp_pn_RTMPConstructCCMPHdr
  have lks: "length ?ks = length P" "length C = length P"
    by (simp_all add: ccmp_ctr_def C_def)
  have lY: "length Y = length P + 8"
    using ccm_params(2) [OF assms(5,7)] by (simp add: Y_def lks ccmp_tag_def)
  have rd: "read_at (length A + 8) (length P) ?m = P"
    by (simp add: read_at_def H)
  have enc: "RTMPSoftEncryptCCMP al cc0 pHdr pn (ckKey k) ?m (length A + 8) (length P) = (True, A @ ?H @ Y @ B)"
    using RTMPSoftEncryptCCMP_ok [OF assms(1,3,5,7), of "length P" "length A + 8" ?m "ckKey k"] assms(9,10) lY
    unfolding rd C_def [symmetric] Y_def [symmetric] by (simp add: write_at_def H)
  let ?m' = "A @ ?H @ Y @ B"
  have pn': "ccmp_pn (read_at (length A) 8 ?m') = take 6 pn"
    by (simp add: read_at_def H assms(7))
  note hdr = ccmp_same_header_aad [OF assms(6,5)]
  have same: "ccmp_ctr key pHdr' (take 6 pn) n = ccmp_ctr key pHdr pn n" "ccmp_tag key pHdr' (take 6 pn) Q = ccmp_tag key pHdr pn Q" for key n Q
    by (simp_all add: ccmp_ctr_def ccmp_tag_def hdr ccmp_nonce_take)
  have rd': "read_at (length A + 8) (length P) ?m' = C" "read_at (length A + 8 + length P) 8 ?m' = ccmp_tag (ckKey k) pHdr pn P"
    using lY lks by (simp_all add: read_at_def H Y_def)
  have "xor_bytes C ?ks = P"
    by (simp add: C_def lks)
  then have "RTMPSoftDecryptCCMP al' cc1 pHdr' k ?m' (length A) (of_nat (length P + 16))
      = Some (True, write_at ?m' (length A) P, of_nat (length P))"
    using RTMPSoftDecryptCCMP_ok [OF assms(2,4) hdr(1) assms(8), of "of_nat (length P + 16)" "length P" "length A" ?m']
      assms(9) lY unfolding pn' same rd' by (simp add: unat_of_nat H del: of_nat_add)
  moreover have "write_at ?m' (length A) P = A @ P @ drop (length P) (?H @ Y @ B)"
    by (simp add: write_at_def)
  moreover have "length P \<le> 4080 \<longrightarrow> Y = rfc3610_encrypt (aes_E (ckKey k) 16) 8 (ccmp_nonce pHdr pn) (ccmp_aad pHdr) P"
    using rfc3610_encrypt_ctr [OF ccm_params(1) [OF assms(5,7)], of P] by (simp add: Y_def C_def ccmp_ctr_def ccmp_tag_def)
  ultimately show ?thesis
    using lY enc by metis
qed


definition ccmp_header_example :: bytes where
  "ccmp_header_example = [0x88, 0x41] @ replicate 30 7"

definition ccmp_header_retry :: bytes where
  "ccmp_header_retry = ccmp_header_example[1 := 0x49, 23 := 9]"

lemma ccmp_header_example_ok:
  "ccmp_hdr_len ccmp_header_example \<le> length ccmp_header_example" "ccmp_same_header ccmp_header_example ccmp_header_retry"
proof -
  show "ccmp_hdr_len ccmp_header_example \<le> length ccmp_header_example"
    by (simp add: ccmp_hdr_len_def ccmp_header_example_def split: prod.split)
  show "ccmp_same_header ccmp_header_example ccmp_header_retry"
    by code_simp
qed




text \<open>
  Short frames are safe in CCMP: with up to seven bytes behind the CCMP header, or none, or
  without a key, \<open>RTMPSoftDecryptCCMP\<close> returns \<^verbatim>\<open>FALSE\<close> and changes neither the memory nor the length.
\<close>

theorem RTMPSoftDecryptCCMP_short:
  assumes "unat d < 16" and "pData + 8 \<le> length mem" and "ccmp_hdr_len pHdr \<le> length pHdr"
  shows "RTMPSoftDecryptCCMP al cc0 pHdr k mem pData d = Some (False, mem, d)"
proof (cases "unat d \<le> 8 \<or> ckKeyLen k = 0")
  case True
  then show ?thesis
    using assms by (auto simp: RTMPSoftDecryptCCMP_def Let_def split: prod.split)
next
  case False
  define pn where "pn = [mem ! pData, mem ! (pData + 1), mem ! (pData + 4), mem ! (pData + 5), mem ! (pData + 6), mem ! (pData + 7)]"
  obtain ty a4 qc where f: "ccmp_fields pHdr = (ty, a4, qc)"
    by (cases "ccmp_fields pHdr")
  have "6 \<le> length pn"
    by (simp add: pn_def)
  note nonce = RTMPConstructCCMPNonce_nonce [OF assms(3) this f] and aad = RTMPConstructCCMPAAD_aad [OF assms(3) f]
  have "unat (ucast d :: u32) = unat d"
    using assms(1) by (simp add: unsigned_ucast_eq take_bit_nat_eq_self)
  then have cl: "unat ((ucast d :: u32) - 8) = unat d - 8"
    using False by (simp add: unat_sub word_le_nat_alt)
  have "(unat d - 8 + 2 ^ 32 - 8) mod 2 ^ 32 = 2 ^ 32 - (16 - unat d)"
    using False assms(1) by simp
  then have dec: "AES_CCM_Decrypt al cc0 mem (pData + 8) (unat d - 8) (ckKey k) 16 (ccmp_nonce pHdr pn) 13 a l 8 pData (unat d)
      = Some (-4, mem, unat d)" for a l
    using assms(1) by (simp add: AES_CCM_Decrypt_def ccm_mac_length_ok_def)
  have b: "\<not> length mem < pData + 8" "ckKeyLen k \<noteq> 0" "\<not> unat d \<le> 8"
    using False assms(2) by simp_all
  show ?thesis
    unfolding RTMPSoftDecryptCCMP_def f Let_def prod.case pn_def [symmetric] aad nonce of_nat_numeral cl dec
    using b by simp
qed

theorem RTMPSoftDecryptCCMP_short_witness:
  "RTMPSoftDecryptCCMP (\<lambda>n. True) (replicate 16 0) ccmp_header_example wep_key_example (replicate 20 1) 0 12
    = Some (False, replicate 20 1, 12)"
  by (rule RTMPSoftDecryptCCMP_short [OF _ _ ccmp_header_example_ok(1)]) simp_all

end
