(* ===== verification/Soft_Crypt.thy ===== *)
theory Soft_Crypt
  imports Tkip Ccmp
begin

text \<open>
  The software cryptography entry points of \<^verbatim>\<open>common/cmm_wpa.c\<close>, which the data paths call:
  \<^verbatim>\<open>RTMPSoftConstructIVHdr\<close>, \<^verbatim>\<open>RTMPSoftEncryptionAction\<close> and \<^verbatim>\<open>RTMPSoftDecryptionAction\<close> dispatch on
  the cipher to WEP, TKIP and CCMP.
\<close>

section \<open>Operations\<close>

abbreviation (input) CIPHER_WEP64 :: u8 where "CIPHER_WEP64 \<equiv> 1"
abbreviation (input) CIPHER_WEP128 :: u8 where "CIPHER_WEP128 \<equiv> 2"
abbreviation (input) CIPHER_TKIP :: u8 where "CIPHER_TKIP \<equiv> 3"
abbreviation (input) CIPHER_AES :: u8 where "CIPHER_AES \<equiv> 4"

text \<open>\<^verbatim>\<open>RTMPSoftConstructIVHdr\<close>: the bytes it writes to \<^verbatim>\<open>pHdrIv\<close> and their number.\<close>

definition RTMPSoftConstructIVHdr :: "u8 \<Rightarrow> u8 \<Rightarrow> bytes \<Rightarrow> bytes \<times> nat" where
  "RTMPSoftConstructIVHdr CipherAlg key_id pTxIv =
     (if CipherAlg = CIPHER_WEP64 \<or> CipherAlg = CIPHER_WEP128 then (RTMPConstructWEPIVHdr key_id pTxIv, LEN_WEP_IV_HDR)
      else if CipherAlg = CIPHER_TKIP then ([], 0)
      else if CipherAlg = CIPHER_AES then (RTMPConstructCCMPHdr key_id pTxIv, LEN_CCMP_HDR)
      else ([], 0))"

text \<open>\<^verbatim>\<open>RTMPSoftEncryptionAction\<close>: the memory and \<^verbatim>\<open>*ext_len\<close>. The results of the ciphers are not looked at.\<close>

definition RTMPSoftEncryptionAction ::
  "(nat \<Rightarrow> bool) \<Rightarrow> arc4_ctx \<Rightarrow> bytes \<Rightarrow> u8 \<Rightarrow> bytes \<Rightarrow> bytes \<Rightarrow> nat \<Rightarrow> nat \<Rightarrow> cipher_key \<Rightarrow> (bytes \<times> nat) option" where
  "RTMPSoftEncryptionAction al c0 cc0 CipherAlg pHdr mem pSrcBufData SrcBufLen pKey =
     (if CipherAlg = CIPHER_WEP64 \<or> CipherAlg = CIPHER_WEP128 then
        (case RTMPSoftEncryptWEP al c0 (ckTxTsc pKey) pKey mem pSrcBufData SrcBufLen of
           None \<Rightarrow> None | Some (_, mem) \<Rightarrow> Some (mem, LEN_ICV))
      else if CipherAlg = CIPHER_TKIP then Some (mem, 0)
      else if CipherAlg = CIPHER_AES then
        (case RTMPSoftEncryptCCMP al cc0 pHdr (ckTxTsc pKey) (ckKey pKey) mem pSrcBufData SrcBufLen of
           (_, mem) \<Rightarrow> Some (mem, LEN_CCMP_MIC))
      else Some (mem, 0))"

definition RTMPSoftDecryptionAction ::
  "(nat \<Rightarrow> bool) \<Rightarrow> arc4_ctx \<Rightarrow> bytes \<Rightarrow> u64 \<Rightarrow> u64 \<Rightarrow> bytes \<Rightarrow> u8 \<Rightarrow> cipher_key \<Rightarrow> bytes \<Rightarrow> nat \<Rightarrow> u16
     \<Rightarrow> tkip_key_info \<Rightarrow> mic_state \<Rightarrow> (ndis_status \<times> bytes \<times> u16 \<times> tkip_key_info \<times> mic_state) option" where
  "RTMPSoftDecryptionAction al c0 cc0 hz Now pHdr UserPriority pKey mem pData DataByteCnt Tx sta =
     (if ckCipherAlg pKey = CIPHER_WEP64 \<or> ckCipherAlg pKey = CIPHER_WEP128 then
        (case RTMPSoftDecryptWEP al c0 pKey mem pData DataByteCnt of None \<Rightarrow> None
         | Some (ok, mem, DataByteCnt) \<Rightarrow>
             if \<not> ok then Some (NDIS_STATUS_FAILURE, mem, DataByteCnt, Tx, sta)
             else Some (NDIS_STATUS_SUCCESS, mem, DataByteCnt, Tx, sta))
      else if ckCipherAlg pKey = CIPHER_TKIP then
        (case RTMPSoftDecryptTKIP hz Now pHdr UserPriority pKey mem pData DataByteCnt Tx sta of None \<Rightarrow> None
         | Some (NStatus, mem, DataByteCnt, Tx, sta) \<Rightarrow>
             if NStatus = NDIS_STATUS_FAILURE then Some (NDIS_STATUS_FAILURE, mem, DataByteCnt, Tx, sta)
             else if NStatus = NDIS_STATUS_MICERROR then Some (NDIS_STATUS_MICERROR, mem, DataByteCnt, Tx, sta)
             else Some (NDIS_STATUS_SUCCESS, mem, DataByteCnt, Tx, sta))
      else if ckCipherAlg pKey = CIPHER_AES then
        (case RTMPSoftDecryptCCMP al cc0 pHdr pKey mem pData DataByteCnt of None \<Rightarrow> None
         | Some (ok, mem, DataByteCnt) \<Rightarrow>
             if \<not> ok then Some (NDIS_STATUS_FAILURE, mem, DataByteCnt, Tx, sta)
             else Some (NDIS_STATUS_SUCCESS, mem, DataByteCnt, Tx, sta))
      else Some (NDIS_STATUS_FAILURE, mem, DataByteCnt, Tx, sta))"

section \<open>Properties\<close>

text \<open>
  When no ARC4 context can be allocated, \<open>RTMPSoftEncryptionAction\<close> leaves the plain text of a WEP
  frame in the buffer and still reports four bytes of ICV, so that its caller sends the text as if it were
  encrypted. With the context allocated but no memory for the seed, the text is encrypted with
  whatever the context contained before.
\<close>

theorem RTMPSoftEncryptionAction_no_memory:
  assumes "alg = CIPHER_WEP64 \<or> alg = CIPHER_WEP128" and "wep_key_ok k" and "pData + n + 4 \<le> length mem"
  shows "(\<not> al 0 \<longrightarrow> RTMPSoftEncryptionAction al c0 cc0 alg pHdr mem pData n k = Some (mem, 4))
    \<and> (al 0 \<and> \<not> al 1 \<longrightarrow> RTMPSoftEncryptionAction al c0 cc0 alg pHdr mem pData n k
        = Some (write_at mem pData (wep_protect c0 (read_at pData n mem)), 4))"
proof -
  have "RTMPInitWepEngine (al 1) (ckTxTsc k) (ckKey k) (ckKeyLen k) c0 = Some c0" if "\<not> al 1"
    using that by (simp add: RTMPInitWepEngine_def)
  then have "RTMPSoftEncryptWEP al c0 (ckTxTsc k) k mem pData n
      = Some (True, write_at mem pData (wep_protect c0 (read_at pData n mem)))" if "al 0" "\<not> al 1"
    using that assms(2,3) by (intro RTMPSoftEncryptWEP_ctx) auto
  moreover have "RTMPSoftEncryptWEP al c0 (ckTxTsc k) k mem pData n = Some (False, mem)" if "\<not> al 0"
    using that by (simp add: RTMPSoftEncryptWEP_def)
  ultimately show ?thesis
    using assms(1) by (auto simp: RTMPSoftEncryptionAction_def)
qed

theorem RTMPSoftEncryptionAction_no_memory_witness:
  "RTMPSoftEncryptionAction (\<lambda>n. False) \<lparr>BlockIndex1 = 0, BlockIndex2 = 0, KeyBlock = []\<rparr> [] 1 [] [65, 66, 0, 0, 0, 0] 0 2
     wep_key_example = Some ([65, 66, 0, 0, 0, 0], 4)
   \<and> RTMPSoftEncryptionAction (\<lambda>n. n = 0) \<lparr>BlockIndex1 = 0, BlockIndex2 = 0, KeyBlock = replicate 256 0\<rparr> [] 1 [] [65, 66, 0, 0, 0, 0] 0 2
     wep_key_example
     = Some (write_at [65, 66, 0, 0, 0, 0] 0
         (wep_protect \<lparr>BlockIndex1 = 0, BlockIndex2 = 0, KeyBlock = replicate 256 0\<rparr> (read_at 0 2 [65, 66, 0, 0, 0, 0])), 4)"
  using RTMPSoftEncryptionAction_no_memory [OF _ wep_key_example_ok, of 1 0 2 "[65, 66, 0, 0, 0, 0]" "\<lambda>n. False"
      "\<lparr>BlockIndex1 = 0, BlockIndex2 = 0, KeyBlock = []\<rparr>" "[]" "[]"]
    RTMPSoftEncryptionAction_no_memory [OF _ wep_key_example_ok, of 1 0 2 "[65, 66, 0, 0, 0, 0]" "\<lambda>n. n = 0"
      "\<lparr>BlockIndex1 = 0, BlockIndex2 = 0, KeyBlock = replicate 256 0\<rparr>" "[]" "[]"]
  by simp

end
