(* ===== verification/Ba_Reorder.thy ===== *)
theory Ba_Reorder
  imports Wlan_Prelude "HOL-Library.Multiset"
begin

text \<open>
  The receive side of block acknowledgement, \<^verbatim>\<open>common/ba_action.c\<close>: the pool of reordering blocks, the sorted
  reordering list of a session, the timeout flush and \<^verbatim>\<open>Indicate_AMPDU_Packet\<close>, which
  delivers an MPDU, stores it or drops it. Packets are handles; what happens to them (passed to the upper layer or freed) is
  recorded in the order in which it happens. A linked list is the list of its elements, with
  the counter \<^verbatim>\<open>qlen\<close> kept beside it as in the code. \<open>None\<close> is the use of a null pointer.
\<close>

section \<open>Data\<close>

type_synonym packet = nat

record reordering_mpdu =
  mpPacket :: packet
  mpSequence :: u16
  mpAMSDU :: bool
  mpOpMode :: u8

record reordering_list =
  rlNext :: "reordering_mpdu list"
  rlQlen :: int

datatype rec_status = Recipient_NONE | Recipient_USED | Recipient_HandleRes | Recipient_Accept

record ba_rec_entry =
  baWcid :: u8
  baTID :: u8
  baWinSize :: u8
  baLastIndSeq :: u16
  baTimeOutValue :: u16
  baLastIndSeqAtTimer :: u64
  baDropPacket :: u64
  baRcvSeq :: u64
  baStatus :: rec_status
  baList :: reordering_list

text \<open>What is done with a packet: \<^verbatim>\<open>Announce_Reordering_Packet\<close>, one of the three functions behind
  \<^verbatim>\<open>INDICATE_LEGACY_OR_AMSDU\<close>, or \<^verbatim>\<open>dev_kfree_skb_any\<close>.\<close>

datatype ba_event =
  AnnounceAMSDU packet u16
| Announce802_3 packet u16
| IndicateAMSDU packet u16
| IndicateEAPOL packet u16
| IndicateLegacy packet u16
| FreePacket packet

record ba_adapter =
  baFreelist :: reordering_list
  baEvents :: "ba_event list"

record rx_blk =
  rxPacket :: packet
  rxSequence :: u16
  rxAMSDU :: bool
  rxEAP :: bool
  rxDataSize :: nat
  rxOpMode :: u8

abbreviation (input) MAXSEQ :: u16 where "MAXSEQ \<equiv> 0xfff"
abbreviation (input) RESET_RCV_SEQ :: u16 where "RESET_RCV_SEQ \<equiv> 0xffff"
abbreviation (input) MAX_RX_PKT_LEN :: nat where "MAX_RX_PKT_LEN \<equiv> 1520"

section \<open>Operations\<close>

text \<open>The comparisons use only the low twelve bits of the differences, so that 16 bit arithmetic gives the results of the \<^verbatim>\<open>int\<close> arithmetic.\<close>

definition SEQ_STEPONE :: "u16 \<Rightarrow> u16 \<Rightarrow> bool" where
  "SEQ_STEPONE a b \<longleftrightarrow> a = (b + 1) AND MAXSEQ"

definition SEQ_SMALLER :: "u16 \<Rightarrow> u16 \<Rightarrow> bool" where
  "SEQ_SMALLER a b \<longleftrightarrow> (a - b) AND 0x800 \<noteq> 0"

definition RTMP_TIME_AFTER :: "u64 \<Rightarrow> u64 \<Rightarrow> bool" where
  "RTMP_TIME_AFTER a b \<longleftrightarrow> sint (b - a) < 0"

text \<open>The scan of \<^verbatim>\<open>ba_reordering_mpdu_insertsorted\<close>; \<open>None\<close> is a duplicate.\<close>

fun insertsorted_scan :: "reordering_mpdu list \<Rightarrow> reordering_mpdu \<Rightarrow> reordering_mpdu list option" where
  "insertsorted_scan [] mpdu = Some [mpdu]"
| "insertsorted_scan (x # xs) mpdu =
     (if SEQ_SMALLER (mpSequence x) (mpSequence mpdu) then map_option (Cons x) (insertsorted_scan xs mpdu)
      else if mpSequence x = mpSequence mpdu then None
      else Some (mpdu # x # xs))"

definition ba_reordering_mpdu_insertsorted :: "reordering_list \<Rightarrow> reordering_mpdu \<Rightarrow> bool \<times> reordering_list" where
  "ba_reordering_mpdu_insertsorted l mpdu =
     (case insertsorted_scan (rlNext l) mpdu of
        None \<Rightarrow> (False, l)
      | Some xs \<Rightarrow> (True, \<lparr>rlNext = xs, rlQlen = rlQlen l + 1\<rparr>))"

definition ba_enqueue :: "reordering_list \<Rightarrow> reordering_mpdu \<Rightarrow> reordering_list" where
  "ba_enqueue l mpdu_blk = \<lparr>rlNext = mpdu_blk # rlNext l, rlQlen = rlQlen l + 1\<rparr>"

definition ba_dequeue :: "reordering_list \<Rightarrow> reordering_mpdu option \<times> reordering_list" where
  "ba_dequeue l =
     (if rlQlen l \<noteq> 0 then
        case rlNext l of
          [] \<Rightarrow> (None, l\<lparr>rlQlen := rlQlen l - 1\<rparr>)
        | m # ms \<Rightarrow> (Some m, \<lparr>rlNext = ms, rlQlen = rlQlen l - 1\<rparr>)
      else (None, l))"

definition ba_reordering_mpdu_probe :: "reordering_list \<Rightarrow> reordering_mpdu option" where
  "ba_reordering_mpdu_probe l = (case rlNext l of [] \<Rightarrow> None | m # ms \<Rightarrow> Some m)"

definition zero_mpdu :: reordering_mpdu where
  "zero_mpdu = \<lparr>mpPacket = 0, mpSequence = 0, mpAMSDU = False, mpOpMode = 0\<rparr>"

text \<open>\<^verbatim>\<open>ba_reordering_resource_init\<close>: the free list of \<open>num\<close> blocks; \<open>al\<close> is the allocation.\<close>

definition ba_reordering_resource_init :: "bool \<Rightarrow> nat \<Rightarrow> bool \<times> reordering_list" where
  "ba_reordering_resource_init al num =
     (if \<not> al then (False, \<lparr>rlNext = [], rlQlen = 0\<rparr>)
      else (True, fold (\<lambda>i l. ba_enqueue l zero_mpdu) [0..<num] \<lparr>rlNext = [], rlQlen = 0\<rparr>))"

definition ba_mpdu_blk_alloc :: "ba_adapter \<Rightarrow> reordering_mpdu option \<times> ba_adapter" where
  "ba_mpdu_blk_alloc pAd =
     (case ba_dequeue (baFreelist pAd) of
        (None, l) \<Rightarrow> (None, pAd\<lparr>baFreelist := l\<rparr>)
      | (Some b, l) \<Rightarrow> (Some zero_mpdu, pAd\<lparr>baFreelist := l\<rparr>))"

definition ba_mpdu_blk_free :: "ba_adapter \<Rightarrow> reordering_mpdu \<Rightarrow> ba_adapter" where
  "ba_mpdu_blk_free pAd mpdu_blk = pAd\<lparr>baFreelist := ba_enqueue (baFreelist pAd) mpdu_blk\<rparr>"

definition ba_emit :: "ba_event \<Rightarrow> ba_adapter \<Rightarrow> ba_adapter" where
  "ba_emit ev pAd = pAd\<lparr>baEvents := baEvents pAd @ [ev]\<rparr>"

definition Announce_Reordering_Packet :: "ba_adapter \<Rightarrow> reordering_mpdu \<Rightarrow> ba_adapter" where
  "Announce_Reordering_Packet pAd mpdu =
     ba_emit (if mpAMSDU mpdu then AnnounceAMSDU (mpPacket mpdu) (mpSequence mpdu)
              else Announce802_3 (mpPacket mpdu) (mpSequence mpdu)) pAd"

definition INDICATE_LEGACY_OR_AMSDU :: "ba_adapter \<Rightarrow> rx_blk \<Rightarrow> ba_adapter" where
  "INDICATE_LEGACY_OR_AMSDU pAd b =
     ba_emit (if rxAMSDU b then IndicateAMSDU (rxPacket b) (rxSequence b)
              else if rxEAP b then IndicateEAPOL (rxPacket b) (rxSequence b)
              else IndicateLegacy (rxPacket b) (rxSequence b)) pAd"

text \<open>
  The three release loops. \<^verbatim>\<open>ba_indicate_reordering_mpdus_in_order\<close> also returns the last indicated
  sequence number, \<open>LastIndSeq\<close> being its local variable.
\<close>

function in_order_loop :: "ba_adapter \<Rightarrow> reordering_list \<Rightarrow> u16 \<Rightarrow> u16 \<Rightarrow> (ba_adapter \<times> reordering_list \<times> u16) option" where
  "in_order_loop pAd l StartSeq LastIndSeq =
     (case ba_reordering_mpdu_probe l of
        None \<Rightarrow> Some (pAd, l, LastIndSeq)
      | Some mpdu_blk \<Rightarrow>
          if \<not> SEQ_STEPONE (mpSequence mpdu_blk) StartSeq then Some (pAd, l, LastIndSeq)
          else case ba_dequeue l of
            (None, l') \<Rightarrow> None
          | (Some mpdu_blk, l') \<Rightarrow>
              in_order_loop (ba_mpdu_blk_free (Announce_Reordering_Packet pAd mpdu_blk) mpdu_blk) l'
                (mpSequence mpdu_blk) (mpSequence mpdu_blk))"
  by pat_completeness auto
termination
  by (relation "measure (\<lambda>(pAd, l, a, b). length (rlNext l))")
    (auto simp: ba_dequeue_def split: if_splits list.splits)

declare in_order_loop.simps [simp del]

definition ba_indicate_reordering_mpdus_in_order ::
  "ba_adapter \<Rightarrow> ba_rec_entry \<Rightarrow> u16 \<Rightarrow> (ba_adapter \<times> ba_rec_entry \<times> u16) option" where
  "ba_indicate_reordering_mpdus_in_order pAd pBAEntry StartSeq =
     map_option (\<lambda>(pAd, l, LastIndSeq). (pAd, pBAEntry\<lparr>baList := l\<rparr>, LastIndSeq))
       (in_order_loop pAd (baList pBAEntry) StartSeq RESET_RCV_SEQ)"

function le_seq_loop :: "ba_adapter \<Rightarrow> reordering_list \<Rightarrow> u16 \<Rightarrow> (ba_adapter \<times> reordering_list) option" where
  "le_seq_loop pAd l Sequence =
     (case ba_reordering_mpdu_probe l of
        None \<Rightarrow> Some (pAd, l)
      | Some mpdu_blk \<Rightarrow>
          if mpSequence mpdu_blk = Sequence \<or> SEQ_SMALLER (mpSequence mpdu_blk) Sequence then
            case ba_dequeue l of
              (None, l') \<Rightarrow> None
            | (Some mpdu_blk, l') \<Rightarrow>
                le_seq_loop (ba_mpdu_blk_free (Announce_Reordering_Packet pAd mpdu_blk) mpdu_blk) l' Sequence
          else Some (pAd, l))"
  by pat_completeness auto
termination
  by (relation "measure (\<lambda>(pAd, l, a). length (rlNext l))")
    (auto simp: ba_dequeue_def split: if_splits list.splits)

declare le_seq_loop.simps [simp del]

definition ba_indicate_reordering_mpdus_le_seq ::
  "ba_adapter \<Rightarrow> ba_rec_entry \<Rightarrow> u16 \<Rightarrow> (ba_adapter \<times> ba_rec_entry) option" where
  "ba_indicate_reordering_mpdus_le_seq pAd pBAEntry Sequence =
     map_option (\<lambda>(pAd, l). (pAd, pBAEntry\<lparr>baList := l\<rparr>)) (le_seq_loop pAd (baList pBAEntry) Sequence)"

function refresh_loop :: "ba_adapter \<Rightarrow> ba_rec_entry \<Rightarrow> ba_adapter \<times> ba_rec_entry" where
  "refresh_loop pAd pBAEntry =
     (case ba_dequeue (baList pBAEntry) of
        (None, l) \<Rightarrow> (pAd, pBAEntry\<lparr>baList := l\<rparr>)
      | (Some mpdu_blk, l) \<Rightarrow>
          refresh_loop (ba_mpdu_blk_free (Announce_Reordering_Packet pAd mpdu_blk) mpdu_blk)
            (pBAEntry\<lparr>baList := l, baLastIndSeq := mpSequence mpdu_blk\<rparr>))"
  by pat_completeness auto
termination
  by (relation "measure (\<lambda>(pAd, e). length (rlNext (baList e)))")
    (auto simp: ba_dequeue_def split: if_splits list.splits)

declare refresh_loop.simps [simp del]

definition ba_refresh_reordering_mpdus :: "ba_adapter \<Rightarrow> ba_rec_entry \<Rightarrow> ba_adapter \<times> ba_rec_entry" where
  "ba_refresh_reordering_mpdus pAd pBAEntry =
     (case refresh_loop pAd pBAEntry of (pAd, e) \<Rightarrow> (pAd, e\<lparr>baLastIndSeq := RESET_RCV_SEQ\<rparr>))"

text \<open>The timeouts in ticks, for a kernel with \<open>hz\<close> ticks per second.\<close>

definition REORDERING_PACKET_TIMEOUT :: "nat \<Rightarrow> u64" where
  "REORDERING_PACKET_TIMEOUT hz = of_nat (100 * hz div 1000)"

definition MAX_REORDERING_PACKET_TIMEOUT :: "nat \<Rightarrow> nat" where
  "MAX_REORDERING_PACKET_TIMEOUT hz = 3000 * hz div 1000"

definition ba_flush_reordering_timeout_mpdus ::
  "nat \<Rightarrow> ba_adapter \<Rightarrow> ba_rec_entry \<Rightarrow> u64 \<Rightarrow> (ba_adapter \<times> ba_rec_entry) option" where
  "ba_flush_reordering_timeout_mpdus hz pAd pBAEntry Now32 =
     (if rlQlen (baList pBAEntry) \<le> 0 then Some (pAd, pBAEntry)
      else if RTMP_TIME_AFTER Now32 (baLastIndSeqAtTimer pBAEntry + of_nat (MAX_REORDERING_PACKET_TIMEOUT hz div 6))
            \<and> rlQlen (baList pBAEntry) > 1 then
        (case ba_refresh_reordering_mpdus pAd pBAEntry of
           (pAd, e) \<Rightarrow> Some (pAd, e\<lparr>baLastIndSeqAtTimer := Now32\<rparr>))
      else if RTMP_TIME_AFTER Now32 (baLastIndSeqAtTimer pBAEntry + REORDERING_PACKET_TIMEOUT hz)
            \<and> rlQlen (baList pBAEntry) > 0 then
        let Sequence = (baLastIndSeq pBAEntry + 1) AND MAXSEQ in
        case ba_indicate_reordering_mpdus_le_seq pAd pBAEntry Sequence of None \<Rightarrow> None | Some (pAd, e) \<Rightarrow>
          let e = e\<lparr>baLastIndSeqAtTimer := Now32, baLastIndSeq := Sequence\<rparr> in
          (case ba_indicate_reordering_mpdus_in_order pAd e Sequence of None \<Rightarrow> None | Some (pAd, e, Sequence) \<Rightarrow>
             Some (pAd, if Sequence \<noteq> RESET_RCV_SEQ then e\<lparr>baLastIndSeq := Sequence\<rparr> else e))
      else Some (pAd, pBAEntry))"

text \<open>
  \<^verbatim>\<open>ba_enqueue_reordering_packet\<close>. The conversion of the frame to 802.3 format changes the
  content of the packet, not its handle.
\<close>

definition ba_enqueue_reordering_packet ::
  "ba_adapter \<Rightarrow> ba_rec_entry \<Rightarrow> rx_blk \<Rightarrow> (ba_adapter \<times> ba_rec_entry) option" where
  "ba_enqueue_reordering_packet pAd pBAEntry pRxBlk =
     (let Sequence = rxSequence pRxBlk;
          (mpdu_blk, pAd) = ba_mpdu_blk_alloc pAd
      in if mpdu_blk \<noteq> None \<and> \<not> rxEAP pRxBlk then
           let mpdu_blk = \<lparr>mpPacket = rxPacket pRxBlk, mpSequence = Sequence, mpAMSDU = rxAMSDU pRxBlk, mpOpMode = rxOpMode pRxBlk\<rparr>;
               (ok, l) = ba_reordering_mpdu_insertsorted (baList pBAEntry) mpdu_blk
           in if \<not> ok then
                Some (ba_mpdu_blk_free (ba_emit (FreePacket (rxPacket pRxBlk)) pAd) mpdu_blk, pBAEntry)
              else Some (pAd, pBAEntry\<lparr>baList := l\<rparr>)
         else
           case ba_indicate_reordering_mpdus_le_seq pAd pBAEntry Sequence of None \<Rightarrow> None | Some (pAd, e) \<Rightarrow>
             Some (INDICATE_LEGACY_OR_AMSDU pAd pRxBlk, e\<lparr>baLastIndSeq := Sequence\<rparr>))"

text \<open>\<^verbatim>\<open>Indicate_AMPDU_Packet\<close> for the session of the frame: the comparison of the
  sequence number with the window, and before it the flush of a list that has timed out.\<close>

definition indicate_ampdu_window ::
  "u64 \<Rightarrow> ba_adapter \<Rightarrow> ba_rec_entry \<Rightarrow> rx_blk \<Rightarrow> (ba_adapter \<times> ba_rec_entry) option" where
  "indicate_ampdu_window Now32 pAd e pRxBlk =
     (let Sequence = rxSequence pRxBlk
      in if baLastIndSeq e = RESET_RCV_SEQ then
           Some (INDICATE_LEGACY_OR_AMSDU pAd pRxBlk, e\<lparr>baLastIndSeq := Sequence, baLastIndSeqAtTimer := Now32\<rparr>)
         else if SEQ_STEPONE Sequence (baLastIndSeq e) then
           (case ba_indicate_reordering_mpdus_in_order (INDICATE_LEGACY_OR_AMSDU pAd pRxBlk)
                   (e\<lparr>baLastIndSeq := Sequence\<rparr>) Sequence of None \<Rightarrow> None | Some (pAd, e, LastIndSeq) \<Rightarrow>
              Some (pAd, (if LastIndSeq \<noteq> RESET_RCV_SEQ then e\<lparr>baLastIndSeq := LastIndSeq\<rparr> else e)
                           \<lparr>baLastIndSeqAtTimer := Now32\<rparr>))
         else if Sequence = baLastIndSeq e then
           Some (ba_emit (FreePacket (rxPacket pRxBlk)) pAd, e\<lparr>baDropPacket := baDropPacket e + 1\<rparr>)
         else if SEQ_SMALLER Sequence (baLastIndSeq e) then
           Some (ba_emit (FreePacket (rxPacket pRxBlk)) pAd, e\<lparr>baDropPacket := baDropPacket e + 1\<rparr>)
         else if SEQ_SMALLER Sequence ((baLastIndSeq e + ucast (baWinSize e) + 1) AND MAXSEQ) then
           ba_enqueue_reordering_packet pAd e pRxBlk
         else
           let TmpSeq = uint Sequence - uint (baWinSize e) - 1;
               TmpSeq = (if TmpSeq < 0 then 4096 + TmpSeq else TmpSeq);
               WinStartSeq = word_of_int (TmpSeq + 1) AND MAXSEQ
           in case ba_indicate_reordering_mpdus_le_seq pAd e WinStartSeq of None \<Rightarrow> None | Some (pAd, e) \<Rightarrow>
              (case ba_enqueue_reordering_packet pAd
                      (e\<lparr>baLastIndSeq := WinStartSeq, baLastIndSeqAtTimer := Now32\<rparr>) pRxBlk of None \<Rightarrow> None | Some (pAd, e) \<Rightarrow>
               (case ba_indicate_reordering_mpdus_in_order pAd e (baLastIndSeq e) of None \<Rightarrow> None | Some (pAd, e, TmpSeq) \<Rightarrow>
                  Some (pAd, if TmpSeq \<noteq> RESET_RCV_SEQ then e\<lparr>baLastIndSeq := TmpSeq\<rparr> else e))))"

definition indicate_ampdu_entry ::
  "nat \<Rightarrow> u64 \<Rightarrow> ba_adapter \<Rightarrow> ba_rec_entry \<Rightarrow> rx_blk \<Rightarrow> (ba_adapter \<times> ba_rec_entry) option" where
  "indicate_ampdu_entry hz Now32 pAd pBAEntry pRxBlk =
     (case ba_flush_reordering_timeout_mpdus hz pAd (pBAEntry\<lparr>baRcvSeq := ucast (rxSequence pRxBlk)\<rparr>) Now32 of
        None \<Rightarrow> None
      | Some (pAd, e) \<Rightarrow> indicate_ampdu_window Now32 pAd (e\<lparr>baLastIndSeqAtTimer := Now32\<rparr>) pRxBlk)"

text \<open>\<^verbatim>\<open>Indicate_AMPDU_Packet\<close> with the lookup of the session: \<open>wcids\<close> is \<^verbatim>\<open>BARecWcidArray\<close>, \<open>n\<close> the size
  of the table of stations.\<close>

record ba_rx_state =
  brAdapter :: ba_adapter
  brEntries :: "ba_rec_entry list"
  brWcidArray :: "nat \<Rightarrow> nat \<Rightarrow> nat"

definition Indicate_AMPDU_Packet ::
  "nat \<Rightarrow> nat \<Rightarrow> u64 \<Rightarrow> ba_rx_state \<Rightarrow> nat \<Rightarrow> nat \<Rightarrow> rx_blk \<Rightarrow> ba_rx_state option" where
  "Indicate_AMPDU_Packet n hz Now32 s wcid TID pRxBlk =
     (if \<not> rxAMSDU pRxBlk \<and> rxDataSize pRxBlk > MAX_RX_PKT_LEN then
        Some (s\<lparr>brAdapter := ba_emit (FreePacket (rxPacket pRxBlk)) (brAdapter s)\<rparr>)
      else if wcid < n then
        let Idx = brWcidArray s wcid TID
        in if Idx = 0 then Some (s\<lparr>brAdapter := INDICATE_LEGACY_OR_AMSDU (brAdapter s) pRxBlk\<rparr>)
           else if length (brEntries s) \<le> Idx then None
           else case indicate_ampdu_entry hz Now32 (brAdapter s) (brEntries s ! Idx) pRxBlk of None \<Rightarrow> None
                | Some (pAd, e) \<Rightarrow> Some (s\<lparr>brAdapter := pAd, brEntries := (brEntries s)[Idx := e]\<rparr>)
      else Some (s\<lparr>brAdapter := ba_emit (FreePacket (rxPacket pRxBlk)) (brAdapter s)\<rparr>))"

text \<open>\<^verbatim>\<open>ba_reordering_resource_release\<close>: the pending packets of every session in use are freed, then the pool.\<close>

function release_loop :: "ba_adapter \<Rightarrow> reordering_list \<Rightarrow> ba_adapter \<times> reordering_list" where
  "release_loop pAd l =
     (case ba_dequeue l of
        (None, l) \<Rightarrow> (pAd, l)
      | (Some mpdu_blk, l) \<Rightarrow> release_loop (ba_mpdu_blk_free (ba_emit (FreePacket (mpPacket mpdu_blk)) pAd) mpdu_blk) l)"
  by pat_completeness auto
termination
  by (relation "measure (\<lambda>(pAd, l). length (rlNext l))") (auto simp: ba_dequeue_def split: if_splits list.splits)

declare release_loop.simps [simp del]

fun release_entries :: "ba_adapter \<Rightarrow> ba_rec_entry list \<Rightarrow> ba_adapter \<times> ba_rec_entry list" where
  "release_entries pAd [] = (pAd, [])"
| "release_entries pAd (e # es) =
     (let (pAd, e) = (if baStatus e \<noteq> Recipient_NONE
                      then (case release_loop pAd (baList e) of (pAd, l) \<Rightarrow> (pAd, e\<lparr>baList := l\<rparr>)) else (pAd, e));
          (pAd, es) = release_entries pAd es
      in (pAd, e # es))"

definition ba_reordering_resource_release :: "ba_rx_state \<Rightarrow> ba_rx_state" where
  "ba_reordering_resource_release s =
     (case release_entries (brAdapter s) (brEntries s) of
        (pAd, es) \<Rightarrow> s\<lparr>brAdapter := pAd, brEntries := es\<rparr>)"

section \<open>Sequence numbers\<close>

text \<open>The distance of a sequence number from another one, going upwards modulo 4096.\<close>

definition seq_dist :: "u16 \<Rightarrow> u16 \<Rightarrow> nat" where
  "seq_dist L s = (unat s + 4096 - unat L) mod 4096"

abbreviation seq12 :: "u16 \<Rightarrow> bool" where
  "seq12 s \<equiv> unat s < 4096"

lemma seq_dist_less [simp]: "seq_dist L s < 4096"
  by (simp add: seq_dist_def)

lemma unat_and_maxseq: "unat ((x :: u16) AND 0xfff) = unat x mod 4096"
proof -
  have "x AND 0xfff = take_bit 12 x"
    by (simp add: take_bit_eq_mask mask_eq_exp_minus_1)
  moreover have "unat (take_bit 12 x) = take_bit 12 (unat x)"
    by (simp only: unsigned_take_bit_eq)
  ultimately show ?thesis
    by (simp only: take_bit_eq_mod [of 12 "unat x"]) simp
qed

lemma seq12_and [simp]: "seq12 (x AND 0xfff)"
  by (simp add: unat_and_maxseq)

lemma unat_diff_mod:
  assumes "seq12 L"
  shows "unat (s - L) mod 4096 = seq_dist L s"
proof -
  define d where "d = unat (s - L)"
  have "unat s = (d + unat L) mod 65536"
    using unat_word_ariths(1) [of "s - L" L] by (simp add: d_def)
  moreover have "d < 65536"
    using unsigned_less [of "s - L"] by (simp add: d_def)
  ultimately consider "d + unat L = unat s" | "d + unat L = unat s + 65536"
    using assms by (cases "d + unat L < 65536") (auto simp: mod_if)
  then have "unat s + 4096 - unat L = d + 4096 \<or> d = (unat s + 4096 - unat L) + 15 * 4096"
    by cases (use assms in linarith)+
  then have "d mod 4096 = (unat s + 4096 - unat L) mod 4096"
    by (metis mod_add_self2 mod_mult_self1)
  then show ?thesis
    by (simp add: d_def seq_dist_def)
qed

lemma SEQ_SMALLER_dist:
  assumes "seq12 b"
  shows "SEQ_SMALLER a b \<longleftrightarrow> 2048 \<le> seq_dist b a"
proof -
  have "SEQ_SMALLER a b \<longleftrightarrow> bit (a - b) 11"
    unfolding SEQ_SMALLER_def using and_exp_eq_0_iff_not_bit [of "a - b" 11] by simp
  also have "\<dots> \<longleftrightarrow> bit (unat (a - b)) 11"
    by (simp add: bit_unsigned_iff)
  also have "\<dots> \<longleftrightarrow> odd (unat (a - b) div 2048)"
    by (simp add: bit_iff_odd)
  also have "\<dots> \<longleftrightarrow> 2048 \<le> unat (a - b) mod 4096"
  proof -
    have "unat (a - b) div 2048 mod 2 = unat (a - b) mod 4096 div 2048"
      using mod_mult2_eq [of "unat (a - b)" 2048 2] by simp
    moreover have "unat (a - b) mod 4096 div 2048 = (if 2048 \<le> unat (a - b) mod 4096 then 1 else 0)"
      using mod_less_divisor [of 4096 "unat (a - b)"] by (auto simp: div_if)
    ultimately show ?thesis
      by (simp add: odd_iff_mod_2_eq_one)
  qed
  finally show ?thesis
    by (simp add: unat_diff_mod assms)
qed

lemma seq_dist_if: "seq12 L \<Longrightarrow> seq12 s \<Longrightarrow> seq_dist L s = (if unat L \<le> unat s then unat s - unat L else unat s + 4096 - unat L)"
  unfolding seq_dist_def by (auto simp: mod_if)

lemma seq_dist_self [simp]: "seq12 L \<Longrightarrow> seq_dist L L = 0"
  by (simp add: seq_dist_if)

lemma seq_dist_inj: "seq12 L \<Longrightarrow> seq12 a \<Longrightarrow> seq12 b \<Longrightarrow> seq_dist L a = seq_dist L b \<longleftrightarrow> a = b"
  by (auto simp: seq_dist_if word_unat_eq_iff split: if_splits)

lemma seq_dist_shift:
  "seq12 L \<Longrightarrow> seq12 M \<Longrightarrow> seq12 s \<Longrightarrow> seq_dist L M \<le> seq_dist L s \<Longrightarrow> seq_dist M s = seq_dist L s - seq_dist L M"
  by (auto simp: seq_dist_if split: if_splits)

lemma SEQ_STEPONE_dist:
  assumes "seq12 a" and "seq12 b"
  shows "SEQ_STEPONE a b \<longleftrightarrow> seq_dist b a = 1"
proof -
  have "unat ((b + 1) AND 0xfff) = (unat b + 1) mod 4096"
    using assms(2) by (simp add: unat_and_maxseq unat_word_ariths mod_mod_cancel)
  then have "SEQ_STEPONE a b \<longleftrightarrow> unat a = (unat b + 1) mod 4096"
    by (simp add: SEQ_STEPONE_def word_unat_eq_iff)
  then show ?thesis
    using assms by (auto simp: seq_dist_if mod_if split: if_splits)
qed

text \<open>Within half of the number space, the comparison of the code is the order of the distances.\<close>

lemma SEQ_SMALLER_window:
  assumes "seq12 L" "seq12 a" "seq12 b" "seq_dist L a < 2048" "seq_dist L b < 2048"
  shows "SEQ_SMALLER a b \<longleftrightarrow> seq_dist L a < seq_dist L b"
  using assms by (auto simp: SEQ_SMALLER_dist seq_dist_if split: if_splits)

section \<open>The release loops\<close>

definition rl_wf :: "reordering_list \<Rightarrow> bool" where
  "rl_wf l \<longleftrightarrow> rlQlen l = int (length (rlNext l))"

text \<open>Passing up a sequence of blocks and giving them back to the pool.\<close>

definition release :: "reordering_mpdu list \<Rightarrow> ba_adapter \<Rightarrow> ba_adapter" where
  "release ms pAd = fold (\<lambda>m pAd. ba_mpdu_blk_free (Announce_Reordering_Packet pAd m) m) ms pAd"

definition announce_event :: "reordering_mpdu \<Rightarrow> ba_event" where
  "announce_event m = (if mpAMSDU m then AnnounceAMSDU (mpPacket m) (mpSequence m) else Announce802_3 (mpPacket m) (mpSequence m))"

lemma release_simps [simp]: "release [] pAd = pAd"
  "release (m # ms) pAd = release ms (ba_mpdu_blk_free (Announce_Reordering_Packet pAd m) m)"
  by (simp_all add: release_def)

lemma release_append: "release (xs @ ys) pAd = release ys (release xs pAd)"
  by (simp add: release_def)

lemma release_events: "baEvents (release ms pAd) = baEvents pAd @ map announce_event ms"
  by (induction ms arbitrary: pAd)
    (simp_all add: ba_mpdu_blk_free_def Announce_Reordering_Packet_def ba_emit_def announce_event_def)

lemma release_freelist:
  "rlNext (baFreelist (release ms pAd)) = rev ms @ rlNext (baFreelist pAd)"
  "rlQlen (baFreelist (release ms pAd)) = rlQlen (baFreelist pAd) + int (length ms)"
  by (induction ms arbitrary: pAd)
    (simp_all add: ba_mpdu_blk_free_def Announce_Reordering_Packet_def ba_emit_def ba_enqueue_def)

fun in_order_prefix :: "u16 \<Rightarrow> reordering_mpdu list \<Rightarrow> reordering_mpdu list" where
  "in_order_prefix S [] = []"
| "in_order_prefix S (m # ms) = (if SEQ_STEPONE (mpSequence m) S then m # in_order_prefix (mpSequence m) ms else [])"

text \<open>The list structure with a correct counter.\<close>

definition rl_of :: "reordering_mpdu list \<Rightarrow> reordering_list" where
  "rl_of ms = \<lparr>rlNext = ms, rlQlen = int (length ms)\<rparr>"

lemma rl_wf_of: "rl_wf l \<longleftrightarrow> l = rl_of (rlNext l)"
  by (cases l) (auto simp: rl_wf_def rl_of_def)

lemma rl_of_sel [simp]: "rlNext (rl_of ms) = ms" "rlQlen (rl_of ms) = int (length ms)"
  by (simp_all add: rl_of_def)

lemma rl_of_inj [simp]: "rl_of xs = rl_of ys \<longleftrightarrow> xs = ys"
  by (auto simp: rl_of_def)

lemma ba_dequeue_of [simp]:
  "ba_dequeue (rl_of []) = (None, rl_of [])" "ba_dequeue (rl_of (m # ms)) = (Some m, rl_of ms)"
  by (simp_all add: ba_dequeue_def rl_of_def)

lemma ba_enqueue_of [simp]: "ba_enqueue (rl_of ms) m = rl_of (m # ms)"
  by (simp add: ba_enqueue_def rl_of_def)

lemma ba_probe_of [simp]:
  "ba_reordering_mpdu_probe (rl_of []) = None" "ba_reordering_mpdu_probe (rl_of (m # ms)) = Some m"
  by (simp_all add: ba_reordering_mpdu_probe_def)

lemma in_order_loop_release:
  "in_order_loop pAd (rl_of ms) S I =
     Some (release (in_order_prefix S ms) pAd, rl_of (drop (length (in_order_prefix S ms)) ms),
           if in_order_prefix S ms = [] then I else mpSequence (last (in_order_prefix S ms)))"
  by (induction ms arbitrary: pAd S I; subst in_order_loop.simps) simp_all

lemma le_seq_loop_release:
  "le_seq_loop pAd (rl_of ms) S =
     Some (release (takeWhile (\<lambda>m. mpSequence m = S \<or> SEQ_SMALLER (mpSequence m) S) ms) pAd,
           rl_of (dropWhile (\<lambda>m. mpSequence m = S \<or> SEQ_SMALLER (mpSequence m) S) ms))"
  by (induction ms arbitrary: pAd; subst le_seq_loop.simps) simp_all

lemma refresh_loop_release:
  "baList e = rl_of ms \<Longrightarrow> \<exists>L. refresh_loop pAd e = (release ms pAd, e\<lparr>baList := rl_of [], baLastIndSeq := L\<rparr>)"
proof (induction ms arbitrary: pAd e)
  case Nil
  then show ?case
    by (subst refresh_loop.simps) (auto intro: exI [of _ "baLastIndSeq e"])
next
  case (Cons m ms)
  let ?e = "e\<lparr>baList := rl_of ms, baLastIndSeq := mpSequence m\<rparr>"
  have "refresh_loop pAd e = refresh_loop (ba_mpdu_blk_free (Announce_Reordering_Packet pAd m) m) ?e"
    using Cons.prems by (subst refresh_loop.simps) (simp del: list.size of_nat_Suc)
  moreover obtain L where "refresh_loop (ba_mpdu_blk_free (Announce_Reordering_Packet pAd m) m) ?e
      = (release ms (ba_mpdu_blk_free (Announce_Reordering_Packet pAd m) m), ?e\<lparr>baList := rl_of [], baLastIndSeq := L\<rparr>)"
    using Cons.IH [of ?e] by auto
  ultimately show ?case
    by auto
qed


section \<open>The window\<close>

text \<open>A list of blocks that is sorted, without duplicates, upwards from \<open>L\<close>, with distances in the given range.\<close>

definition window :: "u16 \<Rightarrow> nat \<Rightarrow> nat \<Rightarrow> reordering_mpdu list \<Rightarrow> bool" where
  "window L lo hi ms \<longleftrightarrow> seq12 L \<and> sorted_wrt (\<lambda>a b. seq_dist L (mpSequence a) < seq_dist L (mpSequence b)) ms
     \<and> (\<forall>m\<in>set ms. seq12 (mpSequence m) \<and> lo \<le> seq_dist L (mpSequence m) \<and> seq_dist L (mpSequence m) \<le> hi)"

text \<open>
  The invariant of a session. The reordering list is empty while the start of the window is not known; afterwards it holds, sorted,
  sequence numbers of the window only, and never the one that is expected next.
\<close>

definition ba_inv :: "ba_rec_entry \<Rightarrow> bool" where
  "ba_inv e \<longleftrightarrow> rl_wf (baList e) \<and> 1 \<le> unat (baWinSize e) \<and>
     (if baLastIndSeq e = RESET_RCV_SEQ then rlNext (baList e) = []
      else window (baLastIndSeq e) 2 (unat (baWinSize e)) (rlNext (baList e)))"

lemma window_Nil [simp]: "window L lo hi [] \<longleftrightarrow> seq12 L"
  by (simp add: window_def)

lemma window_Cons:
  "window L lo hi (m # ms) \<longleftrightarrow> seq12 (mpSequence m) \<and> lo \<le> seq_dist L (mpSequence m) \<and> seq_dist L (mpSequence m) \<le> hi
     \<and> window L (Suc (seq_dist L (mpSequence m))) hi ms"
proof -
  have "seq12 (mpSequence x) \<and> lo \<le> seq_dist L (mpSequence x)"
    if "lo \<le> seq_dist L (mpSequence m)" "seq_dist L (mpSequence m) < seq_dist L (mpSequence x)" "seq12 (mpSequence x)" for x
    using that by linarith
  then show ?thesis
    unfolding window_def by (simp add: Suc_le_eq) blast
qed

lemma window_mono: "window L lo hi ms \<Longrightarrow> lo' \<le> lo \<Longrightarrow> hi \<le> hi' \<Longrightarrow> window L lo' hi' ms"
  by (auto simp: window_def)

lemma window_seq12: "window L lo hi ms \<Longrightarrow> seq12 L"
  by (simp add: window_def)

lemma window_shift:
  assumes "window L lo hi ms" and "seq12 M" and "seq_dist L M \<le> lo"
  shows "window M (lo - seq_dist L M) (hi - seq_dist L M) ms"
proof -
  have "seq_dist M (mpSequence m) = seq_dist L (mpSequence m) - seq_dist L M \<and> seq_dist L M \<le> seq_dist L (mpSequence m)"
    if "m \<in> set ms" for m
    using assms that by (auto simp: window_def intro!: seq_dist_shift)
  then show ?thesis
    using assms unfolding window_def by (auto elim!: sorted_wrt_mono_rel [rotated])
qed

text \<open>The blocks of the list that follow each other without a gap from the start of the window.\<close>

lemma in_order_prefix_window:
  assumes "window L 1 hi ms" "in_order_prefix L ms = p" "L' = (if p = [] then L else mpSequence (last p))"
  shows "seq12 L' \<and> seq_dist L L' = length p \<and> map (seq_dist L \<circ> mpSequence) p = [1..<Suc (length p)]
    \<and> window L' 2 (hi - length p) (drop (length p) ms) \<and> ms = p @ drop (length p) ms"
  using assms
proof (induction ms arbitrary: L p L' hi)
  case Nil
  then show ?case by simp
next
  case (Cons m ms)
  let ?M = "mpSequence m"
  have L: "seq12 L" and M: "seq12 ?M" and d: "1 \<le> seq_dist L ?M" "seq_dist L ?M \<le> hi"
    and w: "window L (Suc (seq_dist L ?M)) hi ms"
    using Cons.prems(1) window_seq12 [OF Cons.prems(1)] unfolding window_Cons by blast+
  show ?case
  proof (cases "SEQ_STEPONE ?M L")
    case False
    then have "seq_dist L ?M \<noteq> 1"
      using SEQ_STEPONE_dist [OF M L] by simp
    then have "2 \<le> seq_dist L ?M"
      using d(1) by linarith
    moreover have "p = []"
      using Cons.prems(2) False by simp
    ultimately show ?thesis
      using Cons.prems(3) L M d w by (simp add: window_Cons)
  next
    case True
    then have d1: "seq_dist L ?M = 1"
      using SEQ_STEPONE_dist [OF M L] by simp
    define q where "q = in_order_prefix ?M ms"
    have p: "p = m # q"
      using Cons.prems(2) True by (simp add: q_def)
    have "window ?M 1 (hi - 1) ms"
      using window_shift [OF w M] d1 by simp
    moreover have L': "L' = (if q = [] then ?M else mpSequence (last q))"
      using Cons.prems(3) p by simp
    ultimately have IH: "seq12 L'" "seq_dist ?M L' = length q" "map (seq_dist ?M \<circ> mpSequence) q = [1..<Suc (length q)]"
      "window L' 2 (hi - 1 - length q) (drop (length q) ms)" "ms = q @ drop (length q) ms"
      using Cons.IH [OF _ q_def [symmetric], of "hi - 1" L'] by blast+
    have up: "seq_dist L (mpSequence x) = Suc (seq_dist ?M (mpSequence x))" if "x \<in> set q" for x
    proof -
      have "x \<in> set ms"
        using that IH(5) by (metis in_set_conv_decomp append_assoc append_Cons)
      then have "seq12 (mpSequence x)" "2 \<le> seq_dist L (mpSequence x)"
        using w d1 by (auto simp: window_def)
      then show ?thesis
        using seq_dist_shift [OF L M] d1 by simp
    qed
    then have "map (seq_dist L \<circ> mpSequence) q = map Suc (map (seq_dist ?M \<circ> mpSequence) q)"
      by simp
    then have "map (\<lambda>x. seq_dist L (mpSequence x)) q = [Suc (Suc 0)..<Suc (Suc (length q))]"
      unfolding IH(3) map_Suc_upt by (simp add: comp_def del: upt_Suc)
    moreover have "seq_dist L L' = Suc (length q)"
      using up [of "last q"] IH(2) d1 M L' by (cases "q = []") auto
    ultimately show ?thesis
      using p d1 IH(1,4,5) by (simp add: upt_conv_Cons del: upt_Suc)
  qed
qed

text \<open>Releasing up to a sequence number of the window.\<close>

lemma le_seq_window:
  assumes "window L lo hi ms" "hi < 2048" "seq12 W" "seq_dist L W < 2048"
    and P: "P = (\<lambda>m. mpSequence m = W \<or> SEQ_SMALLER (mpSequence m) W)"
  shows "window W 1 (hi - seq_dist L W) (dropWhile P ms)"
    and "sorted_wrt (<) (map (seq_dist L \<circ> mpSequence) (takeWhile P ms))"
    and "m \<in> set (takeWhile P ms) \<Longrightarrow> seq12 (mpSequence m) \<and> lo \<le> seq_dist L (mpSequence m) \<and> seq_dist L (mpSequence m) \<le> seq_dist L W"
proof -
  let ?d = "\<lambda>m. seq_dist L (mpSequence m)"
  have L: "seq12 L" and srt: "sorted_wrt (\<lambda>a b. ?d a < ?d b) ms"
    and in_ms: "\<And>m. m \<in> set ms \<Longrightarrow> seq12 (mpSequence m) \<and> lo \<le> ?d m \<and> ?d m \<le> hi"
    using assms(1) by (auto simp: window_def)
  have Pd: "P m \<longleftrightarrow> ?d m \<le> seq_dist L W" if "m \<in> set ms" for m
  proof -
    have "seq12 (mpSequence m)" "?d m < 2048"
      using in_ms [OF that] assms(2) by auto
    then show ?thesis
      unfolding P using seq_dist_inj [OF L, of "mpSequence m" W] SEQ_SMALLER_window [OF L, of "mpSequence m" W] assms(3,4)
      by auto
  qed
  have "sorted_wrt (\<lambda>a b. ?d a < ?d b) (dropWhile P ms)"
    using srt by (metis sorted_wrt_append takeWhile_dropWhile_id)
  moreover have "Suc (seq_dist L W) \<le> ?d m" if "m \<in> set (dropWhile P ms)" for m
    using that srt Pd
  proof (induction ms)
    case (Cons x xs)
    then show ?case
      by (cases "P x") (auto simp: Suc_le_eq not_le intro: order.strict_trans)
  qed simp
  ultimately have "window L (Suc (seq_dist L W)) hi (dropWhile P ms)"
    using L in_ms by (auto simp: window_def dest: set_dropWhileD)
  from window_shift [OF this assms(3)] show "window W 1 (hi - seq_dist L W) (dropWhile P ms)"
    by simp
  have "sorted_wrt (\<lambda>a b. ?d a < ?d b) (takeWhile P ms)"
    using srt by (metis sorted_wrt_append takeWhile_dropWhile_id)
  then show "sorted_wrt (<) (map (seq_dist L \<circ> mpSequence) (takeWhile P ms))"
    by (simp add: sorted_wrt_map)
  show "seq12 (mpSequence m) \<and> lo \<le> ?d m \<and> ?d m \<le> seq_dist L W" if "m \<in> set (takeWhile P ms)"
    using that in_ms Pd by (metis set_takeWhileD)
qed

text \<open>The sorted insertion is \<open>insort_key\<close>, with duplicates refused.\<close>

lemma insertsorted_scan_window:
  assumes "window L lo hi ms" "hi < 2048" "seq12 (mpSequence m)" "seq_dist L (mpSequence m) \<le> hi"
  shows "insertsorted_scan ms m =
    (if mpSequence m \<in> mpSequence ` set ms then None else Some (insort_key (seq_dist L \<circ> mpSequence) m ms))"
  using assms
proof (induction ms arbitrary: lo)
  case (Cons x xs)
  let ?d = "\<lambda>m. seq_dist L (mpSequence m)"
  have L: "seq12 L" and x: "seq12 (mpSequence x)" "?d x \<le> hi" and w: "window L (Suc (?d x)) hi xs"
    using Cons.prems(1) window_seq12 [OF Cons.prems(1)] unfolding window_Cons by blast+
  have s: "SEQ_SMALLER (mpSequence x) (mpSequence m) \<longleftrightarrow> ?d x < ?d m"
    using SEQ_SMALLER_window [OF L x(1) Cons.prems(3)] x(2) Cons.prems(2,4) by simp
  have eq: "mpSequence x = mpSequence m \<longleftrightarrow> ?d x = ?d m"
    using seq_dist_inj [OF L x(1) Cons.prems(3)] by simp
  have "mpSequence m \<notin> mpSequence ` set xs" if "?d m \<le> ?d x"
  proof
    assume "mpSequence m \<in> mpSequence ` set xs"
    then obtain y where "y \<in> set xs" "mpSequence m = mpSequence y" by auto
    then show False
      using w that by (auto simp: window_def)
  qed
  then show ?case
    using Cons.IH [OF w Cons.prems(2-4)] s eq by (auto simp: image_iff comp_def)
qed simp

lemma window_insort:
  assumes "window L lo hi ms" "seq12 (mpSequence m)" "lo \<le> seq_dist L (mpSequence m)" "seq_dist L (mpSequence m) \<le> hi"
    and "mpSequence m \<notin> mpSequence ` set ms"
  shows "window L lo hi (insort_key (seq_dist L \<circ> mpSequence) m ms)"
proof -
  let ?f = "seq_dist L \<circ> mpSequence"
  have w: "sorted_wrt (<) (map ?f ms)" "seq12 L" "\<forall>x\<in>set ms. seq12 (mpSequence x) \<and> lo \<le> ?f x \<and> ?f x \<le> hi"
    using assms(1) by (auto simp: window_def sorted_wrt_map)
  then have "?f m \<notin> ?f ` set ms"
    using assms(2,5) seq_dist_inj by (auto simp: image_iff)
  then have "distinct (map ?f (insort_key ?f m ms))"
    using w(1) by (auto simp: strict_sorted_iff distinct_map distinct_insort set_insort_key)
  then have "sorted_wrt (<) (map ?f (insort_key ?f m ms))"
    using w(1) by (simp add: strict_sorted_iff sorted_insort_key)
  then show ?thesis
    using w(2,3) assms(2-4) by (auto simp: window_def sorted_wrt_map set_insort_key)
qed


section \<open>Delivery in order\<close>

fun ev_packet :: "ba_event \<Rightarrow> packet" where
  "ev_packet (AnnounceAMSDU p s) = p"
| "ev_packet (Announce802_3 p s) = p"
| "ev_packet (IndicateAMSDU p s) = p"
| "ev_packet (IndicateEAPOL p s) = p"
| "ev_packet (IndicateLegacy p s) = p"
| "ev_packet (FreePacket p) = p"

fun ev_frame :: "ba_event \<Rightarrow> (packet \<times> u16) list" where
  "ev_frame (AnnounceAMSDU p s) = [(p, s)]"
| "ev_frame (Announce802_3 p s) = [(p, s)]"
| "ev_frame (IndicateAMSDU p s) = [(p, s)]"
| "ev_frame (IndicateEAPOL p s) = [(p, s)]"
| "ev_frame (IndicateLegacy p s) = [(p, s)]"
| "ev_frame (FreePacket p) = []"

text \<open>The frames that reach the upper layer, with their sequence numbers.\<close>

definition delivered :: "ba_event list \<Rightarrow> (packet \<times> u16) list" where
  "delivered evs = concat (map ev_frame evs)"

abbreviation mpdu_frame :: "reordering_mpdu \<Rightarrow> packet \<times> u16" where
  "mpdu_frame m \<equiv> (mpPacket m, mpSequence m)"

lemma delivered_simps [simp]:
  "delivered [] = []" "delivered (ev # evs) = ev_frame ev @ delivered evs"
  "delivered (xs @ ys) = delivered xs @ delivered ys"
  by (simp_all add: delivered_def)

lemma delivered_announce [simp]: "delivered (map announce_event ms) = map mpdu_frame ms"
  by (induction ms) (auto simp: announce_event_def)

text \<open>
  Sequence numbers that go upwards from behind \<open>L\<close> up to \<open>L'\<close> at most.
\<close>

definition upwards :: "u16 \<Rightarrow> u16 list \<Rightarrow> u16 \<Rightarrow> bool" where
  "upwards L ss L' \<longleftrightarrow> seq12 L' \<and> sorted_wrt (<) (map (seq_dist L) ss)
     \<and> (\<forall>s\<in>set ss. seq12 s \<and> 0 < seq_dist L s \<and> seq_dist L s \<le> seq_dist L L')"

lemma seq_dist_add:
  "seq12 L \<Longrightarrow> seq12 M \<Longrightarrow> seq12 s \<Longrightarrow> seq_dist L M + seq_dist M s < 4096 \<Longrightarrow> seq_dist L s = seq_dist L M + seq_dist M s"
  by (auto simp: seq_dist_if split: if_splits)

lemma upwards_Nil [simp]: "upwards L [] L' \<longleftrightarrow> seq12 L'"
  by (simp add: upwards_def)

lemma upwards_append:
  assumes "seq12 L" "upwards L xs M" "upwards M ys L'" "seq_dist L M + seq_dist M L' < 4096"
  shows "upwards L (xs @ ys) L'"
proof -
  have M: "seq12 M" and L': "seq12 L'"
    using assms(2,3) by (auto simp: upwards_def)
  have y: "seq_dist L y = seq_dist L M + seq_dist M y" if "y \<in> set ys" for y
    using that assms(3,4) by (intro seq_dist_add assms(1) M) (auto simp: upwards_def)
  have LL: "seq_dist L L' = seq_dist L M + seq_dist M L'"
    using assms(1,4) M L' by (intro seq_dist_add)
  have "map (seq_dist L) ys = map (\<lambda>y. seq_dist L M + seq_dist M y) ys"
    using y by simp
  moreover have "sorted_wrt (<) (map (\<lambda>y. seq_dist L M + seq_dist M y) ys)"
    using assms(3) by (simp add: upwards_def sorted_wrt_map)
  ultimately have "sorted_wrt (<) (map (seq_dist L) ys)"
    by (simp only:)
  then have "sorted_wrt (<) (map (seq_dist L) (xs @ ys))"
    using assms(2,3) y by (auto simp: upwards_def sorted_wrt_append intro: le_less_trans)
  then show ?thesis
    using assms(2,3) y L' LL by (auto simp: upwards_def)
qed

text \<open>
  What one call does to the session and the pool: the invariant holds again, no block is lost, and the frames
  that are passed up follow the window upwards.
\<close>

definition delivers :: "ba_adapter \<Rightarrow> ba_rec_entry \<Rightarrow> ba_adapter \<Rightarrow> ba_rec_entry \<Rightarrow> bool" where
  "delivers pAd e pAd' e' \<longleftrightarrow> ba_inv e' \<and> baLastIndSeq e' \<noteq> RESET_RCV_SEQ \<and> baWinSize e' = baWinSize e
     \<and> rl_wf (baFreelist pAd')
     \<and> rlQlen (baFreelist pAd') + rlQlen (baList e') = rlQlen (baFreelist pAd) + rlQlen (baList e)
     \<and> (\<exists>evs. baEvents pAd' = baEvents pAd @ evs \<and> upwards (baLastIndSeq e) (map snd (delivered evs)) (baLastIndSeq e'))"

lemma delivers_after:
  assumes "delivers pAd1 e1 pAd' e'" "baEvents pAd1 = baEvents pAd @ xs"
    and "upwards (baLastIndSeq e) (map snd (delivered xs)) (baLastIndSeq e1)" "seq12 (baLastIndSeq e)"
    and "seq_dist (baLastIndSeq e) (baLastIndSeq e1) + seq_dist (baLastIndSeq e1) (baLastIndSeq e') < 4096"
    and "baWinSize e1 = baWinSize e"
    and "rlQlen (baFreelist pAd1) + rlQlen (baList e1) = rlQlen (baFreelist pAd) + rlQlen (baList e)"
  shows "delivers pAd e pAd' e'"
proof -
  obtain ys where "baEvents pAd' = baEvents pAd1 @ ys" "upwards (baLastIndSeq e1) (map snd (delivered ys)) (baLastIndSeq e')"
    using assms(1) unfolding delivers_def by blast
  then have "baEvents pAd' = baEvents pAd @ (xs @ ys)"
    and "upwards (baLastIndSeq e) (map snd (delivered (xs @ ys))) (baLastIndSeq e')"
    using upwards_append [OF assms(4,3) _ assms(5)] assms(2) by auto
  then show ?thesis
    using assms(1,6,7) unfolding delivers_def by (metis (no_types, lifting))
qed

lemma delivers_trans:
  assumes "delivers pAd e pAd1 e1" "delivers pAd1 e1 pAd2 e2" "seq12 (baLastIndSeq e)"
    and "seq_dist (baLastIndSeq e) (baLastIndSeq e1) + seq_dist (baLastIndSeq e1) (baLastIndSeq e2) < 4096"
  shows "delivers pAd e pAd2 e2"
  using assms delivers_after [OF assms(2) _ _ assms(3,4)] unfolding delivers_def by blast

lemma seq12_not_reset: "seq12 s \<Longrightarrow> s \<noteq> 0xffff"
  by auto

lemma ba_inv_window:
  assumes "ba_inv e" "baLastIndSeq e \<noteq> 0xffff"
  obtains ms where "baList e = rl_of ms" "window (baLastIndSeq e) 2 (unat (baWinSize e)) ms"
  using assms by (auto simp: ba_inv_def rl_wf_of)

lemma WinSize_less: "unat (baWinSize e) < 256"
  using unsigned_less [of "baWinSize e"] by simp

text \<open>The last indicated sequence number after the blocks \<open>p\<close> have been released.\<close>

definition last_seq :: "u16 \<Rightarrow> reordering_mpdu list \<Rightarrow> u16" where
  "last_seq L p = (if p = [] then L else mpSequence (last p))"

text \<open>\<^verbatim>\<open>ba_indicate_reordering_mpdus_in_order\<close> together with the assignment that follows each of its calls.\<close>

lemma in_order_step:
  assumes "baList e = rl_of ms" "window (baLastIndSeq e) 1 hi ms" "p = in_order_prefix (baLastIndSeq e) ms"
  obtains S where "ba_indicate_reordering_mpdus_in_order pAd e (baLastIndSeq e) = Some (release p pAd, e\<lparr>baList := rl_of (drop (length p) ms)\<rparr>, S)"
    and "(if S \<noteq> 0xffff then e\<lparr>baList := rl_of (drop (length p) ms), baLastIndSeq := S\<rparr> else e\<lparr>baList := rl_of (drop (length p) ms)\<rparr>)
       = e\<lparr>baList := rl_of (drop (length p) ms), baLastIndSeq := last_seq (baLastIndSeq e) p\<rparr>"
proof -
  let ?S = "if p = [] then 0xffff else mpSequence (last p)"
  have "seq12 (last_seq (baLastIndSeq e) p)"
    using in_order_prefix_window [OF assms(2) assms(3) [symmetric] refl] by (simp add: last_seq_def)
  then have "p \<noteq> [] \<Longrightarrow> mpSequence (last p) \<noteq> 0xffff"
    using seq12_not_reset by (auto simp: last_seq_def)
  then show ?thesis
    using assms(1,3) by (intro that [of ?S]) (auto simp: ba_indicate_reordering_mpdus_in_order_def in_order_loop_release last_seq_def)
qed

lemma release_wf: "rl_wf (baFreelist pAd) \<Longrightarrow> rl_wf (baFreelist (release p pAd))"
  by (simp add: rl_wf_def release_freelist)

lemma in_order_delivers:
  assumes "window L 1 (unat (baWinSize e)) ms" "p = in_order_prefix L ms" "1 \<le> unat (baWinSize e)"
    and "rl_wf (baFreelist pAd)" "L = baLastIndSeq e" "baList e = rl_of ms" "e' = e\<lparr>baList := rl_of (drop (length p) ms), baLastIndSeq := last_seq L p\<rparr>"
  shows "delivers pAd e (release p pAd) e'" and "seq_dist L (last_seq L p) = length p" and "length p \<le> unat (baWinSize e)"
proof -
  note w = in_order_prefix_window [OF assms(1) assms(2) [symmetric] refl, folded last_seq_def]
  show d: "seq_dist L (last_seq L p) = length p"
    using w by blast
  have up: "upwards L (map mpSequence p) (last_seq L p)"
  proof -
    have m: "map (seq_dist L) (map mpSequence p) = [1..<Suc (length p)]"
      using w by simp
    then have "set (map (seq_dist L) (map mpSequence p)) = {1..<Suc (length p)}"
      by (simp only: set_upt)
    then have "0 < seq_dist L s \<and> seq_dist L s \<le> length p" if "s \<in> set (map mpSequence p)" for s
      using that by (metis atLeastLessThan_iff imageI less_Suc_eq_le list.set_map zero_less_one order.strict_trans2)
    moreover have "seq12 s" if "s \<in> set (map mpSequence p)" for s
    proof -
      have "set p \<subseteq> set ms"
        using w by (metis set_append Un_upper1)
      then show ?thesis
        using that assms(1) by (auto simp: window_def)
    qed
    ultimately show ?thesis
      unfolding upwards_def m using w d by (auto simp del: upt_Suc)
  qed
  show "length p \<le> unat (baWinSize e)"
  proof (cases "p = []")
    case False
    then have "last p \<in> set ms"
      using w by (metis last_in_set set_append UnI1)
    then show ?thesis
      using assms(1) d False unfolding window_def last_seq_def by fastforce
  qed simp
  have "window (last_seq L p) 2 (unat (baWinSize e)) (drop (length p) ms)"
    using w by (blast intro: window_mono [OF _ order.refl diff_le_self])
  moreover have "seq12 (last_seq L p)"
    using w by blast
  moreover have "length p \<le> length ms"
    using w by (metis length_append le_add1)
  ultimately show "delivers pAd e (release p pAd) e'"
    using up assms(3-7) seq12_not_reset [of "last_seq L p"]
    by (simp add: delivers_def ba_inv_def rl_wf_def release_freelist release_events o_def)
qed


text \<open>The start of the window that ends with a sequence number.\<close>

lemma win_start:
  fixes S :: u16 and n :: u8
  assumes "seq12 S" "WS = word_of_int ((if uint S - uint n - 1 < 0 then 4096 + (uint S - uint n - 1) else uint S - uint n - 1) + 1) AND 0xfff"
  shows "seq12 WS" "seq_dist WS S = unat n"
proof -
  define s k where "s = unat S" and "k = unat n"
  have n: "k < 256" "uint n = int k" "uint S = int s" "s < 4096"
    using unsigned_less [of n] assms(1) by (simp_all add: s_def k_def)
  define t where "t = (if s < k + 1 then 4096 + s - k else s - k)"
  have "(if int s - int k - 1 < 0 then 4096 + (int s - int k - 1) else int s - int k - 1) + 1 = int t"
    using n by (auto simp: t_def)
  then have "WS = word_of_int (int t) AND 0xfff"
    using assms(2) by (simp only: n)
  moreover have "unat (word_of_int (int t) :: u16) = t"
    using n by (simp add: unsigned_of_nat take_bit_nat_eq_self t_def)
  ultimately have "unat WS = t mod 4096"
    by (simp only: unat_and_maxseq)
  then have WS: "unat WS = (if s < k then 4096 + s - k else s - k)"
    using n by (cases "s = k") (auto simp: t_def)
  then show "seq12 WS"
    using n by (auto split: if_splits)
  then show "seq_dist WS S = unat n"
    using WS n by (simp add: seq_dist_if assms(1) flip: s_def k_def)
qed

lemma win_end:
  fixes L :: u16 and n :: u8
  assumes "seq12 L" "V = (L + ucast n + 1) AND 0xfff"
  shows "seq12 V" "seq_dist L V = unat n + 1"
proof -
  define l k where "l = unat L" and "k = unat n"
  have n: "k < 256" "l < 4096"
    using unsigned_less [of n] assms(1) by (simp_all add: l_def k_def)
  have "unat (ucast n :: u16) = k"
    using n by (simp add: unsigned_ucast_eq take_bit_nat_eq_self flip: k_def)
  then have "unat (L + ucast n + 1) = l + k + 1"
    using n by (simp add: unat_word_ariths flip: l_def)
  then have V: "unat V = (l + k + 1) mod 4096"
    by (simp only: assms(2) unat_and_maxseq)
  then show "seq12 V"
    by simp
  have "((l + k + 1) mod 4096 + 4096 - l) mod 4096 = k + 1"
  proof (cases "l + k + 1 < 4096")
    case True
    then have "(l + k + 1) mod 4096 + 4096 - l = k + 1 + 4096"
      by simp
    then show ?thesis
      using n by (simp only: mod_add_self2) simp
  next
    case False
    then have "(l + k + 1) mod 4096 = l + k + 1 - 4096"
      using n by (simp add: le_mod_geq)
    then have "(l + k + 1) mod 4096 + 4096 - l = k + 1"
      using False by simp
    then show ?thesis
      using n by simp
  qed
  then show "seq_dist L V = unat n + 1"
    by (simp only: seq_dist_def V flip: l_def k_def)
qed

definition mpdu_of :: "rx_blk \<Rightarrow> reordering_mpdu" where
  "mpdu_of b = \<lparr>mpPacket = rxPacket b, mpSequence = rxSequence b, mpAMSDU = rxAMSDU b, mpOpMode = rxOpMode b\<rparr>"

lemma mpdu_of_sel [simp]: "mpSequence (mpdu_of b) = rxSequence b" "mpPacket (mpdu_of b) = rxPacket b"
  by (simp_all add: mpdu_of_def)

text \<open>Storing a frame of the window, when there is a free block.\<close>

lemma enqueue_step:
  assumes "baList e = rl_of ms" "window L lo hi ms" "hi < 2048" "\<not> rxEAP b" "baFreelist pAd = rl_of (f # fs)"
    and "seq12 (rxSequence b)" "seq_dist L (rxSequence b) \<le> hi"
  shows "ba_enqueue_reordering_packet pAd e b = Some
    (if rxSequence b \<in> mpSequence ` set ms
     then (pAd\<lparr>baFreelist := rl_of (mpdu_of b # fs), baEvents := baEvents pAd @ [FreePacket (rxPacket b)]\<rparr>, e)
     else (pAd\<lparr>baFreelist := rl_of fs\<rparr>, e\<lparr>baList := rl_of (insort_key (seq_dist L \<circ> mpSequence) (mpdu_of b) ms)\<rparr>))"
proof -
  have al: "ba_mpdu_blk_alloc pAd = (Some zero_mpdu, pAd\<lparr>baFreelist := rl_of fs\<rparr>)"
    by (simp add: ba_mpdu_blk_alloc_def assms(5))
  have "insertsorted_scan ms (mpdu_of b) = (if rxSequence b \<in> mpSequence ` set ms then None
      else Some (insort_key (seq_dist L \<circ> mpSequence) (mpdu_of b) ms))"
    using insertsorted_scan_window [OF assms(2,3), of "mpdu_of b"] assms(6,7) by simp
  then have ins: "ba_reordering_mpdu_insertsorted (rl_of ms) (mpdu_of b) = (if rxSequence b \<in> mpSequence ` set ms then (False, rl_of ms)
      else (True, rl_of (insort_key (seq_dist L \<circ> mpSequence) (mpdu_of b) ms)))"
    by (simp add: ba_reordering_mpdu_insertsorted_def rl_of_def)
  show ?thesis
    by (simp add: ba_enqueue_reordering_packet_def Let_def al assms(1,4) ins ba_emit_def ba_mpdu_blk_free_def flip: mpdu_of_def)
qed

text \<open>The branches of \<^verbatim>\<open>Indicate_AMPDU_Packet\<close> for an open window.\<close>

definition indicate_event :: "rx_blk \<Rightarrow> ba_event" where
  "indicate_event b = (if rxAMSDU b then IndicateAMSDU (rxPacket b) (rxSequence b)
     else if rxEAP b then IndicateEAPOL (rxPacket b) (rxSequence b) else IndicateLegacy (rxPacket b) (rxSequence b))"

lemma indicate_event_simps [simp]:
  "ev_frame (indicate_event b) = [(rxPacket b, rxSequence b)]" "ev_packet (indicate_event b) = rxPacket b"
  by (simp_all add: indicate_event_def)

lemma indicate_adapter [simp]:
  "baEvents (INDICATE_LEGACY_OR_AMSDU pAd b) = baEvents pAd @ [indicate_event b]"
  "baFreelist (INDICATE_LEGACY_OR_AMSDU pAd b) = baFreelist pAd"
  by (simp_all add: INDICATE_LEGACY_OR_AMSDU_def ba_emit_def indicate_event_def)

lemma delivers_seq12: "delivers pAd e pAd' e' \<Longrightarrow> seq12 (baLastIndSeq e')"
  by (auto simp: delivers_def upwards_def)

lemma delivers_timer [simp]:
  "delivers pAd e pAd' (e'\<lparr>baLastIndSeqAtTimer := t\<rparr>) = delivers pAd e pAd' e'"
  "delivers pAd (e\<lparr>baLastIndSeqAtTimer := t\<rparr>) pAd' e' = delivers pAd e pAd' e'"
  "delivers pAd (e\<lparr>baRcvSeq := s\<rparr>) pAd' e' = delivers pAd e pAd' e'"
  by (simp_all add: delivers_def ba_inv_def)

lemma window_in_order:
  assumes "baList e = rl_of ms" "window L 2 (unat (baWinSize e)) ms" "L = baLastIndSeq e" "1 \<le> unat (baWinSize e)"
    and "rl_wf (baFreelist pAd)" "seq12 (rxSequence b)" "SEQ_STEPONE (rxSequence b) L"
  obtains e' where "indicate_ampdu_window Now pAd e b =
      Some (release (in_order_prefix (rxSequence b) ms) (INDICATE_LEGACY_OR_AMSDU pAd b), e')"
    and "e' = e\<lparr>baList := rl_of (drop (length (in_order_prefix (rxSequence b) ms)) ms),
           baLastIndSeq := last_seq (rxSequence b) (in_order_prefix (rxSequence b) ms), baLastIndSeqAtTimer := Now\<rparr>"
    and "delivers pAd e (release (in_order_prefix (rxSequence b) ms) (INDICATE_LEGACY_OR_AMSDU pAd b)) e'"
    and "seq_dist L (baLastIndSeq e') \<le> 256"
proof -
  let ?S = "rxSequence b" and ?p = "in_order_prefix (rxSequence b) ms" and ?I = "INDICATE_LEGACY_OR_AMSDU pAd b"
  let ?e = "e\<lparr>baLastIndSeq := ?S\<rparr>"
  let ?e' = "?e\<lparr>baList := rl_of (drop (length ?p) ms), baLastIndSeq := last_seq ?S ?p\<rparr>"
  have L: "seq12 L" and d: "seq_dist L ?S = 1"
    using window_seq12 [OF assms(2)] SEQ_STEPONE_dist [of ?S L] assms(6,7) by auto
  have w: "window ?S 1 (unat (baWinSize e)) ms"
    using window_shift [OF assms(2,6)] d by (auto elim!: window_mono)
  obtain T where T: "ba_indicate_reordering_mpdus_in_order ?I ?e ?S = Some (release ?p ?I, ?e\<lparr>baList := rl_of (drop (length ?p) ms)\<rparr>, T)"
    "(if T \<noteq> 0xffff then ?e\<lparr>baList := rl_of (drop (length ?p) ms), baLastIndSeq := T\<rparr> else ?e\<lparr>baList := rl_of (drop (length ?p) ms)\<rparr>) = ?e'"
    using in_order_step [of ?e ms "unat (baWinSize e)" ?p ?I] assms(1) w by auto
  have D: "delivers ?I ?e (release ?p ?I) ?e'" "seq_dist ?S (last_seq ?S ?p) = length ?p" "length ?p \<le> unat (baWinSize e)"
    using in_order_delivers [of ?S ?e ms ?p ?I ?e'] w assms(1,4,5) by auto
  have n: "unat (baWinSize e) < 256"
    by (rule WinSize_less)
  have sum: "seq_dist L ?S + seq_dist ?S (last_seq ?S ?p) < 4096"
    using D(2,3) d n by linarith
  have "delivers pAd e (release ?p ?I) ?e'"
    by (rule delivers_after [OF D(1), where xs = "[indicate_event b]"]) (use L d sum assms(3,6) in \<open>simp_all add: upwards_def\<close>)
  moreover have "seq_dist L (last_seq ?S ?p) \<le> 256"
    using seq_dist_add [OF L assms(6) _ sum] delivers_seq12 [OF D(1)] D(2,3) d n by simp
  moreover have "indicate_ampdu_window Now pAd e b = Some (release ?p ?I, ?e'\<lparr>baLastIndSeqAtTimer := Now\<rparr>)"
    using T(1) assms(3,7) seq12_not_reset [OF L] unfolding indicate_ampdu_window_def Let_def
    by (simp add: T(2) [symmetric])
  ultimately show ?thesis
    by (intro that [of "?e'\<lparr>baLastIndSeqAtTimer := Now\<rparr>"]) simp_all
qed


lemma window_dropped:
  assumes "ba_inv e" "L = baLastIndSeq e" "L \<noteq> 0xffff" "rl_wf (baFreelist pAd)"
    and "seq12 (rxSequence b)" "rxSequence b = L \<or> SEQ_SMALLER (rxSequence b) L"
  shows "indicate_ampdu_window Now pAd e b = Some (ba_emit (FreePacket (rxPacket b)) pAd, e\<lparr>baDropPacket := baDropPacket e + 1\<rparr>)"
    and "delivers pAd e (ba_emit (FreePacket (rxPacket b)) pAd) (e\<lparr>baDropPacket := baDropPacket e + 1\<rparr>)"
proof -
  have L: "seq12 L"
    using assms(1-3) by (auto simp: ba_inv_def window_def)
  then have "\<not> SEQ_STEPONE (rxSequence b) L"
    using assms(5,6) by (auto simp: SEQ_STEPONE_dist SEQ_SMALLER_dist)
  then show "indicate_ampdu_window Now pAd e b = Some (ba_emit (FreePacket (rxPacket b)) pAd, e\<lparr>baDropPacket := baDropPacket e + 1\<rparr>)"
    using assms(2,3,6) by (auto simp: indicate_ampdu_window_def Let_def)
  show "delivers pAd e (ba_emit (FreePacket (rxPacket b)) pAd) (e\<lparr>baDropPacket := baDropPacket e + 1\<rparr>)"
    using assms(1-4) L by (simp add: delivers_def ba_inv_def ba_emit_def)
qed

text \<open>The distance decides between the branches.\<close>

lemma window_branch:
  assumes "seq12 L" "seq12 s" "V = (L + ucast (baWinSize e) + 1) AND 0xfff"
  shows "SEQ_STEPONE s L \<longleftrightarrow> seq_dist L s = 1" "s = L \<longleftrightarrow> seq_dist L s = 0" "SEQ_SMALLER s L \<longleftrightarrow> 2048 \<le> seq_dist L s"
    and "seq_dist L s < 2048 \<Longrightarrow> SEQ_SMALLER s V \<longleftrightarrow> seq_dist L s \<le> unat (baWinSize e)"
proof -
  show "SEQ_STEPONE s L \<longleftrightarrow> seq_dist L s = 1" "SEQ_SMALLER s L \<longleftrightarrow> 2048 \<le> seq_dist L s"
    using assms(1,2) by (simp_all add: SEQ_STEPONE_dist SEQ_SMALLER_dist)
  show "s = L \<longleftrightarrow> seq_dist L s = 0"
    using seq_dist_inj [OF assms(1,2,1)] assms(1) by simp
  show "SEQ_SMALLER s V \<longleftrightarrow> seq_dist L s \<le> unat (baWinSize e)" if "seq_dist L s < 2048"
    using SEQ_SMALLER_window [OF assms(1,2) win_end(1) [OF assms(1,3)] that] win_end(2) [OF assms(1,3)] WinSize_less [of e]
    by (simp add: less_Suc_eq_le)
qed

lemma window_stored:
  assumes "baList e = rl_of ms" "window L 2 (unat (baWinSize e)) ms" "L = baLastIndSeq e"
    and "\<not> rxEAP b" "baFreelist pAd = rl_of (f # fs)"
    and "seq12 (rxSequence b)" "2 \<le> seq_dist L (rxSequence b)" "seq_dist L (rxSequence b) \<le> unat (baWinSize e)"
    and r: "r = (if rxSequence b \<in> mpSequence ` set ms
       then (pAd\<lparr>baFreelist := rl_of (mpdu_of b # fs), baEvents := baEvents pAd @ [FreePacket (rxPacket b)]\<rparr>, e)
       else (pAd\<lparr>baFreelist := rl_of fs\<rparr>, e\<lparr>baList := rl_of (insort_key (seq_dist L \<circ> mpSequence) (mpdu_of b) ms)\<rparr>))"
  shows "indicate_ampdu_window Now pAd e b = Some r" and "delivers pAd e (fst r) (snd r)"
proof -
  have L: "seq12 L" and n: "unat (baWinSize e) < 256"
    using window_seq12 [OF assms(2)] WinSize_less [of e] by auto
  note br = window_branch [OF L assms(6), of "(L + ucast (baWinSize e) + 1) AND 0xfff" e, OF refl]
  have lt: "seq_dist L (rxSequence b) < 2048"
    using assms(8) n by linarith
  have "indicate_ampdu_window Now pAd e b = ba_enqueue_reordering_packet pAd e b"
    using br(1-3) br(4) [OF lt] lt assms(3,7,8) seq12_not_reset [OF L] by (simp add: indicate_ampdu_window_def Let_def)
  then show "indicate_ampdu_window Now pAd e b = Some r"
    using enqueue_step [OF assms(1,2) _ assms(4-6,8)] n by (simp add: r)
  have "window L 2 (unat (baWinSize e)) (insort_key (seq_dist L \<circ> mpSequence) (mpdu_of b) ms)"
    if "rxSequence b \<notin> mpSequence ` set ms"
    using window_insort [OF assms(2), of "mpdu_of b"] assms(6-8) that by simp
  then show "delivers pAd e (fst r) (snd r)"
    using L n assms(1-3,5,7,8) seq12_not_reset [OF L] by (simp add: r delivers_def ba_inv_def rl_wf_def)
qed

lemma le_seq_step:
  assumes "baList e = rl_of ms" "P = (\<lambda>m. mpSequence m = W \<or> SEQ_SMALLER (mpSequence m) W)"
  shows "ba_indicate_reordering_mpdus_le_seq pAd e W = Some (release (takeWhile P ms) pAd, e\<lparr>baList := rl_of (dropWhile P ms)\<rparr>)"
  by (simp add: ba_indicate_reordering_mpdus_le_seq_def assms le_seq_loop_release)

text \<open>Storing a frame in a list that may begin with the expected sequence number.\<close>

lemma enqueue_window:
  assumes "baList e = rl_of ms" "window L 1 (unat (baWinSize e)) ms" "\<not> rxEAP b" "rl_wf (baFreelist pAd)" "0 < rlQlen (baFreelist pAd)"
    and "seq12 (rxSequence b)" "1 \<le> seq_dist L (rxSequence b)" "seq_dist L (rxSequence b) \<le> unat (baWinSize e)"
  obtains pAd' ms' evs where "ba_enqueue_reordering_packet pAd e b = Some (pAd', e\<lparr>baList := rl_of ms'\<rparr>)"
    and "window L 1 (unat (baWinSize e)) ms'" "rl_wf (baFreelist pAd')"
    and "rlQlen (baFreelist pAd') + int (length ms') = rlQlen (baFreelist pAd) + int (length ms)"
    and "baEvents pAd' = baEvents pAd @ evs" "delivered evs = []"
proof -
  obtain f fs where f: "baFreelist pAd = rl_of (f # fs)"
    using assms(4,5) by (cases "rlNext (baFreelist pAd)") (auto simp: rl_wf_of rl_of_def)
  have n: "unat (baWinSize e) < 2048"
    using WinSize_less [of e] by simp
  note en = enqueue_step [OF assms(1,2) n assms(3) f assms(6,8)]
  show ?thesis
  proof (cases "rxSequence b \<in> mpSequence ` set ms")
    case True
    then have "ba_enqueue_reordering_packet pAd e b = Some (pAd\<lparr>baFreelist := rl_of (mpdu_of b # fs),
        baEvents := baEvents pAd @ [FreePacket (rxPacket b)]\<rparr>, e\<lparr>baList := rl_of ms\<rparr>)"
      using en assms(1) by simp
    then show ?thesis
      by (rule that [where evs = "[FreePacket (rxPacket b)]"]) (use assms(2) in \<open>simp_all add: rl_wf_def f\<close>)
  next
    case False
    then have "window L 1 (unat (baWinSize e)) (insort_key (seq_dist L \<circ> mpSequence) (mpdu_of b) ms)"
      using window_insort [OF assms(2), of "mpdu_of b"] assms(6-8) by simp
    then show ?thesis
      using en False by (intro that [where evs = "[]" and pAd' = "pAd\<lparr>baFreelist := rl_of fs\<rparr>"
            and ms' = "insort_key (seq_dist L \<circ> mpSequence) (mpdu_of b) ms"]) (simp_all add: rl_wf_def f)
  qed
qed

lemma window_moved:
  assumes "baList e = rl_of ms" "window L 2 (unat (baWinSize e)) ms" "L = baLastIndSeq e" "1 \<le> unat (baWinSize e)"
    and "\<not> rxEAP b" "rl_wf (baFreelist pAd)" "0 < rlQlen (baFreelist pAd)"
    and "seq12 (rxSequence b)" "unat (baWinSize e) < seq_dist L (rxSequence b)" "seq_dist L (rxSequence b) < 2048"
  obtains pAd' e' where "indicate_ampdu_window Now pAd e b = Some (pAd', e')" "delivers pAd e pAd' e'"
    and "seq_dist L (baLastIndSeq e') < 2048" "baLastIndSeqAtTimer e' = Now"
proof -
  let ?S = "rxSequence b" and ?n = "unat (baWinSize e)"
  define WS :: u16 where "WS = word_of_int ((if uint ?S - uint (baWinSize e) - 1 < 0 then 4096 + (uint ?S - uint (baWinSize e) - 1)
    else uint ?S - uint (baWinSize e) - 1) + 1) AND 0xfff"
  define P :: "reordering_mpdu \<Rightarrow> bool" where "P = (\<lambda>m. mpSequence m = WS \<or> SEQ_SMALLER (mpSequence m) WS)"
  have L: "seq12 L" and n: "?n < 256"
    using window_seq12 [OF assms(2)] WinSize_less [of e] by auto
  note WS = win_start [OF assms(8) WS_def]
  have k: "seq_dist L WS = seq_dist L ?S - ?n"
    using WS L assms(8,9) by (auto simp: seq_dist_if split: if_splits)
  have kl: "seq_dist L WS < 2048"
    using k assms(10) by linarith
  have n': "?n < 2048" using n by simp
  note le = le_seq_window [OF assms(2) n' WS(1) kl P_def]
  let ?e1 = "e\<lparr>baList := rl_of (dropWhile P ms), baLastIndSeq := WS, baLastIndSeqAtTimer := Now\<rparr>"
  let ?pAd1 = "release (takeWhile P ms) pAd"
  have "window WS 1 ?n (dropWhile P ms)"
    using le(1) by (rule window_mono) simp_all
  moreover have "0 < rlQlen (baFreelist ?pAd1)"
    using assms(7) by (simp add: release_freelist)
  ultimately obtain pAd2 ms2 x where en: "ba_enqueue_reordering_packet ?pAd1 ?e1 b = Some (pAd2, ?e1\<lparr>baList := rl_of ms2\<rparr>)"
    "window WS 1 ?n ms2" "rl_wf (baFreelist pAd2)"
    "rlQlen (baFreelist pAd2) + int (length ms2) = rlQlen (baFreelist ?pAd1) + int (length (dropWhile P ms))"
    "baEvents pAd2 = baEvents ?pAd1 @ x" "delivered x = []"
    using enqueue_window [of ?e1 "dropWhile P ms" WS b ?pAd1] assms(4,5,8) WS release_wf [OF assms(6)] by auto
  let ?e2 = "?e1\<lparr>baList := rl_of ms2\<rparr>" and ?p = "in_order_prefix WS ms2"
  let ?e3 = "?e2\<lparr>baList := rl_of (drop (length ?p) ms2), baLastIndSeq := last_seq WS ?p\<rparr>"
  obtain T where T: "ba_indicate_reordering_mpdus_in_order pAd2 ?e2 WS = Some (release ?p pAd2, ?e2\<lparr>baList := rl_of (drop (length ?p) ms2)\<rparr>, T)"
    "(if T \<noteq> 0xffff then ?e2\<lparr>baList := rl_of (drop (length ?p) ms2), baLastIndSeq := T\<rparr> else ?e2\<lparr>baList := rl_of (drop (length ?p) ms2)\<rparr>) = ?e3"
    using in_order_step [of ?e2 ms2 ?n ?p pAd2] en(2) by auto
  have D: "delivers pAd2 ?e2 (release ?p pAd2) ?e3" "seq_dist WS (last_seq WS ?p) = length ?p" "length ?p \<le> ?n"
    using in_order_delivers [of WS ?e2 ms2 ?p pAd2 ?e3] en(2,3) assms(4) by auto
  have "0 < seq_dist L (mpSequence m)" if "m \<in> set (takeWhile P ms)" for m
    using le(3) [OF that] by linarith
  then have up: "upwards L (map snd (delivered (map announce_event (takeWhile P ms) @ x))) WS"
    using le(2,3) WS(1) by (auto simp: en(6) upwards_def o_def)
  have sum: "seq_dist L WS + seq_dist WS (last_seq WS ?p) < 2048"
    using D(2,3) k assms(9,10) by linarith
  have len: "length ms = length (takeWhile P ms) + length (dropWhile P ms)"
    by (metis length_append takeWhile_dropWhile_id)
  have "delivers pAd e (release ?p pAd2) ?e3"
    by (rule delivers_after [OF D(1), where xs = "map announce_event (takeWhile P ms) @ x"])
      (use up sum L en(4,5) assms(1,3) len in \<open>simp_all add: release_events release_freelist\<close>)
  moreover have "seq_dist L (last_seq WS ?p) < 2048"
    using seq_dist_add [OF L WS(1) _ order.strict_trans [OF sum]] delivers_seq12 [OF D(1)] sum by simp
  moreover have "indicate_ampdu_window Now pAd e b = Some (release ?p pAd2, ?e3)"
  proof -
    note br = window_branch [OF L assms(8), of "(L + ucast (baWinSize e) + 1) AND 0xfff" e, OF refl]
    have lp: "ba_indicate_reordering_mpdus_le_seq pAd e WS = Some (?pAd1, e\<lparr>baList := rl_of (dropWhile P ms)\<rparr>)"
      by (rule le_seq_step [OF assms(1) P_def])
    show ?thesis
      unfolding indicate_ampdu_window_def Let_def WS_def [symmetric]
      using br(1-3) br(4) [OF assms(10)] assms(3,4,9,10) seq12_not_reset [OF L] lp en(1) T
      by (cases "T = 0xffff") simp_all
  qed
  ultimately show ?thesis
    by (intro that [of "release ?p pAd2" ?e3]) simp_all
qed


lemma window_delivers:
  assumes "ba_inv e" "baLastIndSeq e \<noteq> 0xffff" "\<not> rxEAP b" "rl_wf (baFreelist pAd)" "0 < rlQlen (baFreelist pAd)" "seq12 (rxSequence b)"
  obtains pAd' e' where "indicate_ampdu_window Now pAd e b = Some (pAd', e')" "delivers pAd e pAd' e'"
    and "seq_dist (baLastIndSeq e) (baLastIndSeq e') < 2048"
proof -
  let ?L = "baLastIndSeq e" and ?S = "rxSequence b"
  obtain ms where ms: "baList e = rl_of ms" "window ?L 2 (unat (baWinSize e)) ms"
    using ba_inv_window [OF assms(1,2)] .
  have L: "seq12 ?L" and n: "1 \<le> unat (baWinSize e)"
    using window_seq12 [OF ms(2)] assms(1) by (auto simp: ba_inv_def)
  obtain f fs where f: "baFreelist pAd = rl_of (f # fs)"
    using assms(4,5) by (cases "rlNext (baFreelist pAd)") (auto simp: rl_wf_of rl_of_def)
  note br = window_branch [OF L assms(6), of "(?L + ucast (baWinSize e) + 1) AND 0xfff" e, OF refl]
  consider "seq_dist ?L ?S = 1" | "seq_dist ?L ?S = 0 \<or> 2048 \<le> seq_dist ?L ?S"
    | "2 \<le> seq_dist ?L ?S" "seq_dist ?L ?S \<le> unat (baWinSize e)"
    | "unat (baWinSize e) < seq_dist ?L ?S" "seq_dist ?L ?S < 2048"
    by linarith
  then show ?thesis
  proof cases
    case 1
    then have "SEQ_STEPONE ?S ?L"
      using br(1) by simp
    then show ?thesis
      by (rule window_in_order [OF ms refl n assms(4,6), of Now]) (rule that, assumption+, linarith)
  next
    case 2
    then show ?thesis
      using window_dropped [OF assms(1) refl assms(2,4,6)] br(2,3) L by (intro that) auto
  next
    case 3
    note st = window_stored [OF ms refl assms(3) f assms(6) 3 refl]
    show ?thesis
      by (rule that [OF _ st(2)]) (use L in \<open>simp_all add: st(1)\<close>)
  next
    case 4
    show ?thesis
      by (rule window_moved [OF ms refl n assms(3-6) 4, of Now]) (rule that)
  qed
qed

text \<open>The list is given up and the window closed when it has been waiting for too long.\<close>

definition list_expired :: "nat \<Rightarrow> u64 \<Rightarrow> ba_rec_entry \<Rightarrow> bool" where
  "list_expired hz Now32 e \<longleftrightarrow>
     RTMP_TIME_AFTER Now32 (baLastIndSeqAtTimer e + of_nat (MAX_REORDERING_PACKET_TIMEOUT hz div 6)) \<and> 1 < rlQlen (baList e)"

lemma flush_expired:
  assumes "list_expired hz Now e" "baList e = rl_of ms"
  shows "ba_flush_reordering_timeout_mpdus hz pAd e Now =
    Some (release ms pAd, e\<lparr>baList := rl_of [], baLastIndSeq := 0xffff, baLastIndSeqAtTimer := Now\<rparr>)"
proof -
  obtain L where "refresh_loop pAd e = (release ms pAd, e\<lparr>baList := rl_of [], baLastIndSeq := L\<rparr>)"
    using refresh_loop_release [OF assms(2)] by blast
  then show ?thesis
    using assms by (auto simp: ba_flush_reordering_timeout_mpdus_def list_expired_def ba_refresh_reordering_mpdus_def)
qed

lemma flush_delivers:
  assumes "ba_inv e" "baLastIndSeq e \<noteq> 0xffff" "rl_wf (baFreelist pAd)" "\<not> list_expired hz Now e"
  obtains pAd' e' where "ba_flush_reordering_timeout_mpdus hz pAd e Now = Some (pAd', e')" "delivers pAd e pAd' e'"
    and "seq_dist (baLastIndSeq e) (baLastIndSeq e') \<le> 256" "rlQlen (baFreelist pAd) \<le> rlQlen (baFreelist pAd')"
proof (cases "RTMP_TIME_AFTER Now (baLastIndSeqAtTimer e + REORDERING_PACKET_TIMEOUT hz) \<and> rlQlen (baList e) > 0")
  case False
  have "seq12 (baLastIndSeq e)"
    using assms(1,2) by (auto simp: ba_inv_def window_def)
  then have "delivers pAd e pAd e" "seq_dist (baLastIndSeq e) (baLastIndSeq e) \<le> 256"
    using assms(1-3) by (auto simp: delivers_def)
  then show ?thesis
    using False assms(4) by (intro that [of pAd e]) (auto simp: ba_flush_reordering_timeout_mpdus_def list_expired_def)
next
  case True
  let ?L = "baLastIndSeq e" and ?n = "unat (baWinSize e)"
  obtain ms where ms: "baList e = rl_of ms" "window ?L 2 ?n ms"
    using ba_inv_window [OF assms(1,2)] .
  have L: "seq12 ?L" and n: "1 \<le> ?n" "?n < 256"
    using window_seq12 [OF ms(2)] assms(1) WinSize_less [of e] by (auto simp: ba_inv_def)
  define S where "S = (?L + 1) AND 0xfff"
  have S: "seq12 S" "seq_dist ?L S = 1"
    using L SEQ_STEPONE_dist [of S ?L] by (simp_all add: S_def SEQ_STEPONE_def)
  define P :: "reordering_mpdu \<Rightarrow> bool" where "P = (\<lambda>m. mpSequence m = S \<or> SEQ_SMALLER (mpSequence m) S)"
  have "?n < 2048" "seq_dist ?L S < 2048"
    using n S by simp_all
  note le = le_seq_window [OF ms(2) this(1) S(1) this(2) P_def]
  have "m \<notin> set (takeWhile P ms)" for m
    using le(3) [of m] S(2) by linarith
  then have none: "takeWhile P ms = []"
    by (metis list.set_intros(1) neq_Nil_conv)
  then have "dropWhile P ms = ms"
    using takeWhile_dropWhile_id [of P ms] by simp
  then have lp: "ba_indicate_reordering_mpdus_le_seq pAd e S = Some (pAd, e\<lparr>baList := rl_of ms\<rparr>)"
    using le_seq_step [OF ms(1) P_def] none by simp
  have w: "window S 1 ?n ms"
    using le(1) \<open>dropWhile P ms = ms\<close> by (auto elim!: window_mono)
  let ?e = "e\<lparr>baList := rl_of ms, baLastIndSeqAtTimer := Now, baLastIndSeq := S\<rparr>" and ?p = "in_order_prefix S ms"
  let ?e' = "?e\<lparr>baList := rl_of (drop (length ?p) ms), baLastIndSeq := last_seq S ?p\<rparr>"
  obtain T where T: "ba_indicate_reordering_mpdus_in_order pAd ?e S = Some (release ?p pAd, ?e\<lparr>baList := rl_of (drop (length ?p) ms)\<rparr>, T)"
    "(if T \<noteq> 0xffff then ?e\<lparr>baList := rl_of (drop (length ?p) ms), baLastIndSeq := T\<rparr> else ?e\<lparr>baList := rl_of (drop (length ?p) ms)\<rparr>) = ?e'"
    using in_order_step [of ?e ms ?n ?p pAd] w by auto
  have D: "delivers pAd ?e (release ?p pAd) ?e'" "seq_dist S (last_seq S ?p) = length ?p" "length ?p \<le> ?n"
    using in_order_delivers [of S ?e ms ?p pAd ?e'] w n assms(3) by auto
  have sum: "seq_dist ?L S + seq_dist S (last_seq S ?p) < 4096"
    using D(2,3) S n by linarith
  have "delivers pAd e (release ?p pAd) ?e'"
    by (rule delivers_after [OF D(1), where xs = "[]"]) (use L S sum ms(1) in simp_all)
  moreover have "seq_dist ?L (last_seq S ?p) \<le> 256"
    using seq_dist_add [OF L S(1) _ sum] delivers_seq12 [OF D(1)] D(2,3) S n by simp
  moreover have "ba_flush_reordering_timeout_mpdus hz pAd e Now = Some (release ?p pAd, ?e')"
    using True assms(4) lp T unfolding ba_flush_reordering_timeout_mpdus_def list_expired_def S_def [symmetric] Let_def
    by (cases "T = 0xffff") auto
  ultimately show ?thesis
    by (intro that [of "release ?p pAd" ?e']) (simp_all add: release_freelist)
qed


section \<open>No packet is lost\<close>

text \<open>The packets that have been passed on or freed, together with the ones a session holds.\<close>

definition gone :: "ba_adapter \<Rightarrow> packet multiset" where
  "gone pAd = mset (map ev_packet (baEvents pAd))"

definition held :: "ba_rec_entry \<Rightarrow> packet multiset" where
  "held e = mset (map mpPacket (rlNext (baList e)))"

lemma ev_packet_announce [simp]: "ev_packet (announce_event m) = mpPacket m"
  by (simp add: announce_event_def)

lemma gone_simps [simp]:
  "gone (release ms pAd) = gone pAd + mset (map mpPacket ms)"
  "gone (ba_emit ev pAd) = add_mset (ev_packet ev) (gone pAd)"
  "gone (INDICATE_LEGACY_OR_AMSDU pAd b) = add_mset (rxPacket b) (gone pAd)"
  "gone (pAd\<lparr>baFreelist := l\<rparr>) = gone pAd"
  "gone (ba_mpdu_blk_free pAd m) = gone pAd"
  by (simp_all add: gone_def release_events ba_emit_def ba_mpdu_blk_free_def o_def)

lemma held_of [simp]: "baList e = rl_of ms \<Longrightarrow> held e = mset (map mpPacket ms)"
  by (simp add: held_def)

text \<open>An operation accounts for the packets \<open>X\<close> that it takes over.\<close>

definition accounts :: "packet multiset \<Rightarrow> ba_adapter \<Rightarrow> ba_rec_entry \<Rightarrow> (ba_adapter \<times> ba_rec_entry) option \<Rightarrow> bool" where
  "accounts X pAd e r \<longleftrightarrow> (case r of None \<Rightarrow> False | Some (pAd', e') \<Rightarrow>
     rl_wf (baList e') \<and> gone pAd' + held e' = gone pAd + held e + X)"

lemma accounts_Some [simp]:
  "accounts X pAd e (Some (pAd', e')) \<longleftrightarrow> rl_wf (baList e') \<and> gone pAd' + held e' = gone pAd + held e + X"
  by (simp add: accounts_def)

lemma accounts_le_seq:
  assumes "rl_wf (baList e)"
  shows "accounts {#} pAd e (ba_indicate_reordering_mpdus_le_seq pAd e S)"
proof -
  obtain ms where ms: "baList e = rl_of ms"
    using assms rl_wf_of by blast
  let ?P = "\<lambda>m. mpSequence m = S \<or> SEQ_SMALLER (mpSequence m) S"
  have "mset (map mpPacket ms) = mset (map mpPacket (takeWhile ?P ms)) + mset (map mpPacket (dropWhile ?P ms))"
    by (metis map_append mset_append takeWhile_dropWhile_id)
  then show ?thesis
    by (simp add: le_seq_step [OF ms refl] ms rl_wf_def)
qed

lemma accounts_in_order:
  assumes "rl_wf (baList e)"
  obtains pAd' e' T where "ba_indicate_reordering_mpdus_in_order pAd e S = Some (pAd', e', T)"
    "rl_wf (baList e')" "gone pAd' + held e' = gone pAd + held e"
proof -
  obtain ms where ms: "baList e = rl_of ms"
    using assms rl_wf_of by blast
  let ?p = "in_order_prefix S ms"
  have "in_order_prefix S ms @ drop (length (in_order_prefix S ms)) ms = ms"
    by (induction S ms rule: in_order_prefix.induct) auto
  then have "mset (map mpPacket ms) = mset (map mpPacket ?p) + mset (map mpPacket (drop (length ?p) ms))"
    by (metis map_append mset_append)
  then show ?thesis
    using that ms by (auto simp: ba_indicate_reordering_mpdus_in_order_def in_order_loop_release rl_wf_def)
qed

lemma accounts_flush:
  assumes "rl_wf (baList e)"
  shows "accounts {#} pAd e (ba_flush_reordering_timeout_mpdus hz pAd e Now)"
proof -
  obtain ms where ms: "baList e = rl_of ms"
    using assms rl_wf_of by blast
  let ?S = "(baLastIndSeq e + 1) AND 0xfff"
  consider "rlQlen (baList e) \<le> 0" | "list_expired hz Now e" | "0 < rlQlen (baList e)" "\<not> list_expired hz Now e"
    by linarith
  then show ?thesis
  proof cases
    case 1
    then show ?thesis
      using assms by (simp add: ba_flush_reordering_timeout_mpdus_def)
  next
    case 2
    show ?thesis
      unfolding flush_expired [OF 2 ms] by (simp add: ms rl_wf_def)
  next
    case 3
    obtain pAd1 e1 where 1: "ba_indicate_reordering_mpdus_le_seq pAd e ?S = Some (pAd1, e1)" "rl_wf (baList e1)"
      "gone pAd1 + held e1 = gone pAd + held e"
      using accounts_le_seq [OF assms, of pAd ?S] by (auto simp: accounts_def split: option.splits)
    let ?e = "e1\<lparr>baLastIndSeqAtTimer := Now, baLastIndSeq := ?S\<rparr>"
    obtain pAd2 e2 T where 2: "ba_indicate_reordering_mpdus_in_order pAd1 ?e ?S = Some (pAd2, e2, T)" "rl_wf (baList e2)"
      "gone pAd2 + held e2 = gone pAd1 + held ?e"
      using accounts_in_order [of ?e pAd1 ?S] 1(2) by auto
    show ?thesis
      using 3 1 2 assms unfolding ba_flush_reordering_timeout_mpdus_def list_expired_def Let_def
      by (auto simp: held_def)
  qed
qed

lemma accounts_enqueue:
  assumes "rl_wf (baList e)"
  shows "accounts {#rxPacket b#} pAd e (ba_enqueue_reordering_packet pAd e b)"
proof -
  obtain ms where ms: "baList e = rl_of ms"
    using assms rl_wf_of by blast
  obtain blk l where al: "ba_mpdu_blk_alloc pAd = (blk, pAd\<lparr>baFreelist := l\<rparr>)"
    by (cases "ba_dequeue (baFreelist pAd)"; cases "fst (ba_dequeue (baFreelist pAd))") (auto simp: ba_mpdu_blk_alloc_def)
  have scan: "mset xs = add_mset m (mset ms)" if "insertsorted_scan ms m = Some xs" for xs m
    using that by (induction ms m arbitrary: xs rule: insertsorted_scan.induct) (auto split: if_splits)
  show ?thesis
  proof (cases "blk \<noteq> None \<and> \<not> rxEAP b")
    case True
    show ?thesis
    proof (cases "insertsorted_scan ms (mpdu_of b)")
      case None
      then show ?thesis
        using True by (simp add: ba_enqueue_reordering_packet_def Let_def al ms ba_reordering_mpdu_insertsorted_def
            rl_wf_def flip: mpdu_of_def)
    next
      case (Some xs)
      have "size (mset xs) = Suc (length ms)" "mset (map mpPacket xs) = add_mset (rxPacket b) (mset (map mpPacket ms))"
        using scan [OF Some] by (simp_all flip: size_mset)
      then show ?thesis
        using True Some by (simp add: ba_enqueue_reordering_packet_def Let_def al ms ba_reordering_mpdu_insertsorted_def
            rl_wf_def held_def flip: mpdu_of_def)
    qed
  next
    case False
    obtain pAd1 e1 where 1: "ba_indicate_reordering_mpdus_le_seq (pAd\<lparr>baFreelist := l\<rparr>) e (rxSequence b) = Some (pAd1, e1)"
      "rl_wf (baList e1)" "gone pAd1 + held e1 = gone pAd + held e"
      using accounts_le_seq [OF assms, of "pAd\<lparr>baFreelist := l\<rparr>" "rxSequence b"] by (auto simp: accounts_def split: option.splits)
    then show ?thesis
      using False by (auto simp: ba_enqueue_reordering_packet_def Let_def al held_def)
  qed
qed

lemma accounts_window:
  assumes "rl_wf (baList e)"
  shows "accounts {#rxPacket b#} pAd e (indicate_ampdu_window Now pAd e b)"
proof -
  let ?S = "rxSequence b" and ?L = "baLastIndSeq e"
  define WS :: u16 where "WS = word_of_int ((if uint ?S - uint (baWinSize e) - 1 < 0 then 4096 + (uint ?S - uint (baWinSize e) - 1)
    else uint ?S - uint (baWinSize e) - 1) + 1) AND 0xfff"
  obtain pAd1 e1 T1 where 1: "ba_indicate_reordering_mpdus_in_order (INDICATE_LEGACY_OR_AMSDU pAd b) (e\<lparr>baLastIndSeq := ?S\<rparr>) ?S = Some (pAd1, e1, T1)"
    "rl_wf (baList e1)" "gone pAd1 + held e1 = add_mset (rxPacket b) (gone pAd + held e)"
    using accounts_in_order [of "e\<lparr>baLastIndSeq := ?S\<rparr>" "INDICATE_LEGACY_OR_AMSDU pAd b" ?S] assms by (auto simp: held_def)
  obtain pAd2 e2 where 2: "ba_indicate_reordering_mpdus_le_seq pAd e WS = Some (pAd2, e2)" "rl_wf (baList e2)"
    "gone pAd2 + held e2 = gone pAd + held e"
    using accounts_le_seq [OF assms, of pAd WS] by (auto simp: accounts_def split: option.splits)
  let ?e2 = "e2\<lparr>baLastIndSeq := WS, baLastIndSeqAtTimer := Now\<rparr>"
  obtain pAd3 e3 where 3: "ba_enqueue_reordering_packet pAd2 ?e2 b = Some (pAd3, e3)" "rl_wf (baList e3)"
    "gone pAd3 + held e3 = add_mset (rxPacket b) (gone pAd2 + held e2)"
    using accounts_enqueue [of ?e2 b pAd2] 2(2) by (auto simp: accounts_def held_def split: option.splits)
  obtain pAd4 e4 T4 where 4: "ba_indicate_reordering_mpdus_in_order pAd3 e3 (baLastIndSeq e3) = Some (pAd4, e4, T4)"
    "rl_wf (baList e4)" "gone pAd4 + held e4 = gone pAd3 + held e3"
    using accounts_in_order [OF 3(2)] by metis
  show ?thesis
    unfolding indicate_ampdu_window_def Let_def WS_def [symmetric]
    using 1 2 3 4 assms accounts_enqueue [OF assms, of b pAd] by (simp add: held_def)
qed

lemma accounts_entry:
  assumes "rl_wf (baList e)"
  shows "accounts {#rxPacket b#} pAd e (indicate_ampdu_entry hz Now pAd e b)"
proof -
  let ?e = "e\<lparr>baRcvSeq := ucast (rxSequence b)\<rparr>"
  obtain pAd1 e1 where 1: "ba_flush_reordering_timeout_mpdus hz pAd ?e Now = Some (pAd1, e1)" "rl_wf (baList e1)"
    "gone pAd1 + held e1 = gone pAd + held e"
    using accounts_flush [of ?e pAd hz Now] assms by (auto simp: accounts_def held_def split: option.splits)
  show ?thesis
    using accounts_window [of "e1\<lparr>baLastIndSeqAtTimer := Now\<rparr>" b pAd1 Now] 1
    by (auto simp: indicate_ampdu_entry_def accounts_def held_def split: option.splits)
qed


lemma window_length:
  assumes "window L 2 n ms"
  shows "length ms \<le> n - 1"
proof -
  let ?ds = "map (seq_dist L \<circ> mpSequence) ms"
  have "sorted_wrt (<) ?ds" "set ?ds \<subseteq> {2..n}"
    using assms by (auto simp: window_def sorted_wrt_map)
  then have "distinct ?ds" "set ?ds \<subseteq> {2..n}"
    by (simp_all only: strict_sorted_iff)
  then have "length ?ds \<le> card {2..n}"
    by (metis card_mono distinct_card finite_atLeastAtMost)
  then show ?thesis
    by simp
qed

lemma entry_delivers:
  assumes "ba_inv e" "baLastIndSeq e \<noteq> 0xffff" "\<not> rxEAP b" "rl_wf (baFreelist pAd)" "0 < rlQlen (baFreelist pAd)"
    and "seq12 (rxSequence b)" "\<not> list_expired hz Now e"
  obtains pAd' e' where "indicate_ampdu_entry hz Now pAd e b = Some (pAd', e')" "delivers pAd e pAd' e'"
proof -
  let ?e = "e\<lparr>baRcvSeq := ucast (rxSequence b)\<rparr>"
  have "ba_inv ?e" "\<not> list_expired hz Now ?e"
    using assms(1,7) by (simp_all add: ba_inv_def list_expired_def)
  then obtain pAd1 e1 where 1: "ba_flush_reordering_timeout_mpdus hz pAd ?e Now = Some (pAd1, e1)" "delivers pAd e pAd1 e1"
    "seq_dist (baLastIndSeq e) (baLastIndSeq e1) \<le> 256" "rlQlen (baFreelist pAd) \<le> rlQlen (baFreelist pAd1)"
    using flush_delivers [of ?e pAd hz Now] assms(2,4) by auto
  let ?e1 = "e1\<lparr>baLastIndSeqAtTimer := Now\<rparr>"
  have "ba_inv ?e1" "baLastIndSeq ?e1 \<noteq> 0xffff" "rl_wf (baFreelist pAd1)" "0 < rlQlen (baFreelist pAd1)"
    using 1 assms(5) by (auto simp: delivers_def ba_inv_def)
  then obtain pAd2 e2 where 2: "indicate_ampdu_window Now pAd1 ?e1 b = Some (pAd2, e2)" "delivers pAd1 e1 pAd2 e2"
    "seq_dist (baLastIndSeq e1) (baLastIndSeq e2) < 2048"
    using window_delivers [of ?e1 b pAd1 Now] assms(3,6) by auto
  have "seq12 (baLastIndSeq e)"
    using assms(1,2) by (auto simp: ba_inv_def window_def)
  then have "delivers pAd e pAd2 e2"
    using delivers_trans [OF 1(2) 2(2)] 1(3) 2(3) by simp
  then show ?thesis
    using 1(1) 2(1) by (intro that) (simp_all add: indicate_ampdu_entry_def)
qed

text \<open>A closed window: the next frame opens it.\<close>

lemma entry_opens:
  assumes "baLastIndSeq e = 0xffff \<and> baList e = rl_of [] \<and> ms = [] \<or> list_expired hz Now e \<and> baList e = rl_of ms"
  obtains e' where "indicate_ampdu_entry hz Now pAd e b = Some (INDICATE_LEGACY_OR_AMSDU (release ms pAd) b, e')"
    and "baLastIndSeq e' = rxSequence b" "baList e' = rl_of []" "baWinSize e' = baWinSize e"
proof -
  let ?e = "e\<lparr>baRcvSeq := ucast (rxSequence b)\<rparr>"
  obtain e1 where "ba_flush_reordering_timeout_mpdus hz pAd ?e Now = Some (release ms pAd, e1)" "baLastIndSeq e1 = 0xffff"
    "baList e1 = rl_of []" "baWinSize e1 = baWinSize e"
    using assms
  proof
    assume "baLastIndSeq e = 0xffff \<and> baList e = rl_of [] \<and> ms = []"
    then show thesis
      by (intro that [of ?e]) (simp_all add: ba_flush_reordering_timeout_mpdus_def)
  next
    assume "list_expired hz Now e \<and> baList e = rl_of ms"
    then have "list_expired hz Now ?e" "baList ?e = rl_of ms"
      by (auto simp: list_expired_def)
    then show thesis
      by (intro that [OF flush_expired]) simp_all
  qed
  then show ?thesis
    by (intro that [of "e1\<lparr>baLastIndSeq := rxSequence b, baLastIndSeqAtTimer := Now\<rparr>"])
      (auto simp: indicate_ampdu_entry_def indicate_ampdu_window_def)
qed

section \<open>Properties\<close>

definition ex_pool :: ba_adapter where
  "ex_pool = \<lparr>baFreelist = rl_of [zero_mpdu, zero_mpdu, zero_mpdu], baEvents = []\<rparr>"

definition ex_mpdu :: "u16 \<Rightarrow> reordering_mpdu" where
  "ex_mpdu s = \<lparr>mpPacket = unat s, mpSequence = s, mpAMSDU = False, mpOpMode = 0\<rparr>"

text \<open>A session that has delivered 4094 and holds 0 and 1, with 4095 missing.\<close>

definition ex_entry :: ba_rec_entry where
  "ex_entry = \<lparr>baWcid = 1, baTID = 0, baWinSize = 8, baLastIndSeq = 4094, baTimeOutValue = 0, baLastIndSeqAtTimer = 1000,
     baDropPacket = 0, baRcvSeq = 0, baStatus = Recipient_Accept, baList = rl_of [ex_mpdu 0, ex_mpdu 1]\<rparr>"

definition ex_frame :: "u16 \<Rightarrow> bool \<Rightarrow> rx_blk" where
  "ex_frame s eap = \<lparr>rxPacket = unat s, rxSequence = s, rxAMSDU = False, rxEAP = eap, rxDataSize = 100, rxOpMode = 0\<rparr>"

lemma ex_entry_inv: "ba_inv ex_entry"
  by (simp add: ba_inv_def ex_entry_def ex_mpdu_def rl_wf_def window_Cons seq_dist_def)

lemma ex_pool_wf: "rl_wf (baFreelist ex_pool)" "0 < rlQlen (baFreelist ex_pool)"
  by (simp_all add: ex_pool_def rl_wf_def)

lemma ex_not_expired: "\<not> list_expired 250 1010 ex_entry"
  by (simp add: list_expired_def RTMP_TIME_AFTER_def ex_entry_def MAX_REORDERING_PACKET_TIMEOUT_def)






definition ex_state :: ba_rx_state where
  "ex_state = \<lparr>brAdapter = ex_pool, brEntries = [ex_entry, ex_entry], brWcidArray = (\<lambda>wcid TID. if wcid = 1 then 1 else 0)\<rparr>"

text \<open>
  No packet is lost or used twice (C9). Whatever the frame and the state of its session, the pool and the timers, every packet that \<^verbatim>\<open>Indicate_AMPDU_Packet\<close> takes
  over is afterwards passed on, freed or held in a reordering list, exactly once.
\<close>

theorem Indicate_AMPDU_Packet_conserves:
  assumes "\<forall>e\<in>set (brEntries s). rl_wf (baList e)" "brWcidArray s wcid TID < length (brEntries s)"
  shows "\<exists>s'. Indicate_AMPDU_Packet n hz Now s wcid TID b = Some s' \<and> (\<forall>e\<in>set (brEntries s'). rl_wf (baList e))
    \<and> gone (brAdapter s') + (\<Sum>e\<leftarrow>brEntries s'. held e) = gone (brAdapter s) + (\<Sum>e\<leftarrow>brEntries s. held e) + {#rxPacket b#}"
proof -
  let ?i = "brWcidArray s wcid TID" and ?es = "brEntries s"
  have "rl_wf (baList (?es ! ?i))"
    using assms by simp
  then obtain pAd e where e: "indicate_ampdu_entry hz Now (brAdapter s) (?es ! ?i) b = Some (pAd, e)" "rl_wf (baList e)"
    "gone pAd + held e = gone (brAdapter s) + held (?es ! ?i) + {#rxPacket b#}"
    using accounts_entry [of "?es ! ?i" b "brAdapter s" hz Now] by (auto simp: accounts_def split: option.splits)
  define R where "R = (\<Sum>e\<leftarrow>take ?i ?es. held e) + (\<Sum>e\<leftarrow>drop (Suc ?i) ?es. held e)"
  have "(\<Sum>e\<leftarrow>?es. held e) = held (?es ! ?i) + R"
    unfolding R_def by (subst id_take_nth_drop [OF assms(2)]) simp
  moreover have "(\<Sum>e\<leftarrow>?es[?i := e]. held e) = held e + R"
    unfolding R_def using assms(2) by (simp add: upd_conv_take_nth_drop)
  ultimately have "gone pAd + (\<Sum>e\<leftarrow>?es[?i := e]. held e) = gone (brAdapter s) + (\<Sum>e\<leftarrow>?es. held e) + {#rxPacket b#}"
    using e(3) by simp
  moreover have "\<forall>x\<in>set (?es[?i := e]). rl_wf (baList x)"
    using assms(1) e(2) set_update_subset_insert by fastforce
  ultimately show ?thesis
    using assms e(1) by (auto simp: Indicate_AMPDU_Packet_def Let_def)
qed

theorem Indicate_AMPDU_Packet_conserves_witness:
  "\<exists>s'. Indicate_AMPDU_Packet 8 250 1010 ex_state 1 0 (ex_frame 4095 True) = Some s'
    \<and> gone (brAdapter s') + (\<Sum>e\<leftarrow>brEntries s'. held e) = {#0, 1, 0, 1, 4095#}"
  using Indicate_AMPDU_Packet_conserves [of ex_state 1 0 8 250 1010 "ex_frame 4095 True"]
  by (auto simp: ex_state_def ex_entry_def ex_pool_def ex_mpdu_def ex_frame_def rl_wf_def gone_def held_def)

text \<open>
  A block is lost for every EAP frame that is out of order (C40). When \<^verbatim>\<open>ba_enqueue_reordering_packet\<close> is called for an EAP frame and a block is free, the block it has
  allocated is neither stored nor given back: the pool and the list together have one block less.
\<close>

theorem ba_enqueue_EAP_leak:
  assumes "rl_wf (baList e)" "rl_wf (baFreelist pAd)" "0 < rlQlen (baFreelist pAd)" "rxEAP b"
  shows "\<exists>pAd' e'. ba_enqueue_reordering_packet pAd e b = Some (pAd', e')
    \<and> rlQlen (baFreelist pAd') + rlQlen (baList e') = rlQlen (baFreelist pAd) + rlQlen (baList e) - 1"
proof -
  obtain ms f fs where ms: "baList e = rl_of ms" and f: "baFreelist pAd = rl_of (f # fs)"
    using assms(1-3) by (cases "rlNext (baFreelist pAd)") (auto simp: rl_wf_of rl_of_def)
  have "ba_mpdu_blk_alloc pAd = (Some zero_mpdu, pAd\<lparr>baFreelist := rl_of fs\<rparr>)"
    by (simp add: ba_mpdu_blk_alloc_def f)
  moreover have "int (length (takeWhile P ms)) + int (length (dropWhile P ms)) = int (length ms)" for P :: "reordering_mpdu \<Rightarrow> bool"
    by (metis length_append of_nat_add takeWhile_dropWhile_id)
  ultimately show ?thesis
    using assms(4) by (simp add: ba_enqueue_reordering_packet_def Let_def le_seq_step [OF ms refl] release_freelist ms f)
qed

theorem ba_enqueue_EAP_leak_witness:
  "\<exists>pAd' e'. ba_enqueue_reordering_packet ex_pool ex_entry (ex_frame 2 True) = Some (pAd', e')
    \<and> rlQlen (baFreelist pAd') + rlQlen (baList e') = 4"
  using ba_enqueue_EAP_leak [of ex_entry ex_pool "ex_frame 2 True"]
  by (auto simp: ex_frame_def ex_entry_def ex_pool_def rl_wf_def)


section \<open>Every frame of a window is delivered\<close>

text \<open>Frames that arrive one after the other, each with its time of arrival.\<close>

fun receive_frames :: "nat \<Rightarrow> ba_adapter \<Rightarrow> ba_rec_entry \<Rightarrow> (u64 \<times> rx_blk) list \<Rightarrow> (ba_adapter \<times> ba_rec_entry) option" where
  "receive_frames hz pAd e [] = Some (pAd, e)"
| "receive_frames hz pAd e ((t, b) # xs) =
     (case indicate_ampdu_entry hz t pAd e b of None \<Rightarrow> None | Some (pAd, e) \<Rightarrow> receive_frames hz pAd e xs)"

text \<open>No frame arrives so late after the one before it that the list is flushed.\<close>

fun on_time :: "nat \<Rightarrow> u64 \<Rightarrow> u64 list \<Rightarrow> bool" where
  "on_time hz t [] \<longleftrightarrow> True"
| "on_time hz t (u # us) \<longleftrightarrow> \<not> RTMP_TIME_AFTER u (t + REORDERING_PACKET_TIMEOUT hz)
     \<and> \<not> RTMP_TIME_AFTER u (t + of_nat (MAX_REORDERING_PACKET_TIMEOUT hz div 6)) \<and> on_time hz u us"

abbreviation rx_frame :: "rx_blk \<Rightarrow> packet \<times> u16" where
  "rx_frame b \<equiv> (rxPacket b, rxSequence b)"

text \<open>
  The state after the frames \<open>A\<close>: the delivered ones follow \<open>L\<close> without a gap, the others wait in the list, and
  there are blocks for \<open>n\<close> frames.
\<close>

definition received :: "u16 \<Rightarrow> nat \<Rightarrow> ba_event list \<Rightarrow> (packet \<times> u16) list \<Rightarrow> ba_adapter \<Rightarrow> ba_rec_entry \<Rightarrow> bool" where
  "received L n evs0 A pAd e \<longleftrightarrow> (\<exists>evs ms fs. baEvents pAd = evs0 @ evs \<and> baList e = rl_of ms \<and> baFreelist pAd = rl_of fs
     \<and> n \<le> length fs + length ms \<and> window (baLastIndSeq e) 2 (unat (baWinSize e)) ms
     \<and> seq_dist L (baLastIndSeq e) = length (delivered evs)
     \<and> map (seq_dist L \<circ> snd) (delivered evs) = [1..<Suc (length (delivered evs))]
     \<and> mset (delivered evs) + mset (map mpdu_frame ms) = mset A)"

lemma entry_on_time:
  assumes "on_time hz (baLastIndSeqAtTimer e) [t]"
  shows "indicate_ampdu_entry hz t pAd e b =
    indicate_ampdu_window t pAd (e\<lparr>baRcvSeq := ucast (rxSequence b), baLastIndSeqAtTimer := t\<rparr>) b"
  using assms by (auto simp: indicate_ampdu_entry_def ba_flush_reordering_timeout_mpdus_def)

text \<open>A frame of the window that has not been received before comes after the last indicated one.\<close>

lemma received_gap:
  assumes "mset (delivered evs) + mset (map mpdu_frame ms) = mset A" "seq_dist L M = length (delivered evs)"
    and "map (seq_dist L \<circ> snd) (delivered evs) = [1..<Suc (length (delivered evs))]"
    and "seq12 L" "seq12 M" "seq12 S" "1 \<le> seq_dist L S" "seq_dist L S \<notin> (seq_dist L \<circ> snd) ` set A"
  shows "1 \<le> seq_dist M S" "seq_dist L S = seq_dist L M + seq_dist M S" "S \<notin> mpSequence ` set ms"
proof -
  have setA: "set A = set (delivered evs) \<union> mpdu_frame ` set ms"
    using arg_cong [OF assms(1), of set_mset] by simp
  have "{1..<Suc (length (delivered evs))} = (seq_dist L \<circ> snd) ` set (delivered evs)"
    using arg_cong [OF assms(3), of set] by (simp del: upt_Suc)
  then have "{1..<Suc (length (delivered evs))} \<subseteq> (seq_dist L \<circ> snd) ` set A"
    using setA by auto
  then have "seq_dist L S \<notin> {1..<Suc (length (delivered evs))}"
    using assms(8) by blast
  then have gt: "seq_dist L M < seq_dist L S"
    using assms(2,7) by simp
  then show "1 \<le> seq_dist M S" "seq_dist L S = seq_dist L M + seq_dist M S"
    using seq_dist_shift [OF assms(4-6)] by simp_all
  show "S \<notin> mpSequence ` set ms"
    using assms(8) setA by (force simp: image_iff)
qed

lemma in_order_numbers:
  assumes "window M 2 n ms" "n < 256" "seq12 L" "seq12 S" "seq_dist M S = 1" "seq_dist L S = Suc k" "k < 256" "p = in_order_prefix S ms"
  shows "window S 1 n ms" "map (seq_dist L \<circ> mpSequence) p = [Suc (Suc k)..<Suc (Suc (k + length p))]" "seq_dist L (last_seq S p) = Suc (k + length p)"
    and "window (last_seq S p) 2 n (drop (length p) ms)" "mset ms = mset p + mset (drop (length p) ms)"
proof -
  show w: "window S 1 n ms"
    using window_shift [OF assms(1,4)] assms(5) by (auto elim!: window_mono)
  note ip = in_order_prefix_window [OF w assms(8) [symmetric] refl, folded last_seq_def]
  show "window (last_seq S p) 2 n (drop (length p) ms)"
    using ip by (blast intro: window_mono [OF _ order.refl diff_le_self])
  show "mset ms = mset p + mset (drop (length p) ms)"
    using ip by (metis mset_append)
  have add: "seq_dist L (mpSequence x) = Suc k + seq_dist S (mpSequence x)" if "x \<in> set p" for x
  proof -
    have "x \<in> set ms"
      using that ip by (metis UnCI set_append)
    then have "seq12 (mpSequence x)" "seq_dist S (mpSequence x) < 256"
      using w assms(2) by (auto simp: window_def)
    then show ?thesis
      using seq_dist_add [OF assms(3,4), of "mpSequence x"] assms(6,7) by simp
  qed
  then have "map (seq_dist L \<circ> mpSequence) p = map (\<lambda>i. i + Suc k) (map (seq_dist S \<circ> mpSequence) p)"
    by simp
  also have "\<dots> = map (\<lambda>i. i + Suc k) [1..<Suc (length p)]"
    using ip by (simp only:)
  also have "map (\<lambda>i. i + Suc k) [1..<Suc m] = [Suc (Suc k)..<Suc (Suc (k + m))]" for m
    by (induction m) (simp_all add: add.commute)
  finally show "map (seq_dist L \<circ> mpSequence) p = [Suc (Suc k)..<Suc (Suc (k + length p))]" .
  show "seq_dist L (last_seq S p) = Suc (k + length p)"
  proof (cases "p = []")
    case False
    have "seq_dist S (last_seq S p) = length p"
      using ip by blast
    then show ?thesis
      using add [of "last p"] False by (simp add: last_seq_def)
  qed (simp add: last_seq_def assms(6))
qed


lemma received_in_order:
  assumes "baEvents pAd = evs0 @ evs" "baList e = rl_of ms" "window (baLastIndSeq e) 2 (unat (baWinSize e)) ms"
    and "baFreelist pAd = rl_of fs" "n \<le> length fs + length ms" "1 \<le> unat (baWinSize e)"
    and "seq_dist L (baLastIndSeq e) = length (delivered evs)"
    and "map (seq_dist L \<circ> snd) (delivered evs) = [1..<Suc (length (delivered evs))]"
    and "mset (delivered evs) + mset (map mpdu_frame ms) = mset A"
    and "seq12 L" "seq12 (rxSequence b)" "seq_dist (baLastIndSeq e) (rxSequence b) = 1"
    and "seq_dist L (rxSequence b) = Suc (length (delivered evs))" "length (delivered evs) < 256"
  obtains pAd' e' where "indicate_ampdu_window t pAd e b = Some (pAd', e')" "received L n evs0 (rx_frame b # A) pAd' e'"
    and "baLastIndSeqAtTimer e' = t" "baWinSize e' = baWinSize e"
proof -
  let ?S = "rxSequence b" and ?p = "in_order_prefix (rxSequence b) ms" and ?I = "INDICATE_LEGACY_OR_AMSDU pAd b"
  let ?evs = "evs @ indicate_event b # map announce_event ?p"
  have "SEQ_STEPONE ?S (baLastIndSeq e)" and wf: "rl_wf (baFreelist pAd)"
    using SEQ_STEPONE_dist [OF assms(11) window_seq12 [OF assms(3)]] assms(4,12) by (simp_all add: rl_wf_def)
  from window_in_order [OF assms(2,3) refl assms(6) wf assms(11) this(1), of t] obtain e' where
    e': "indicate_ampdu_window t pAd e b = Some (release ?p ?I, e')"
    "e' = e\<lparr>baList := rl_of (drop (length ?p) ms), baLastIndSeq := last_seq ?S ?p, baLastIndSeqAtTimer := t\<rparr>"
    by metis
  note num = in_order_numbers [OF assms(3) WinSize_less assms(10-14) refl]
  have "map (seq_dist L \<circ> snd) (delivered ?evs) = [1..<Suc (length (delivered ?evs))]"
  proof -
    have "map (seq_dist L \<circ> snd) (delivered ?evs) = [1..<Suc (length (delivered evs))] @ [Suc (length (delivered evs))]
        @ [Suc (Suc (length (delivered evs)))..<Suc (Suc (length (delivered evs) + length ?p))]"
      using assms(8,13) num(2) by (simp add: comp_def del: upt_Suc)
    also have "\<dots> = [1..<Suc (length (delivered evs)) + Suc (length ?p)]"
      by (subst upt_add_eq_append) (simp_all add: upt_conv_Cons del: upt_Suc)
    finally show ?thesis
      by (simp del: upt_Suc)
  qed
  moreover have "baFreelist (release ?p ?I) = rl_of (rev ?p @ fs)"
    using release_wf [of ?I ?p] wf assms(4) by (simp add: rl_wf_of release_freelist)
  moreover have "mset (delivered ?evs) + mset (map mpdu_frame (drop (length ?p) ms)) = mset (rx_frame b # A)"
    using assms(9) num(5) by (simp add: add.assoc)
  moreover have "length ?p \<le> length ms"
    using arg_cong [OF num(5), of size] by simp
  ultimately have "received L n evs0 (rx_frame b # A) (release ?p ?I) e'"
    unfolding received_def using assms(1,5) num(3,4) e'(2)
    by (intro exI [of _ ?evs] exI [of _ "drop (length ?p) ms"] exI [of _ "rev ?p @ fs"]) (simp add: release_events)
  then show ?thesis
    using that e' by simp
qed

lemma received_step:
  assumes "received L n evs0 A pAd e" "on_time hz (baLastIndSeqAtTimer e) [t]" "\<not> rxEAP b" "seq12 (rxSequence b)" "seq12 L"
    and "seq_dist L (rxSequence b) \<in> {1..n}" "seq_dist L (rxSequence b) \<notin> (seq_dist L \<circ> snd) ` set A" "length A < n" "n \<le> unat (baWinSize e)"
  obtains pAd' e' where "indicate_ampdu_entry hz t pAd e b = Some (pAd', e')" "received L n evs0 (rx_frame b # A) pAd' e'"
    and "baLastIndSeqAtTimer e' = t" "baWinSize e' = baWinSize e"
proof -
  let ?S = "rxSequence b" and ?e = "e\<lparr>baRcvSeq := ucast (rxSequence b), baLastIndSeqAtTimer := t\<rparr>" and ?M = "baLastIndSeq e"
  obtain evs ms fs where ev: "baEvents pAd = evs0 @ evs" and ms: "baList e = rl_of ms" "window ?M 2 (unat (baWinSize e)) ms"
    and fs: "baFreelist pAd = rl_of fs" "n \<le> length fs + length ms"
    and k: "seq_dist L ?M = length (delivered evs)" "map (seq_dist L \<circ> snd) (delivered evs) = [1..<Suc (length (delivered evs))]"
    and A: "mset (delivered evs) + mset (map mpdu_frame ms) = mset A"
    using assms(1) unfolding received_def by blast
  have M: "seq12 ?M" and W: "unat (baWinSize e) < 256" "1 \<le> unat (baWinSize e)"
    using window_seq12 [OF ms(2)] WinSize_less [of e] assms(6,9) by auto
  have "1 \<le> seq_dist L ?S"
    using assms(6) by simp
  note gap = received_gap [OF A k assms(5) M assms(4) this assms(7)]
  have le: "seq_dist ?M ?S \<le> unat (baWinSize e)"
    using gap(2) assms(6,9) by auto
  have lenA: "length (delivered evs) + length ms = length A"
    using arg_cong [OF A, of size] by simp
  show ?thesis
  proof (cases "seq_dist ?M ?S = 1")
    case True
    then have S: "seq_dist L ?S = Suc (length (delivered evs))" "length (delivered evs) < 256"
      using gap(2) k(1) lenA assms(8,9) W(1) by linarith+
    have "baList ?e = rl_of ms" "window (baLastIndSeq ?e) 2 (unat (baWinSize ?e)) ms" "1 \<le> unat (baWinSize ?e)"
      "seq_dist L (baLastIndSeq ?e) = length (delivered evs)" "seq_dist (baLastIndSeq ?e) ?S = 1"
      using ms W(2) k(1) True by simp_all
    note r = received_in_order [OF ev this(1,2) fs this(3,4) k(2) A assms(5,4) this(5) S, of t]
    obtain pAd' e' where "indicate_ampdu_window t pAd ?e b = Some (pAd', e')" "received L n evs0 (rx_frame b # A) pAd' e'"
      "baLastIndSeqAtTimer e' = t" "baWinSize e' = baWinSize ?e"
      by (rule r)
    then show ?thesis
      by (intro that [of pAd' e']) (simp_all add: entry_on_time [OF assms(2)])
  next
    case False
    then obtain f fs' where f: "fs = f # fs'"
      using fs(2) assms(8) lenA by (cases fs) auto
    let ?ms = "insort_key (seq_dist ?M \<circ> mpSequence) (mpdu_of b) ms"
    let ?pAd' = "pAd\<lparr>baFreelist := rl_of fs'\<rparr>" and ?e' = "?e\<lparr>baList := rl_of ?ms\<rparr>"
    have "baList ?e = rl_of ms" "window ?M 2 (unat (baWinSize ?e)) ms" "?M = baLastIndSeq ?e" "baFreelist pAd = rl_of (f # fs')"
      "2 \<le> seq_dist ?M ?S" "seq_dist ?M ?S \<le> unat (baWinSize ?e)"
      using ms fs(1) f gap(1) False le by simp_all
    from window_stored(1) [OF this(1-3) assms(3) this(4) assms(4) this(5,6) refl]
    have "indicate_ampdu_window t pAd ?e b = Some (?pAd', ?e')"
      using gap(3) by simp
    moreover have w: "window ?M 2 (unat (baWinSize e)) ?ms"
      using window_insort [OF ms(2), of "mpdu_of b"] assms(4) gap(1,3) False le by simp
    have "received L n evs0 (rx_frame b # A) ?pAd' ?e'"
      unfolding received_def by (rule exI [of _ evs], rule exI [of _ ?ms], rule exI [of _ fs'])
        (use ev k A fs(2) f w in \<open>simp del: upt_Suc\<close>)
    ultimately show ?thesis
      by (intro that [of ?pAd' ?e']) (simp_all add: entry_on_time [OF assms(2)])
  qed
qed


fun frames :: "(u64 \<times> rx_blk) list \<Rightarrow> (packet \<times> u16) list" where
  "frames [] = []"
| "frames ((t, b) # xs) = rx_frame b # frames xs"

lemma received_all:
  assumes "received L n evs0 A pAd e" "on_time hz (baLastIndSeqAtTimer e) (map fst xs)" "seq12 L" "n \<le> unat (baWinSize e)"
    and "\<forall>x \<in> set xs. \<not> rxEAP (snd x) \<and> seq12 (rxSequence (snd x))"
    and "distinct (map (seq_dist L \<circ> snd) (A @ frames xs))"
    and "(seq_dist L \<circ> snd) ` set (A @ frames xs) \<subseteq> {1..n}"
  shows "\<exists>pAd' e'. receive_frames hz pAd e xs = Some (pAd', e') \<and> received L n evs0 (rev (frames xs) @ A) pAd' e'
    \<and> baWinSize e' = baWinSize e"
  using assms
proof (induction xs arbitrary: A pAd e)
  case (Cons x xs)
  obtain t b where x: "x = (t, b)"
    by (cases x)
  let ?f = "seq_dist L \<circ> snd"
  have set: "seq_dist L (rxSequence b) \<in> {1..n}" "seq_dist L (rxSequence b) \<notin> ?f ` set A"
    using Cons.prems(6,7) by (auto simp: x)
  have "length A < n"
  proof -
    have "length (map ?f (A @ frames (x # xs))) = card (?f ` set (A @ frames (x # xs)))"
      using distinct_card [OF Cons.prems(6)] by (simp only: list.set_map)
    also have "\<dots> \<le> card {1..n}"
      by (rule card_mono [OF _ Cons.prems(7)]) simp
    finally show ?thesis
      by (simp add: x)
  qed
  moreover have "on_time hz (baLastIndSeqAtTimer e) [t]" "on_time hz t (map fst xs)" "\<not> rxEAP b" "seq12 (rxSequence b)"
    using Cons.prems(2,5) by (simp_all add: x)
  ultimately obtain pAd1 e1 where 1: "indicate_ampdu_entry hz t pAd e b = Some (pAd1, e1)" "received L n evs0 (rx_frame b # A) pAd1 e1"
    "baLastIndSeqAtTimer e1 = t" "baWinSize e1 = baWinSize e"
    using received_step [OF Cons.prems(1) _ _ _ Cons.prems(3) set _ Cons.prems(4), of hz t] by blast
  have "\<exists>pAd' e'. receive_frames hz pAd1 e1 xs = Some (pAd', e')
      \<and> received L n evs0 (rev (frames xs) @ rx_frame b # A) pAd' e' \<and> baWinSize e' = baWinSize e1"
    by (rule Cons.IH [OF 1(2)]) (use Cons.prems(3-7) 1(3,4) \<open>on_time hz t (map fst xs)\<close> in \<open>auto simp: x\<close>)
  then show ?case
    using 1(1,4) x by auto
qed auto

text \<open>When all numbers have been received, no gap is left behind which a block could wait.\<close>

lemma received_complete:
  assumes "window M 2 w ms" "seq_dist L M = length (delivered evs)"
    and "map (seq_dist L \<circ> snd) (delivered evs) = [1..<Suc (length (delivered evs))]"
    and "mset (delivered evs) + mset (map mpdu_frame ms) = mset A"
    and "(seq_dist L \<circ> snd) ` set A = {1..n}" "seq12 L" "w < 256" "n < 256"
  shows "ms = []"
proof (rule ccontr)
  let ?k = "length (delivered evs)"
  assume "ms \<noteq> []"
  have setA: "set A = set (delivered evs) \<union> mpdu_frame ` set ms"
    using arg_cong [OF assms(4), of set_mset] by simp
  have keys: "(seq_dist L \<circ> snd) ` set (delivered evs) = {1..<Suc ?k}"
    using arg_cong [OF assms(3), of set] by (simp del: upt_Suc)
  then have "?k \<in> {1..<Suc ?k} \<Longrightarrow> ?k \<in> {1..n}"
    using setA assms(5) by blast
  then have k: "?k < 256"
    using assms(8) by (cases "?k = 0") auto
  have wait: "?k + 2 \<le> seq_dist L (mpSequence m)" if "m \<in> set ms" for m
  proof -
    have "seq12 (mpSequence m)" "2 \<le> seq_dist M (mpSequence m)" "seq_dist M (mpSequence m) < 256"
      using that assms(1,7) by (auto simp: window_def)
    then show ?thesis
      using seq_dist_add [OF assms(6) window_seq12 [OF assms(1)], of "mpSequence m"] assms(2) k by simp
  qed
  obtain m where "m \<in> set ms"
    using \<open>ms \<noteq> []\<close> by (cases ms) auto
  moreover from this have "seq_dist L (mpSequence m) \<in> (seq_dist L \<circ> snd) ` set A"
    using setA by force
  ultimately have "?k + 1 \<in> {1..n}"
    using wait [of m] unfolding assms(5) by simp
  then obtain y where "y \<in> set A" "seq_dist L (snd y) = ?k + 1"
    unfolding assms(5) [symmetric] by auto
  then consider "?k + 1 \<in> (seq_dist L \<circ> snd) ` set (delivered evs)" | m where "m \<in> set ms" "seq_dist L (mpSequence m) = ?k + 1"
    using setA by force
  then show False
    using keys wait by cases (simp, fastforce)
qed

text \<open>
  Every frame of a window is delivered (C8). When the next \<open>n\<close> frames, at most as many as the window has places, arrive in any order, none of them so late that the list is flushed, and there
  are blocks to store them, then all of them are delivered, in the order of their sequence numbers, and nothing is left in the list.
\<close>

theorem reordering_delivers_all:
  assumes "seq12 (baLastIndSeq e)" "baList e = rl_of []" "n \<le> unat (baWinSize e)"
    and "rl_wf (baFreelist pAd)" "int n \<le> rlQlen (baFreelist pAd)"
    and "mset (map (seq_dist (baLastIndSeq e) \<circ> snd) (frames xs)) = mset [1..<Suc n]"
    and "\<forall>x \<in> set xs. \<not> rxEAP (snd x) \<and> seq12 (rxSequence (snd x))" "on_time hz (baLastIndSeqAtTimer e) (map fst xs)"
  shows "\<exists>pAd' e' evs. receive_frames hz pAd e xs = Some (pAd', e') \<and> baEvents pAd' = baEvents pAd @ evs
    \<and> map (seq_dist (baLastIndSeq e) \<circ> snd) (delivered evs) = [1..<Suc n]
    \<and> mset (delivered evs) = mset (frames xs) \<and> baList e' = rl_of []"
proof -
  let ?L = "baLastIndSeq e" and ?fr = "frames xs"
  have "distinct (map (seq_dist ?L \<circ> snd) ([] @ ?fr))"
    using mset_eq_imp_distinct_iff [OF assms(6)] by (simp only: distinct_upt append_Nil)
  moreover have set: "(seq_dist ?L \<circ> snd) ` set ([] @ ?fr) = {1..n}"
    using mset_eq_setD [OF assms(6)] by (simp only: set_upt list.set_map append_Nil atLeastLessThanSuc_atLeastAtMost)
  moreover have "received ?L n (baEvents pAd) [] pAd e"
  proof -
    obtain fs where "baFreelist pAd = rl_of fs"
      using assms(4) rl_wf_of by blast
    then show ?thesis
      using assms(1,2,5) by (simp add: received_def exI [of _ fs])
  qed
  ultimately obtain pAd' e' where r: "receive_frames hz pAd e xs = Some (pAd', e')" "received ?L n (baEvents pAd) (rev ?fr) pAd' e'"
    using received_all [OF _ assms(8,1,3,7), of "baEvents pAd" "[]" pAd] by (metis append_Nil2 order.refl)
  then obtain evs ms where ev: "baEvents pAd' = baEvents pAd @ evs" "baList e' = rl_of ms" "window (baLastIndSeq e') 2 (unat (baWinSize e')) ms"
    "seq_dist ?L (baLastIndSeq e') = length (delivered evs)" "map (seq_dist ?L \<circ> snd) (delivered evs) = [1..<Suc (length (delivered evs))]"
    "mset (delivered evs) + mset (map mpdu_frame ms) = mset ?fr"
    unfolding received_def mset_rev by blast
  have "(seq_dist ?L \<circ> snd) ` set ?fr = {1..n}" "n < 256"
    using set assms(3) WinSize_less [of e] by simp_all
  then have "ms = []"
    by (rule received_complete [OF ev(3-6) _ assms(1) WinSize_less])
  then have all: "mset (delivered evs) = mset ?fr"
    using ev(6) by simp
  then have "length (delivered evs) = n"
    using arg_cong [OF assms(6), of size] by (metis length_map length_upt diff_Suc_1 size_mset)
  then show ?thesis
    using r(1) ev(1,2,5) all \<open>ms = []\<close> by blast
qed

theorem reordering_delivers_all_witness:
  "\<exists>pAd' e' evs. receive_frames 250 ex_pool (ex_entry\<lparr>baList := rl_of []\<rparr>)
      [(1001, ex_frame 0 False), (1002, ex_frame 1 False), (1003, ex_frame 4095 False)] = Some (pAd', e')
    \<and> baEvents pAd' = evs \<and> map (seq_dist 4094 \<circ> snd) (delivered evs) = [1..<Suc 3] \<and> baList e' = rl_of []"
proof -
  let ?e = "ex_entry\<lparr>baList := rl_of []\<rparr>"
  let ?xs = "[(1001, ex_frame 0 False), (1002, ex_frame 1 False), (1003, ex_frame 4095 False)]"
  have upt: "[1..<Suc 3] = [1, 2, 3]"
    by (simp add: upt_rec)
  have "mset (map (seq_dist (baLastIndSeq ?e) \<circ> snd) (frames ?xs)) = mset [1..<Suc 3]"
    unfolding upt by (simp add: ex_entry_def ex_frame_def seq_dist_def)
  moreover have "on_time 250 (baLastIndSeqAtTimer ?e) (map fst ?xs)"
    by (simp add: ex_entry_def RTMP_TIME_AFTER_def MAX_REORDERING_PACKET_TIMEOUT_def REORDERING_PACKET_TIMEOUT_def)
  ultimately show ?thesis
    using reordering_delivers_all [of ?e 3 ex_pool ?xs 250] ex_pool_wf(1)
    by (auto simp: ex_entry_def ex_frame_def ex_pool_def)
qed

end
