(* ===== verification/Mlme_Fsm.thy ===== *)
theory Mlme_Fsm
  imports Mlme_Queue
begin

text \<open>
  The state machines of the management entity: the tables of actions of \<^verbatim>\<open>common/mlme.c\<close>, their contents as
  \<^verbatim>\<open>sta/assoc.c\<close>, \<^verbatim>\<open>sta/auth.c\<close>, \<^verbatim>\<open>sta/auth_rsp.c\<close>, \<^verbatim>\<open>sta/sync.c\<close>, \<^verbatim>\<open>common/cmm_wpa.c\<close> and
  \<^verbatim>\<open>common/action.c\<close> set them, and \<^verbatim>\<open>MlmeHandler\<close>, which takes the messages out of the queue and performs the
  actions. What an action does is the parameter \<open>run\<close>; the element it gets is passed by value. Timers and the thread are not modelled.
\<close>

section \<open>Data\<close>

datatype sm_action =
  Drop
| MlmeAssocReqAction | MlmeReassocReqAction | MlmeDisassocReqAction | PeerDisassocAction
| InvalidStateWhenAssoc | InvalidStateWhenReassoc | InvalidStateWhenDisassociate
| PeerAssocRspAction | PeerReassocRspAction | AssocTimeoutAction | ReassocTimeoutAction | DisassocTimeoutAction
| MlmeAuthReqAction | InvalidStateWhenAuth | PeerAuthRspAtSeq2Action | PeerAuthRspAtSeq4Action | AuthTimeoutAction
| PeerDeauthAction
| MlmeScanReqAction | MlmeForceScanReqAction | MlmeJoinReqAction | MlmeForceJoinReqAction | MlmeStartReqAction
| PeerBeacon | PeerProbeReqAction | InvalidStateWhenStart | PeerBeaconAtJoinAction | BeaconTimeoutAtJoinAction
| PeerBeaconAtScanAction | ScanTimeoutAction
| WpaEAPPacketAction | WpaEAPOLStartAction | WpaEAPOLLogoffAction | WpaEAPOLKeyAction | WpaEAPOLASFAlertAction
| PeerSpectrumAction | PeerQOSAction | ReservedAction | PeerBAAction | PeerHTAction | PeerVHTAction
| MlmeADDBAAction | MlmeDELBAAction | PeerPublicAction | PeerRMAction | MlmeQOSAction | MlmeDLSAction | MlmeInvalidAction
| MlmeCntlMachinePerformAction

record state_machine =
  smBase :: u64
  smNrState :: u64
  smNrMsg :: u64
  smCurrState :: u64
  smTransFunc :: "sm_action option list"

text \<open>What \<^verbatim>\<open>MlmeRestartStateMachine\<close> does outside of the state machines.\<close>

datatype mlme_event = CancelAssocTimer | CancelReassocTimer | CancelDisassocTimer | CancelAuthTimer | CancelBeaconTimer
  | CancelScanTimer | SwitchChannel | LockChannel | ResumeMsduTransmission

record mlme =
  mlCntlMachine :: state_machine
  mlAssocMachine :: state_machine
  mlAuthMachine :: state_machine
  mlAuthRspMachine :: state_machine
  mlSyncMachine :: state_machine
  mlWpaPskMachine :: state_machine
  mlActMachine :: state_machine
  mlWpaMachine :: state_machine
  mlRunning :: bool
  mlQueue :: mlme_queue
  mlStopped :: bool
  mlEvents :: "mlme_event list"

section \<open>Tables of actions\<close>

text \<open>\<^verbatim>\<open>StateMachineInit\<close>; \<open>None\<close> is a table that is too small.\<close>

definition StateMachineInit ::
  "sm_action option list \<Rightarrow> u64 \<Rightarrow> u64 \<Rightarrow> sm_action \<Rightarrow> u64 \<Rightarrow> u64 \<Rightarrow> state_machine option" where
  "StateMachineInit Trans StNr MsgNr DefFunc InitState Base =
     (if length Trans < unat StNr * unat MsgNr then None
      else Some \<lparr>smBase = Base, smNrState = StNr, smNrMsg = MsgNr, smCurrState = InitState,
        smTransFunc = fold (\<lambda>i t. fold (\<lambda>j t. t[i * unat MsgNr + j := Some DefFunc]) [0..<unat MsgNr] t) [0..<unat StNr] Trans\<rparr>)"

definition StateMachineSetAction :: "state_machine \<Rightarrow> u64 \<Rightarrow> u64 \<Rightarrow> sm_action \<Rightarrow> state_machine" where
  "StateMachineSetAction S St Msg func =
     (let MsgIdx = Msg - smBase S in
      if St < smNrState S \<and> MsgIdx < smNrMsg S
      then S\<lparr>smTransFunc := (smTransFunc S)[unat (St * smNrMsg S + MsgIdx) := Some func]\<rparr> else S)"

text \<open>A sequence of calls of \<^verbatim>\<open>StateMachineSetAction\<close>.\<close>

definition set_actions :: "(u64 \<times> u64 \<times> sm_action) list \<Rightarrow> state_machine \<Rightarrow> state_machine" where
  "set_actions as S = fold (\<lambda>(St, Msg, func) S. StateMachineSetAction S St Msg func) as S"

text \<open>\<^verbatim>\<open>StateMachinePerformAction\<close>; \<open>None\<close> is an access outside of the table.\<close>

definition StateMachinePerformAction ::
  "(sm_action \<Rightarrow> mlme_queue_elem \<Rightarrow> mlme \<Rightarrow> mlme) \<Rightarrow> mlme \<Rightarrow> state_machine \<Rightarrow> mlme_queue_elem \<Rightarrow> u64 \<Rightarrow> mlme option" where
  "StateMachinePerformAction run pAd S Elem CurrState =
     (let i = unat (CurrState * smNrMsg S + meMsgType Elem - smBase S) in
      if length (smTransFunc S) \<le> i then None
      else case smTransFunc S ! i of None \<Rightarrow> Some pAd | Some f \<Rightarrow> Some (run f Elem pAd))"

definition AssocStateMachineInit :: "sm_action option list \<Rightarrow> state_machine option" where
  "AssocStateMachineInit Trans =
     map_option (set_actions
       [(0, 0, MlmeAssocReqAction), (0, 1, MlmeReassocReqAction), (0, 2, MlmeDisassocReqAction), (0, 3, PeerDisassocAction),
        (1, 0, InvalidStateWhenAssoc), (1, 1, InvalidStateWhenReassoc), (1, 2, InvalidStateWhenDisassociate),
        (1, 3, PeerDisassocAction), (1, 5, PeerAssocRspAction), (1, 7, PeerAssocRspAction), (1, 9, AssocTimeoutAction),
        (2, 0, InvalidStateWhenAssoc), (2, 1, InvalidStateWhenReassoc), (2, 2, InvalidStateWhenDisassociate),
        (2, 3, PeerDisassocAction), (2, 7, PeerReassocRspAction), (2, 5, PeerReassocRspAction), (2, 10, ReassocTimeoutAction),
        (3, 0, InvalidStateWhenAssoc), (3, 1, InvalidStateWhenReassoc), (3, 2, InvalidStateWhenDisassociate),
        (3, 3, PeerDisassocAction), (3, 8, DisassocTimeoutAction)])
       (StateMachineInit Trans 4 11 Drop 0 0)"

definition AuthStateMachineInit :: "sm_action option list \<Rightarrow> state_machine option" where
  "AuthStateMachineInit Trans =
     map_option (set_actions
       [(0, 0, MlmeAuthReqAction),
        (1, 0, InvalidStateWhenAuth), (1, 1, PeerAuthRspAtSeq2Action), (1, 2, AuthTimeoutAction),
        (2, 0, InvalidStateWhenAuth), (2, 1, PeerAuthRspAtSeq4Action), (2, 2, AuthTimeoutAction)])
       (StateMachineInit Trans 3 3 Drop 0 0)"

definition AuthRspStateMachineInit :: "sm_action option list \<Rightarrow> state_machine option" where
  "AuthRspStateMachineInit Trans =
     map_option (set_actions [(0, 2, PeerDeauthAction), (1, 2, PeerDeauthAction)]) (StateMachineInit Trans 2 3 Drop 0 0)"

definition SyncStateMachineInit :: "sm_action option list \<Rightarrow> state_machine option" where
  "SyncStateMachineInit Trans =
     map_option (set_actions
       [(0, 0, MlmeScanReqAction), (0, 11, MlmeForceScanReqAction), (0, 1, MlmeJoinReqAction), (0, 10, MlmeForceJoinReqAction),
        (0, 2, MlmeStartReqAction), (0, 3, PeerBeacon), (0, 9, PeerProbeReqAction),
        (1, 1, MlmeJoinReqAction), (1, 2, InvalidStateWhenStart), (1, 3, PeerBeaconAtJoinAction),
        (1, 7, BeaconTimeoutAtJoinAction), (1, 4, PeerBeaconAtScanAction),
        (2, 1, MlmeJoinReqAction), (2, 2, InvalidStateWhenStart), (2, 3, PeerBeaconAtScanAction),
        (2, 4, PeerBeaconAtScanAction), (2, 6, ScanTimeoutAction),
        (3, 0, MlmeScanReqAction), (3, 3, PeerBeacon)])
       (StateMachineInit Trans 4 12 Drop 0 0)"

definition WpaStateMachineInit :: "sm_action option list \<Rightarrow> state_machine option" where
  "WpaStateMachineInit Trans =
     map_option (set_actions
       [(0, 0, WpaEAPPacketAction), (0, 1, WpaEAPOLStartAction), (0, 2, WpaEAPOLLogoffAction), (0, 3, WpaEAPOLKeyAction),
        (0, 4, WpaEAPOLASFAlertAction)])
       (StateMachineInit Trans 1 5 Drop 0 0)"

definition ActionStateMachineInit :: "sm_action option list \<Rightarrow> state_machine option" where
  "ActionStateMachineInit Trans =
     map_option (set_actions
       [(0, 0, PeerSpectrumAction), (0, 1, PeerQOSAction), (0, 2, ReservedAction), (0, 3, PeerBAAction), (0, 7, PeerHTAction),
        (0, 21, PeerVHTAction), (0, 22, MlmeADDBAAction), (0, 23, MlmeDELBAAction), (0, 24, MlmeDELBAAction),
        (0, 4, PeerPublicAction), (0, 5, PeerRMAction), (0, 25, MlmeQOSAction), (0, 26, MlmeDLSAction), (0, 27, MlmeInvalidAction)])
       (StateMachineInit Trans 1 28 Drop 0 0)"

section \<open>The handler\<close>

definition MlmeRestartStateMachine :: "mlme \<Rightarrow> mlme" where
  "MlmeRestartStateMachine pAd =
     pAd\<lparr>mlEvents := mlEvents pAd @ [CancelAssocTimer, CancelReassocTimer, CancelDisassocTimer, CancelAuthTimer, CancelBeaconTimer,
           CancelScanTimer, SwitchChannel, LockChannel, ResumeMsduTransmission],
         mlCntlMachine := (mlCntlMachine pAd)\<lparr>smCurrState := 0\<rparr>,
         mlAssocMachine := (mlAssocMachine pAd)\<lparr>smCurrState := 0\<rparr>,
         mlAuthMachine := (mlAuthMachine pAd)\<lparr>smCurrState := 0\<rparr>,
         mlAuthRspMachine := (mlAuthRspMachine pAd)\<lparr>smCurrState := 0\<rparr>,
         mlSyncMachine := (mlSyncMachine pAd)\<lparr>smCurrState := 0\<rparr>,
         mlActMachine := (mlActMachine pAd)\<lparr>smCurrState := 0\<rparr>\<rparr>"

text \<open>The switch over the machine of a message.\<close>

definition mlme_switch ::
  "(sm_action \<Rightarrow> mlme_queue_elem \<Rightarrow> mlme \<Rightarrow> mlme) \<Rightarrow> mlme_queue_elem \<Rightarrow> mlme \<Rightarrow> mlme option" where
  "mlme_switch run Elem pAd =
     (let perform = (\<lambda>S. StateMachinePerformAction run pAd S Elem (smCurrState S)); Machine = meMachine Elem in
      if Machine = 1 then perform (mlAssocMachine pAd)
      else if Machine = 2 then perform (mlAuthMachine pAd)
      else if Machine = 3 then perform (mlAuthRspMachine pAd)
      else if Machine = 4 then perform (mlSyncMachine pAd)
      else if Machine = 5 then Some (run MlmeCntlMachinePerformAction Elem pAd)
      else if Machine = 6 then perform (mlWpaPskMachine pAd)
      else if Machine = 9 then perform (mlActMachine pAd)
      else if Machine = 23 then perform (mlWpaMachine pAd)
      else Some pAd)"

text \<open>The loop of \<^verbatim>\<open>MlmeHandler\<close>. \<open>mlStopped\<close> stands for the flags of a reset, a halt, a removed or suspended device and for the test mode.
  The loop need not end, since an action may post messages.\<close>

partial_function (option) mlme_loop ::
  "(sm_action \<Rightarrow> mlme_queue_elem \<Rightarrow> mlme \<Rightarrow> mlme) \<Rightarrow> mlme \<Rightarrow> mlme option" where
  "mlme_loop run pAd =
     (if MlmeQueueEmpty (mlQueue pAd) then Some pAd
      else if mlStopped pAd then Some pAd
      else
        case MlmeDequeue (mlQueue pAd) of (Elem, q) \<Rightarrow>
          let pAd = pAd\<lparr>mlQueue := q\<rparr>; e = mqEntry q ! Elem in
          if meMsgType e = 45 then
            let pAd = MlmeRestartStateMachine pAd
            in mlme_loop run (pAd\<lparr>mlQueue := mlme_free_elem Elem (mlQueue pAd)\<rparr>)
          else case mlme_switch run e pAd of
            None \<Rightarrow> None
          | Some pAd \<Rightarrow> mlme_loop run (pAd\<lparr>mlQueue := mlme_free_elem Elem (mlQueue pAd)\<rparr>))"

definition MlmeHandler :: "(sm_action \<Rightarrow> mlme_queue_elem \<Rightarrow> mlme \<Rightarrow> mlme) \<Rightarrow> mlme \<Rightarrow> mlme option" where
  "MlmeHandler run pAd =
     (if mlRunning pAd then Some pAd
      else map_option (\<lambda>pAd. pAd\<lparr>mlRunning := False\<rparr>) (mlme_loop run (pAd\<lparr>mlRunning := True\<rparr>)))"

text \<open>The part of \<^verbatim>\<open>MlmeInit\<close> that sets up the queue and the state machines; the tables are the zeroed arrays of the adapter.
  \<^verbatim>\<open>WpaPskMachine\<close> is never initialised.\<close>

definition MlmeInit :: "mlme \<Rightarrow> mlme option" where
  "MlmeInit pAd =
     (case (AssocStateMachineInit (replicate 44 None), AuthStateMachineInit (replicate 9 None),
            AuthRspStateMachineInit (replicate 6 None), SyncStateMachineInit (replicate 48 None),
            WpaStateMachineInit (replicate 5 None), ActionStateMachineInit (replicate 28 None)) of
        (Some as, Some au, Some ar, Some sy, Some wp, Some ac) \<Rightarrow>
          Some (pAd\<lparr>mlQueue := MlmeQueueInit (mlQueue pAd), mlRunning := False,
                 mlAssocMachine := as, mlAuthMachine := au, mlAuthRspMachine := ar, mlSyncMachine := sy,
                 mlCntlMachine := (mlCntlMachine pAd)\<lparr>smCurrState := 0\<rparr>, mlWpaMachine := wp, mlActMachine := ac\<rparr>)
      | _ \<Rightarrow> None)"

section \<open>Well-formed tables\<close>

text \<open>A table with an action for every state and message.\<close>

definition sm_ok :: "state_machine \<Rightarrow> bool" where
  "sm_ok S \<longleftrightarrow> unat (smNrState S) * unat (smNrMsg S) < 2 ^ 32 \<and> length (smTransFunc S) = unat (smNrState S) * unat (smNrMsg S)
     \<and> None \<notin> set (smTransFunc S)"

lemma sm_index:
  assumes "sm_ok S" "St < smNrState S" "m < smNrMsg S"
  shows "unat (St * smNrMsg S + m) < length (smTransFunc S)"
proof -
  have lt: "unat St < unat (smNrState S)" "unat m < unat (smNrMsg S)"
    using assms(2,3) by (simp_all add: word_less_nat_alt)
  have "unat St * unat (smNrMsg S) + unat m < Suc (unat St) * unat (smNrMsg S)"
    using lt by simp
  also have "\<dots> \<le> unat (smNrState S) * unat (smNrMsg S)"
    using lt by (intro mult_le_mono1) simp
  finally have b: "unat St * unat (smNrMsg S) + unat m < unat (smNrState S) * unat (smNrMsg S)" .
  moreover have "unat (smNrState S) * unat (smNrMsg S) < 2 ^ 32"
    using assms(1) by (simp add: sm_ok_def)
  ultimately have "unat (St * smNrMsg S + m) = unat St * unat (smNrMsg S) + unat m"
    by (simp add: unat_word_ariths mod_add_left_eq)
  then show ?thesis
    using b assms(1) by (simp add: sm_ok_def)
qed

lemma fold_update_const:
  "length (fold (\<lambda>k t. t[k := v]) ks t) = length t"
  "i < length t \<Longrightarrow> fold (\<lambda>k t. t[k := v]) ks t ! i = (if i \<in> set ks then v else t ! i)"
  by (induction ks arbitrary: t) (auto simp: nth_list_update)

lemma StateMachineInit_ok:
  assumes "length Trans = unat StNr * unat MsgNr" "unat StNr * unat MsgNr < 2 ^ 32"
  obtains S where "StateMachineInit Trans StNr MsgNr DefFunc InitState Base = Some S"
    "sm_ok S" "smBase S = Base" "smNrState S = StNr" "smNrMsg S = MsgNr" "smCurrState S = InitState"
proof -
  let ?m = "unat MsgNr" and ?n = "unat StNr"
  let ?ks = "concat (map (\<lambda>i. map (\<lambda>j. i * ?m + j) [0..<?m]) [0..<?n])"
  let ?t = "fold (\<lambda>i t. fold (\<lambda>j t. t[i * ?m + j := Some DefFunc]) [0..<?m] t) [0..<?n] Trans"
  have inner: "fold (\<lambda>j t. t[i * ?m + j := Some DefFunc]) [0..<?m] t
      = fold (\<lambda>k t. t[k := Some DefFunc]) (map (\<lambda>j. i * ?m + j) [0..<?m]) t" for i t
    by (simp add: fold_map comp_def)
  have eq: "?t = fold (\<lambda>k t. t[k := Some DefFunc]) ?ks Trans"
    by (simp only: inner fold_concat_map)
  have "k \<in> set ?ks" if "k < ?n * ?m" for k
  proof -
    have "?m \<noteq> 0"
      using that by (intro notI) simp
    then have "k div ?m < ?n" "k mod ?m < ?m"
      using that by (simp_all add: less_mult_imp_div_less)
    moreover from this have "k div ?m * ?m \<le> k" "k < ?m + k div ?m * ?m"
      using div_mult_mod_eq [of k ?m] by linarith+
    ultimately show ?thesis
      by (auto intro!: bexI [of _ "k div ?m"])
  qed
  then have "?t ! k = Some DefFunc" if "k < length ?t" for k
    using that fold_update_const(2) [of k Trans "Some DefFunc" ?ks] fold_update_const(1) [of "Some DefFunc" ?ks Trans] assms(1)
    unfolding eq by simp
  then have "None \<notin> set ?t"
    by (auto simp: in_set_conv_nth)
  moreover have "length ?t = ?n * ?m"
    unfolding eq fold_update_const(1) assms(1) ..
  ultimately show ?thesis
    using that assms by (simp add: StateMachineInit_def sm_ok_def)
qed

lemma StateMachineSetAction_ok:
  assumes "sm_ok S"
  shows "sm_ok (StateMachineSetAction S St Msg f)"
    and "smBase (StateMachineSetAction S St Msg f) = smBase S" "smNrState (StateMachineSetAction S St Msg f) = smNrState S"
      "smNrMsg (StateMachineSetAction S St Msg f) = smNrMsg S" "smCurrState (StateMachineSetAction S St Msg f) = smCurrState S"
  using assms by (auto simp: StateMachineSetAction_def Let_def sm_ok_def dest: set_update_subset_insert [THEN subsetD])

lemma set_actions_Cons: "set_actions ((St, Msg, f) # as) S = set_actions as (StateMachineSetAction S St Msg f)"
  by (simp add: set_actions_def)

lemma set_actions_ok:
  assumes "sm_ok S"
  shows "sm_ok (set_actions as S) \<and> smBase (set_actions as S) = smBase S \<and> smNrState (set_actions as S) = smNrState S
    \<and> smNrMsg (set_actions as S) = smNrMsg S \<and> smCurrState (set_actions as S) = smCurrState S"
  using assms
proof (induction as arbitrary: S)
  case (Cons a as)
  obtain St Msg f where "a = (St, Msg, f)"
    by (cases a)
  then show ?case
    using Cons.IH [OF StateMachineSetAction_ok(1) [OF Cons.prems, of St Msg f]] StateMachineSetAction_ok(2-5) [OF Cons.prems, of St Msg f]
    by (simp add: set_actions_Cons)
qed (simp add: set_actions_def)

section \<open>Dispatching\<close>

text \<open>A machine in one of its states, with \<open>n\<close> messages counted from 0.\<close>

definition machine_ok :: "u64 \<Rightarrow> state_machine \<Rightarrow> bool" where
  "machine_ok n S \<longleftrightarrow> sm_ok S \<and> smBase S = 0 \<and> smNrMsg S = n \<and> smCurrState S < smNrState S"

definition machines_ok :: "mlme \<Rightarrow> bool" where
  "machines_ok pAd \<longleftrightarrow> machine_ok 11 (mlAssocMachine pAd) \<and> machine_ok 3 (mlAuthMachine pAd) \<and> machine_ok 3 (mlAuthRspMachine pAd)
     \<and> machine_ok 12 (mlSyncMachine pAd) \<and> machine_ok 28 (mlActMachine pAd) \<and> machine_ok 5 (mlWpaMachine pAd)"

text \<open>The messages that a machine has an action for. The machine 6 has no table.\<close>

definition msg_ok :: "u64 \<Rightarrow> u64 \<Rightarrow> bool" where
  "msg_ok Machine MsgType \<longleftrightarrow> Machine \<noteq> 6 \<and> (Machine = 1 \<longrightarrow> MsgType < 11) \<and> (Machine = 2 \<longrightarrow> MsgType < 3) \<and> (Machine = 3 \<longrightarrow> MsgType < 3)
     \<and> (Machine = 4 \<longrightarrow> MsgType < 12) \<and> (Machine = 9 \<longrightarrow> MsgType < 28) \<and> (Machine = 23 \<longrightarrow> MsgType < 5)"

text \<open>The action of a machine for a message.\<close>

definition action_of :: "state_machine \<Rightarrow> u64 \<Rightarrow> sm_action" where
  "action_of S t = the (smTransFunc S ! unat (smCurrState S * smNrMsg S + t))"

lemma perform_ok:
  assumes "machine_ok n S" "meMsgType e < n"
  shows "StateMachinePerformAction run pAd S e (smCurrState S) = Some (run (action_of S (meMsgType e)) e pAd)"
proof -
  let ?i = "unat (smCurrState S * smNrMsg S + meMsgType e)"
  have i: "?i < length (smTransFunc S)"
    using sm_index [of S "smCurrState S" "meMsgType e"] assms by (simp add: machine_ok_def)
  then have "smTransFunc S ! ?i \<noteq> None"
    using assms(1) by (metis machine_ok_def nth_mem sm_ok_def)
  then show ?thesis
    using i assms(1) by (auto simp: StateMachinePerformAction_def Let_def action_of_def machine_ok_def)
qed

definition mlme_action :: "mlme \<Rightarrow> mlme_queue_elem \<Rightarrow> sm_action option" where
  "mlme_action pAd e =
     (let Machine = meMachine e; t = meMsgType e in
      if Machine = 1 then Some (action_of (mlAssocMachine pAd) t)
      else if Machine = 2 then Some (action_of (mlAuthMachine pAd) t)
      else if Machine = 3 then Some (action_of (mlAuthRspMachine pAd) t)
      else if Machine = 4 then Some (action_of (mlSyncMachine pAd) t)
      else if Machine = 5 then Some MlmeCntlMachinePerformAction
      else if Machine = 9 then Some (action_of (mlActMachine pAd) t)
      else if Machine = 23 then Some (action_of (mlWpaMachine pAd) t)
      else None)"

text \<open>The effect of one message: a restart, nothing, or the action of its machine.\<close>

definition mlme_step :: "(sm_action \<Rightarrow> mlme_queue_elem \<Rightarrow> mlme \<Rightarrow> mlme) \<Rightarrow> mlme \<Rightarrow> mlme_queue_elem \<Rightarrow> mlme" where
  "mlme_step run pAd e =
     (if meMsgType e = 45 then MlmeRestartStateMachine pAd
      else case mlme_action pAd e of None \<Rightarrow> pAd | Some f \<Rightarrow> run f e pAd)"

lemma switch_action:
  assumes "machines_ok pAd" "msg_ok (meMachine e) (meMsgType e)"
  shows "mlme_switch run e pAd = Some (case mlme_action pAd e of None \<Rightarrow> pAd | Some f \<Rightarrow> run f e pAd)"
  using assms perform_ok unfolding machines_ok_def msg_ok_def
  by (auto simp: mlme_switch_def mlme_action_def Let_def)

lemma switch_ok:
  assumes "machines_ok pAd" "msg_ok (meMachine e) (meMsgType e)" "meMsgType e \<noteq> 45"
  shows "mlme_switch run e pAd = Some (mlme_step run pAd e)"
  by (simp add: switch_action [OF assms(1,2)] mlme_step_def assms(3))

text \<open>Actions that keep to the state machines: they do not touch the queue, do not stop the handler and leave every machine in one of its states.\<close>

definition run_ok :: "(sm_action \<Rightarrow> mlme_queue_elem \<Rightarrow> mlme \<Rightarrow> mlme) \<Rightarrow> bool" where
  "run_ok run \<longleftrightarrow> (\<forall>f e p q. run f e (p\<lparr>mlQueue := q\<rparr>) = (run f e p)\<lparr>mlQueue := q\<rparr>) \<and>
     (\<forall>f e p. mlStopped (run f e p) = mlStopped p \<and> (machines_ok p \<longrightarrow> machines_ok (run f e p)))"

lemma machines_ok_update [simp]:
  "machines_ok (p\<lparr>mlQueue := q\<rparr>) = machines_ok p" "machines_ok (p\<lparr>mlRunning := b\<rparr>) = machines_ok p"
  by (simp_all add: machines_ok_def)

lemma MlmeRestartStateMachine_ok:
  assumes "machines_ok p"
  shows "machines_ok (MlmeRestartStateMachine p)"
proof -
  have "machine_ok n (S\<lparr>smCurrState := 0\<rparr>)" if "machine_ok n S" for n S
  proof -
    have "smNrState S > 0"
      using that by (metis machine_ok_def word_gt_0 word_not_simps(1))
    then show ?thesis
      using that by (auto simp: machine_ok_def sm_ok_def)
  qed
  then show ?thesis
    using assms by (simp add: machines_ok_def MlmeRestartStateMachine_def)
qed

lemma mlme_step_ok:
  assumes "run_ok run" "machines_ok p"
  shows "machines_ok (mlme_step run p e)" "mlStopped (mlme_step run p e) = mlStopped p"
    and "mlme_step run (p\<lparr>mlQueue := q\<rparr>) e = (mlme_step run p e)\<lparr>mlQueue := q\<rparr>"
proof -
  have "mlme_action (p\<lparr>mlQueue := q\<rparr>) e = mlme_action p e"
    by (simp add: mlme_action_def Let_def)
  then show "mlme_step run (p\<lparr>mlQueue := q\<rparr>) e = (mlme_step run p e)\<lparr>mlQueue := q\<rparr>"
    using assms(1) by (auto simp: mlme_step_def run_ok_def MlmeRestartStateMachine_def split: option.splits)
  have "mlStopped (MlmeRestartStateMachine p) = mlStopped p"
    by (simp add: MlmeRestartStateMachine_def)
  then show "machines_ok (mlme_step run p e)" "mlStopped (mlme_step run p e) = mlStopped p"
    using assms MlmeRestartStateMachine_ok [OF assms(2)] by (auto simp: mlme_step_def run_ok_def split: option.splits)
qed

lemma foldl_step_queue:
  assumes "run_ok run" "machines_ok p"
  shows "foldl (mlme_step run) (p\<lparr>mlQueue := q\<rparr>) es = (foldl (mlme_step run) p es)\<lparr>mlQueue := q\<rparr>"
  using assms(2) by (induction es arbitrary: p) (simp_all add: mlme_step_ok [OF assms(1)])

lemma mlme_loop_drains:
  assumes "run_ok run" "machines_ok p" "mq_inv (mlQueue p)" "\<not> mlStopped p"
    and "\<forall>e\<in>set (mq_elems (mlQueue p)). msg_ok (meMachine e) (meMsgType e)"
  shows "\<exists>q. mlme_loop run p = Some ((foldl (mlme_step run) p (mq_elems (mlQueue p)))\<lparr>mlQueue := q\<rparr>) \<and> mq_inv q \<and> mqNum q = 0"
  using assms(2-5)
proof (induction "mq_elems (mlQueue p)" arbitrary: p)
  case Nil
  then have "mqNum (mlQueue p) = 0"
    using mq_messages_empty [of "mlQueue p"] by (simp add: mq_messages_def)
  then show ?case
    using Nil by (intro exI [of _ "mlQueue p"]) (simp add: mlme_loop.simps MlmeQueueEmpty_def)
next
  case (Cons e es)
  obtain Elem q1 where d: "MlmeDequeue (mlQueue p) = (Elem, q1)"
    by fastforce
  have ne: "mqNum (mlQueue p) \<noteq> 0"
    using mq_messages_empty [OF Cons.prems(2)] Cons.hyps(2) by (auto simp: mq_messages_def)
  let ?q = "mlme_free_elem Elem q1" and ?p = "mlme_step run p e"
  note tl = dequeue_tl [OF Cons.prems(2) ne d]
  have e: "e = mqEntry q1 ! Elem" "es = mq_elems ?q"
    using tl(2,3) Cons.hyps(2) by simp_all
  have m: "msg_ok (meMachine e) (meMsgType e)" "\<forall>e\<in>set es. msg_ok (meMachine e) (meMsgType e)"
    using Cons.prems(4) Cons.hyps(2) [symmetric] by simp_all
  have "mlme_loop run p = mlme_loop run (?p\<lparr>mlQueue := ?q\<rparr>)"
  proof (cases "meMsgType e = 45")
    case True
    then show ?thesis
      using d ne Cons.prems(3) e(1)
      by (subst mlme_loop.simps) (simp add: MlmeQueueEmpty_def mlme_step_def MlmeRestartStateMachine_def)
  next
    case False
    have "mlme_switch run e (p\<lparr>mlQueue := q1\<rparr>) = Some (?p\<lparr>mlQueue := q1\<rparr>)"
      using switch_ok [OF _ m(1) False, of "p\<lparr>mlQueue := q1\<rparr>" run] Cons.prems(1) mlme_step_ok(3) [OF assms(1) Cons.prems(1)] by simp
    then show ?thesis
      using d ne Cons.prems(3) e(1) False
      by (subst mlme_loop.simps) (simp add: MlmeQueueEmpty_def)
  qed
  moreover have "\<exists>q. mlme_loop run (?p\<lparr>mlQueue := ?q\<rparr>) = Some ((foldl (mlme_step run) (?p\<lparr>mlQueue := ?q\<rparr>) es)\<lparr>mlQueue := q\<rparr>) \<and> mq_inv q \<and> mqNum q = 0"
    using Cons.hyps(1) [of "?p\<lparr>mlQueue := ?q\<rparr>"] e(2) tl(4) m(2) Cons.prems mlme_step_ok(1,2) [OF assms(1) Cons.prems(1), of e] by simp
  ultimately show ?case
    using Cons.hyps(2) [symmetric] foldl_step_queue [OF assms(1) mlme_step_ok(1) [OF assms(1) Cons.prems(1)]] by simp
qed

text \<open>A machine that is set up by \<^verbatim>\<open>StateMachineInit\<close> and a sequence of actions.\<close>

lemma machine_init_ok:
  assumes "k = unat StNr * unat MsgNr" "unat StNr * unat MsgNr < 2 ^ 32" "InitState < StNr"
  shows "\<exists>S. map_option (set_actions as) (StateMachineInit (replicate k None) StNr MsgNr DefFunc InitState 0) = Some S \<and> machine_ok MsgNr S"
proof -
  obtain S where S: "StateMachineInit (replicate k None) StNr MsgNr DefFunc InitState 0 = Some S"
    "sm_ok S" "smBase S = 0" "smNrState S = StNr" "smNrMsg S = MsgNr" "smCurrState S = InitState"
    using StateMachineInit_ok [OF _ assms(2), of "replicate k None"] assms(1) by (metis length_replicate)
  show ?thesis
    using S assms(3) set_actions_ok [OF S(2), of as] by (simp add: machine_ok_def)
qed

section \<open>Properties\<close>

lemma MlmeInit_ok:
  obtains pAd' where "MlmeInit pAd = Some pAd'" "machines_ok pAd'" "mlQueue pAd' = MlmeQueueInit (mlQueue pAd)" "\<not> mlRunning pAd'"
    and "mlStopped pAd' = mlStopped pAd"
proof -
  have "\<exists>S. AssocStateMachineInit (replicate 44 None) = Some S \<and> machine_ok 11 S"
    unfolding AssocStateMachineInit_def by (rule machine_init_ok) simp_all
  moreover have "\<exists>S. AuthStateMachineInit (replicate 9 None) = Some S \<and> machine_ok 3 S"
    unfolding AuthStateMachineInit_def by (rule machine_init_ok) simp_all
  moreover have "\<exists>S. AuthRspStateMachineInit (replicate 6 None) = Some S \<and> machine_ok 3 S"
    unfolding AuthRspStateMachineInit_def by (rule machine_init_ok) simp_all
  moreover have "\<exists>S. SyncStateMachineInit (replicate 48 None) = Some S \<and> machine_ok 12 S"
    unfolding SyncStateMachineInit_def by (rule machine_init_ok) simp_all
  moreover have "\<exists>S. WpaStateMachineInit (replicate 5 None) = Some S \<and> machine_ok 5 S"
    unfolding WpaStateMachineInit_def by (rule machine_init_ok) simp_all
  moreover have "\<exists>S. ActionStateMachineInit (replicate 28 None) = Some S \<and> machine_ok 28 S"
    unfolding ActionStateMachineInit_def by (rule machine_init_ok) simp_all
  ultimately show ?thesis
    using that by (auto simp: MlmeInit_def machines_ok_def)
qed

text \<open>The messages of received frames belong to the tables.\<close>

lemma MsgTypeSubst_msg_ok:
  assumes "MsgTypeSubst pFrame 0xff 0 = Some (True, Machine, MsgType)"
  shows "msg_ok (word_of_int Machine) (word_of_int MsgType)"
proof -
  have small: "(word_of_int (int c) :: u64) < word_of_int (int k)" if "c < k" "k < 100" for c k
    using that by (simp add: word_less_nat_alt unsigned_of_nat take_bit_nat_eq_self)
  have eap: "(word_of_int (int (unat x)) :: u64) < 5" if "x \<le> 4" for x :: u8
    using small [of "unat x" 5] that by (simp add: word_le_nat_alt)
  have act: "(word_of_int (int c) :: u64) < 28" if "\<not> 21 < c" for c
    using small [of c 28] that by simp
  show ?thesis
    using assms eap [of "pFrame ! 33"] act [of "unat (pFrame ! 24 AND 0x7f)"]
    by (auto simp: MsgTypeSubst_def WpaMsgTypeSubst_def Let_def msg_ok_def split: if_splits)
qed

text \<open>
  Received frames have an action (C33). \<^verbatim>\<open>MlmeInit\<close> fills the tables of the six machines completely; with such tables, in whatever states the machines
  are, a message that \<^verbatim>\<open>MsgTypeSubst\<close> makes of a received frame never leads \<^verbatim>\<open>StateMachinePerformAction\<close> outside of the table of its
  machine, although the index is not checked there: exactly one action of the table is performed, or none when the machine is unknown.
\<close>

theorem MsgTypeSubst_in_table:
  assumes "MsgTypeSubst pFrame 0xff 0 = Some (True, Machine, MsgType)" "machines_ok pAd"
    and "meMachine e = word_of_int Machine" "meMsgType e = word_of_int MsgType"
  shows "(\<exists>pAd1. MlmeInit pAd0 = Some pAd1 \<and> machines_ok pAd1)
    \<and> mlme_switch run e pAd = Some (case mlme_action pAd e of None \<Rightarrow> pAd | Some f \<Rightarrow> run f e pAd)"
proof -
  have "msg_ok (meMachine e) (meMsgType e)"
    using MsgTypeSubst_msg_ok [OF assms(1)] assms(3,4) by simp
  then have "mlme_switch run e pAd = Some (case mlme_action pAd e of None \<Rightarrow> pAd | Some f \<Rightarrow> run f e pAd)"
    by (rule switch_action [OF assms(2)])
  moreover obtain pAd1 where "MlmeInit pAd0 = Some pAd1" "machines_ok pAd1"
    by (rule MlmeInit_ok)
  ultimately show ?thesis
    by blast
qed

definition ex_machine :: state_machine where
  "ex_machine = \<lparr>smBase = 0, smNrState = 0, smNrMsg = 0, smCurrState = 0, smTransFunc = []\<rparr>"

definition ex_mlme0 :: mlme where
  "ex_mlme0 = \<lparr>mlCntlMachine = ex_machine, mlAssocMachine = ex_machine, mlAuthMachine = ex_machine, mlAuthRspMachine = ex_machine,
     mlSyncMachine = ex_machine, mlWpaPskMachine = ex_machine, mlActMachine = ex_machine, mlWpaMachine = ex_machine, mlRunning = False,
     mlQueue = ex_queue, mlStopped = False, mlEvents = []\<rparr>"

definition ex_mlme :: mlme where
  "ex_mlme = the (MlmeInit ex_mlme0)"

lemma ex_mlme_ok: "machines_ok ex_mlme" "\<not> mlRunning ex_mlme" "\<not> mlStopped ex_mlme"
proof -
  obtain p where p: "MlmeInit ex_mlme0 = Some p" "machines_ok p" "\<not> mlRunning p" "mlStopped p = mlStopped ex_mlme0"
    by (rule MlmeInit_ok)
  then have "ex_mlme = p"
    by (simp add: ex_mlme_def)
  moreover have "\<not> mlStopped ex_mlme0"
    by (simp add: ex_mlme0_def)
  ultimately show "machines_ok ex_mlme" "\<not> mlRunning ex_mlme" "\<not> mlStopped ex_mlme"
    using p(2-4) by simp_all
qed

theorem MsgTypeSubst_in_table_witness:
  "MsgTypeSubst (0x80 # replicate 40 0) 0xff 0 = Some (True, 4, 3)
    \<and> mlme_switch (\<lambda>f e p. p) (ex_elem\<lparr>meMachine := 4, meMsgType := 3\<rparr>) ex_mlme = Some ex_mlme"
proof -
  have f: "MsgTypeSubst (0x80 # replicate 40 0) 0xff 0 = Some (True, 4, 3)"
    by (simp add: MsgTypeSubst_def)
  show ?thesis
    using f MsgTypeSubst_in_table [OF f ex_mlme_ok(1), of "ex_elem\<lparr>meMachine := 4, meMsgType := 3\<rparr>" ex_mlme "\<lambda>f e p. p"]
    by (auto split: option.splits)
qed



end
