(* ===== verification/Spec2Isabelle.thy ===== *)
theory Spec2Isabelle
  imports Wpa_Handshake Aes_Wrap Aes_Cmac Soft_Crypt Ba_Reorder Mlme_Fsm
begin

text \<open>
  A verification library for the Linux driver of the Netgear A6210 (MediaTek MT7612U) wireless adapter.

  \<^bold>\<open>The program.\<close> The driver is one kernel module. \<^verbatim>\<open>src/os/linux\<close> connects it to the kernel, \<^verbatim>\<open>src/mac\<close>,
  \<^verbatim>\<open>src/mcu\<close>, \<^verbatim>\<open>src/phy\<close>, \<^verbatim>\<open>src/eeprom\<close> and \<^verbatim>\<open>src/chips\<close> program the hardware, and \<^verbatim>\<open>src/common\<close>,
  \<^verbatim>\<open>src/mgmt\<close>, \<^verbatim>\<open>src/sta\<close> and \<^verbatim>\<open>src/rate_ctrl\<close> hold the protocol logic. The library models the
  software cryptography, the WPA handshakes, the block acknowledgement reordering and the management queue of the protocol logic, that is
  the parts whose behaviour does not depend on registers.

  \<^bold>\<open>The theories.\<close>
  \<^item> \<open>Wlan_Prelude\<close>: byte buffers with offsets, loads and stores, rotations, byte swaps, allocation
    oracles and fold lemmas that the components share.
  \<^item> \<open>Arc4\<close> (\<^verbatim>\<open>common/crypt_arc4.c\<close>): the stream cipher, with the interface \<open>stream_cipher\<close>.
  \<^item> \<open>Hash_Core\<close>, \<open>Sha1\<close>, \<open>Sha256\<close>, \<open>Md5\<close>, \<open>Hmac\<close> (\<^verbatim>\<open>common/crypt_sha2.c\<close>, \<^verbatim>\<open>crypt_md5.c\<close>,
    \<^verbatim>\<open>crypt_hmac.c\<close>): the hashes with their incremental operations, proved against the padded
    one-shot definitions through the interfaces \<open>block_hash\<close> and \<open>hash_module\<close>.
  \<^item> \<open>Aes_Tables\<close>, \<open>Aes\<close>, \<open>Aes_Wrap\<close>, \<open>Aes_Cmac\<close>, \<open>Aes_Ccm\<close> (\<^verbatim>\<open>common/crypt_aes.c\<close>): the block cipher (interface
    \<open>block_cipher\<close>), key wrap, CMAC and CCM, against FIPS 197, RFC 3394, RFC 4493 and RFC 3610.
  \<^item> \<open>Crc32\<close>, \<open>Wep\<close> (\<^verbatim>\<open>common/cmm_wep.c\<close>): the checksum against the shift register of IEEE 802, and WEP.
  \<^item> \<open>Tkip_Mic\<close>, \<open>Tkip_Mix\<close>, \<open>Tkip\<close> (\<^verbatim>\<open>common/cmm_tkip.c\<close>, \<^verbatim>\<open>RTMPReportMicError\<close> of \<^verbatim>\<open>sta/wpa.c\<close>): Michael on
    64 bit variables against the 32 bit definition, key mixing on 32 bit variables
    against the 16 bit definition, decryption and the MIC countermeasures.
  \<^item> \<open>Ccmp\<close> (\<^verbatim>\<open>common/cmm_aes.c\<close>): associated data, nonce, header, encryption and decryption.
  \<^item> \<open>Soft_Crypt\<close> (\<^verbatim>\<open>common/cmm_wpa.c\<close>): the dispatch of the software cryptography over the ciphers.
  \<^item> \<open>Ba_Reorder\<close> (\<^verbatim>\<open>common/ba_action.c\<close>): pool, sorted list, release loops, timeouts and
    \<^verbatim>\<open>Indicate_AMPDU_Packet\<close>.
  \<^item> \<open>Fifo\<close>: the interfaces \<open>fifo\<close> and \<open>bounded_fifo\<close> of a queue between two contexts, with the order of any interleaving.
  \<^item> \<open>Mlme_Queue\<close>, \<open>Mlme_Fsm\<close> (\<^verbatim>\<open>common/mlme.c\<close> and the set up of the machines in \<^verbatim>\<open>sta\<close>, \<^verbatim>\<open>common/cmm_wpa.c\<close> and
    \<^verbatim>\<open>common/action.c\<close>): the ring of management messages, the translation of received frames, the tables of actions, and the handler.
  \<^item> \<open>Wpa_Keys\<close>, \<open>Mac_Entry\<close>, \<open>Eapol\<close>, \<open>Wpa_Handshake\<close> (\<^verbatim>\<open>common/cmm_wpa.c\<close>, \<^verbatim>\<open>mgmt/mgmt_entrytb.c\<close>): the derivation of the WPA keys,
    the table of peers, the EAPOL-Key frames with the installation of keys, and the actions of the WPA state machine.

  \<^bold>\<open>Conventions.\<close> A structure is a record, with a prefix on the field names where they would capture variables. A buffer is a
  list of bytes; pointers into one buffer are offsets into one memory, so that calls in place and with
  overlapping areas are covered. Integers keep their width as words; lengths that the callers bound are natural numbers, with
  the wrap-around written out where the code can reach it. \<^verbatim>\<open>ULONG\<close> has 64 bits. A result \<open>None\<close> is
  undefined behaviour of the C code: an access outside of a buffer, the use of a null pointer, or a division by zero.
  Allocations are an oracle \<open>al\<close> that says which of them succeed, and \<open>alloc_ok\<close> is the
  hypothesis that all do; uninitialised stack arrays and heap blocks are arguments. Locks and debug output are left out. Effects
  on other parts (timers, messages, packets passed up) are recorded in the state, in their order.

  \<^bold>\<open>Loops.\<close> The loops are total functions: folds, structural recursion, or recursion with a
  termination proof. The loops whose end depends on their state (\<open>append_loop\<close>, \<open>tkip_pad_loop\<close>, \<open>mlme_loop\<close>, \<open>mac_lookup_loop\<close>) are partial functions
  into \<open>option\<close>; the first two are proved to return always, the handler loop for actions that keep to the state machines, the search
  for chains that end. No fuel is used.

  \<^bold>\<open>What the properties show.\<close> The software cryptography: each algorithm equals the published
  definition, encryption and decryption are inverse on every cipher and across the dispatch, corrupted frames are
  rejected, short frames are safe in CCMP and not in WEP, and what happens when memory runs out. The reordering of received frames: the
  list of a session keeps its invariant, frames are delivered in order, every packet is accounted for exactly once, and the frames of a
  window are all delivered in whatever order they arrive; a block is lost with every EAP frame that is out of order.
  The management entity: the ring is a queue, the message of a received frame never leaves the table of its machine, and the handler
  ends with an empty queue; a message that is posted by an action while the ring is full is damaged.
  The WPA handshakes of a station: the keys are those of IEEE 802.11i and PBKDF2, the messages that one side builds pass the checks of
  the other side and carry the group key across, and no frame without the MIC of the peer's key changes a key or opens the port; a
  repeated message 3 installs the key in use again.

  \<^bold>\<open>Not modelled.\<close> Register programming and firmware (\<^verbatim>\<open>src/chips\<close>, \<^verbatim>\<open>src/phy\<close>, \<^verbatim>\<open>src/mac\<close>, \<^verbatim>\<open>src/mcu\<close>, \<^verbatim>\<open>src/eeprom\<close>,
  \<^verbatim>\<open>src/ate\<close>): its effect is defined by hardware that is not part of the sources. The kernel glue
  (\<^verbatim>\<open>src/os/linux\<close>) and the USB transport: calls of kernel services. The command interpreters
  (\<^verbatim>\<open>common/cmm_info.c\<close>, \<^verbatim>\<open>sta/sta_cfg.c\<close>): printing and setting of configuration. The actions of the state
  machines for authentication, association and scanning, which mostly build and send frames, and the rate control. The branches for an
  access point and an AP client, which the station build does not compile.
\<close>

section \<open>Software encryption and decryption across the ciphers\<close>

text \<open>
  (C4) The two ends of the software cryptography fit together for every cipher that the driver can
  encrypt with (WEP64, WEP128 and CCMP): for a key with its transmit counter, the IV header of
  \<open>RTMPSoftConstructIVHdr\<close>, the text encrypted by \<open>RTMPSoftEncryptionAction\<close> and the reported extension form a
  frame that \<open>RTMPSoftDecryptionAction\<close> accepts, also with the header of a retransmission. It
  restores the text and its length and records no MIC failure.
\<close>

theorem soft_crypt_round_trip:
  assumes "alloc_ok al" and "alloc_ok al'" and "length cc0 = 16" and "length cc1 = 16"
    and "cipher_key_wf k" and "0 < ckKeyLen k" and "ckCipherAlg k \<in> {1, 2, 4}"
    and "ckCipherAlg k = 4 \<or> ckKeyLen k \<le> 13"
    and "ccmp_hdr_len pHdr \<le> length pHdr" and "ccmp_same_header pHdr pHdr'"
    and "RTMPSoftConstructIVHdr (ckCipherAlg k) idx (ckTxTsc k) = (hdr, n)"
    and "length P + 16 < 2 ^ 16" and "length ext = (if ckCipherAlg k = 4 then 8 else 4)"
  shows "\<exists>mem' rest. RTMPSoftEncryptionAction al c0 cc0 (ckCipherAlg k) pHdr (A @ hdr @ P @ ext @ B) (length A + n) (length P) k
        = Some (mem', length ext)
    \<and> RTMPSoftDecryptionAction al' c0 cc1 hz now pHdr' prio k mem' (length A) (of_nat (n + length P + length ext)) Tx sta
        = Some (NDIS_STATUS_SUCCESS, A @ P @ rest, of_nat (length P), Tx, sta)"
proof (cases "ckCipherAlg k = 4")
  case True
  have hdr: "hdr = RTMPConstructCCMPHdr idx (ckTxTsc k)" "n = 8"
    using assms(11) True by (auto simp: RTMPSoftConstructIVHdr_def)
  have "6 \<le> length (ckTxTsc k)" "ckKeyLen k \<noteq> 0" "length ext = 8"
    using assms(5,6,13) True by (auto simp: cipher_key_wf_def)
  from ccmp_round_trip [OF assms(1-4,9,10) this(1,2) assms(12) this(3), of A idx B]
  obtain Y rest where "RTMPSoftEncryptCCMP al cc0 pHdr (ckTxTsc k) (ckKey k) (A @ hdr @ P @ ext @ B) (length A + 8) (length P)
        = (True, A @ hdr @ Y @ B)"
      and "RTMPSoftDecryptCCMP al' cc1 pHdr' k (A @ hdr @ Y @ B) (length A) (of_nat (length P + 16))
        = Some (True, A @ P @ rest, of_nat (length P))"
    unfolding hdr(1) by blast
  moreover have cnt: "n + length P + length ext = length P + 16"
    using \<open>length ext = 8\<close> hdr(2) by simp
  ultimately show ?thesis
    using True \<open>length ext = 8\<close> unfolding cnt unfolding hdr(2)
    by - (rule exI [of _ "A @ hdr @ Y @ B"], rule exI [of _ rest],
      simp add: RTMPSoftEncryptionAction_def RTMPSoftDecryptionAction_def del: of_nat_add)
next
  case False
  then have alg: "ckCipherAlg k = 1 \<or> ckCipherAlg k = 2" and ext: "length ext = 4"
    using assms(7,13) by auto
  have hdr: "hdr = RTMPConstructWEPIVHdr idx (ckTxTsc k)" "n = 4"
    using assms(11) alg by (auto simp: RTMPSoftConstructIVHdr_def)
  have key: "wep_key_ok k" "3 \<le> length (ckTxTsc k)"
    using assms(5,6,8) False by (auto simp: wep_key_ok_def cipher_key_wf_def)
  have len: "length P + 8 < 2 ^ 16"
    using assms(12) by simp
  from wep_round_trip [OF assms(1) key len refl ext, where A = A and idx = idx and B = B and ?c0.0 = c0]
  obtain Y where enc: "RTMPSoftEncryptWEP al c0 (ckTxTsc k) k (A @ hdr @ P @ ext @ B) (length A + 4) (length P)
        = Some (True, A @ hdr @ Y @ B)"
    unfolding hdr(1) by blast
  from wep_round_trip [OF assms(2) key len refl ext, where A = A and idx = idx and B = B and ?c0.0 = c0] enc wep_encrypt_alloc [OF assms(1,2)]
  have "RTMPSoftDecryptWEP al' c0 k (A @ hdr @ Y @ B) (length A) (of_nat (length P + 8))
        = Some (True, A @ P @ store_le32 (crc32 P) @ drop (length P) Y @ B, of_nat (length P))"
    unfolding hdr(1) by auto
  moreover have cnt: "n + length P + length ext = length P + 8"
    using ext hdr(2) by simp
  ultimately show ?thesis
    using alg enc ext unfolding cnt unfolding hdr(2)
    by - (rule exI [of _ "A @ hdr @ Y @ B"], rule exI [of _ "store_le32 (crc32 P) @ drop (length P) Y @ B"],
      auto simp: RTMPSoftEncryptionAction_def RTMPSoftDecryptionAction_def simp del: of_nat_add)
qed

theorem soft_crypt_round_trip_witness:
  "\<exists>mem' rest. RTMPSoftEncryptionAction (\<lambda>n. True) \<lparr>BlockIndex1 = 0, BlockIndex2 = 0, KeyBlock = []\<rparr> (replicate 16 0) 1
        ccmp_header_example ([] @ RTMPConstructWEPIVHdr 2 (replicate 16 0) @ [65, 66] @ [0, 0, 0, 0] @ []) 4 (length [65, 66 :: u8])
        wep_key_example = Some (mem', length [0, 0, 0, 0 :: u8])
    \<and> RTMPSoftDecryptionAction (\<lambda>n. True) \<lparr>BlockIndex1 = 0, BlockIndex2 = 0, KeyBlock = []\<rparr> (replicate 16 0) 100 5
        ccmp_header_retry 0 wep_key_example mem' 0 10 tkip_key_example mic_state_example
        = Some (NDIS_STATUS_SUCCESS, [65, 66] @ rest, 2, tkip_key_example, mic_state_example)"
proof -
  have k: "cipher_key_wf wep_key_example" "ckCipherAlg wep_key_example = 1" "ckKeyLen wep_key_example = 5"
      "ckTxTsc wep_key_example = replicate 16 0"
    by (simp_all add: wep_key_example_def cipher_key_wf_def)
  have iv: "RTMPSoftConstructIVHdr (ckCipherAlg wep_key_example) 2 (ckTxTsc wep_key_example)
      = (RTMPConstructWEPIVHdr 2 (replicate 16 0), 4)"
    by (simp add: RTMPSoftConstructIVHdr_def k)
  show ?thesis
    using soft_crypt_round_trip [OF alloc_ok_True alloc_ok_True _ _ k(1) _ _ _ ccmp_header_example_ok iv, of "replicate 16 0"
        "replicate 16 0" "[65, 66]" "[0, 0, 0, 0]" "\<lparr>BlockIndex1 = 0, BlockIndex2 = 0, KeyBlock = []\<rparr>" "[]" "[]" 100 5 0
        tkip_key_example mic_state_example]
    by (simp add: k)
qed

end
